(* ===== verification/Kinesis_Prelude.thy ===== *)
theory Kinesis_Prelude
  imports Main
begin

text \<open>
  What the component theories share: the outcome of a Go call that may panic or block for ever,
  the two list operations the code performs with slice expressions (deleting one index, searching
  from the end), and the generic lemmas about lists and maps the component proofs use.
  \<open>frame_simps\<close> collects the facts that say which fields an operation leaves alone.
\<close>

named_theorems frame_simps

section \<open>Outcomes\<close>

text \<open>
  A Go call returns, panics, or never returns because the goroutine is blocked for ever (a send on
  a nil channel, a wait for a reply that cannot come).
\<close>

datatype 'a outcome = Ret 'a | Panics | Blocks

fun bindO :: "'a outcome \<Rightarrow> ('a \<Rightarrow> 'b outcome) \<Rightarrow> 'b outcome" where
  "bindO (Ret x) f = f x"
| "bindO Panics f = Panics"
| "bindO Blocks f = Blocks"

lemma bindO_eq_Ret [simp]: "bindO m f = Ret y \<longleftrightarrow> (\<exists>x. m = Ret x \<and> f x = Ret y)"
  by (cases m) auto

section \<open>Deleting one index of a slice\<close>

text \<open>\<^verbatim>\<open>append(xs[:i], xs[i+1:]...)\<close> for an index in range.\<close>

definition removeAt :: "nat \<Rightarrow> 'a list \<Rightarrow> 'a list" where
  "removeAt i xs = take i xs @ drop (Suc i) xs"

lemma removeAt_simps [simp]:
  "removeAt 0 (x # xs) = xs"
  "removeAt (Suc i) (x # xs) = x # removeAt i xs"
  "removeAt i [] = []"
  by (simp_all add: removeAt_def)

lemma length_removeAt: "i < length xs \<Longrightarrow> length (removeAt i xs) = length xs - 1"
  by (simp add: removeAt_def)

lemma removeAt_append: "removeAt (length xs) (xs @ y # ys) = xs @ ys"
  by (simp add: removeAt_def)

lemma set_removeAt_subset: "set (removeAt i xs) \<subseteq> set xs"
  using set_take_subset [of i xs] set_drop_subset [of "Suc i" xs]
  by (auto simp: removeAt_def)

lemma removeAt_decomp: "i < length xs \<Longrightarrow> xs = take i xs @ xs ! i # drop (Suc i) xs"
  by (simp add: id_take_nth_drop)

lemma distinct_removeAt: "distinct xs \<Longrightarrow> distinct (removeAt i xs)"
proof (induction xs arbitrary: i)
  case (Cons x xs)
  then show ?case
    using set_removeAt_subset [of _ xs] by (cases i) auto
qed simp

lemma set_removeAt_distinct:
  assumes "distinct xs" and "i < length xs"
  shows "set (removeAt i xs) = set xs - {xs ! i}"
proof -
  obtain ys zs where xs: "xs = ys @ xs ! i # zs" and i: "i = length ys"
    using removeAt_decomp [OF assms(2)] assms(2) by (metis length_take min.absorb4)
  have "removeAt i xs = ys @ zs"
    by (subst xs, subst i) (rule removeAt_append)
  then show ?thesis using xs assms(1) by (metis distinct.simps(2) distinct_append set_append
        Diff_insert_absorb Un_insert_right list.simps(15) not_distinct_conv_prefix Un_iff)
qed

text \<open>
  Deleting index 0, then index 1 of what is left, then index 2, and so on, as a loop does that
  counts up while the slice shrinks: every second element survives.
\<close>

fun oddPositions :: "'a list \<Rightarrow> 'a list" where
  "oddPositions [] = []"
| "oddPositions [x] = []"
| "oddPositions (x # y # zs) = y # oddPositions zs"

lemma length_oddPositions: "length (oddPositions xs) = length xs div 2"
  by (induction xs rule: oddPositions.induct) auto

fun removeEach :: "nat list \<Rightarrow> 'a list \<Rightarrow> 'a list" where
  "removeEach [] xs = xs"
| "removeEach (i # is) xs = removeEach is (if i < length xs then removeAt i xs else xs)"

lemma removeEach_beyond: "\<forall>i \<in> set is. length xs \<le> i \<Longrightarrow> removeEach is xs = xs"
  by (induction "is") auto

lemma removeEach_upt:
  "length rest \<le> m \<Longrightarrow>
     removeEach [length kept..<length kept + m] (kept @ rest) = kept @ oddPositions rest"
proof (induction rest arbitrary: kept m rule: oddPositions.induct)
  case 1
  then show ?case by (simp add: removeEach_beyond)
next
  case (2 x)
  then obtain m' where m: "m = Suc m'" by (cases m) auto
  have "[length kept..<length kept + m] = length kept # [Suc (length kept)..<length kept + m]"
    using m by (simp add: upt_conv_Cons)
  then show ?case by (simp add: removeAt_append removeEach_beyond)
next
  case (3 x y zs)
  then obtain m' where m: "m = Suc m'" and m': "length zs \<le> m'" by (cases m) auto
  have upt: "[length kept..<length kept + m] = length kept # [length (kept @ [y])..<length (kept @ [y]) + m']"
    using m by (simp add: upt_conv_Cons)
  show ?case
    unfolding upt using "3.IH" [OF m', of "kept @ [y]"] by (simp add: removeAt_append)
qed

lemma removeEach_all: "removeEach [0..<length xs] xs = oddPositions xs"
  using removeEach_upt [of xs "length xs" "[]"] by simp

section \<open>Searching from the end\<close>

fun lastPos :: "'a \<Rightarrow> 'a list \<Rightarrow> nat option" where
  "lastPos a [] = None"
| "lastPos a (x # xs) =
     (case lastPos a xs of Some i \<Rightarrow> Some (Suc i) | None \<Rightarrow> if x = a then Some 0 else None)"

lemma lastPos_None_iff [simp]: "lastPos a xs = None \<longleftrightarrow> a \<notin> set xs"
  by (induction xs) (auto split: option.splits)

lemma lastPos_Some: 
  "lastPos a xs = Some i \<Longrightarrow> i < length xs \<and> xs ! i = a \<and> a \<notin> set (drop (Suc i) xs)"
  by (induction xs arbitrary: i) (fastforce split: option.splits if_splits)+

lemma lastPos_less: "lastPos a xs = Some i \<Longrightarrow> i < length xs"
  by (simp add: lastPos_Some)

lemma lastPos_eq_Some_iff: 
  "lastPos a xs = Some i \<longleftrightarrow> i < length xs \<and> xs ! i = a \<and> a \<notin> set (drop (Suc i) xs)"
proof
  assume "i < length xs \<and> xs ! i = a \<and> a \<notin> set (drop (Suc i) xs)"
  then show "lastPos a xs = Some i"
  proof (induction xs arbitrary: i)
    case (Cons x xs)
    then show ?case
    proof (cases i)
      case (Suc j)
      with Cons show ?thesis by simp
    next
      case 0
      with Cons.prems have "lastPos a xs = None" by simp
      with 0 Cons.prems show ?thesis by (simp del: lastPos_None_iff)
    qed
  qed simp
qed (rule lastPos_Some)

lemma lastPos_append_notin: 
  "a \<notin> set ys \<Longrightarrow> lastPos a (xs @ a # ys) = Some (length xs)"
  by (simp add: lastPos_eq_Some_iff)

section \<open>Finding the association of a key\<close>

lemma map_of_filter_neq: 
  "map_of (filter (\<lambda>(k', v). k' \<noteq> k) xs) = (map_of xs)(k := None)"
  by (induction xs) (auto simp: fun_eq_iff)

section \<open>Registries of names\<close>

text \<open>
  The contract of a table that maps names to values, refuses a second entry under a name, and
  deletes by name: the components of a container and the subscribers of a component both offer it.
  A registry also reports whether the name to delete was there.
\<close>

locale name_table =
  fixes lookup :: "'d \<Rightarrow> 'k \<Rightarrow> 'v option"
    and enter :: "'k \<Rightarrow> 'v \<Rightarrow> 'd \<Rightarrow> 'd \<times> 'e option"
    and delete :: "'k \<Rightarrow> 'd \<Rightarrow> 'd"
  assumes enter_new: 
      "lookup d k = None \<Longrightarrow> lookup (fst (enter k v d)) = (lookup d)(k \<mapsto> v) \<and> snd (enter k v d) = None"
    and enter_taken: "lookup d k = Some u \<Longrightarrow> fst (enter k v d) = d \<and> snd (enter k v d) \<noteq> None"
    and lookup_delete: "lookup (delete k d) = (lookup d)(k := None)"
begin

lemma enter_succeeds_iff: "snd (enter k v d) = None \<longleftrightarrow> lookup d k = None"
  using enter_new [of d k v] enter_taken [of d k _ v] by (cases "lookup d k") auto

lemma lookup_enter: 
  "lookup (fst (enter k v d)) = (if lookup d k = None then (lookup d)(k \<mapsto> v) else lookup d)"
  using enter_new [of d k v] enter_taken [of d k _ v] by (cases "lookup d k") auto

lemma enter_delete_restores: "lookup d k = None \<Longrightarrow> lookup (delete k (fst (enter k v d))) = lookup d"
  by (simp add: lookup_delete lookup_enter fun_eq_iff)

lemma enter_twice: 
  "fst (enter k w (fst (enter k v d))) = fst (enter k v d) \<and> snd (enter k w (fst (enter k v d))) \<noteq> None"
proof (cases "lookup d k")
  case None
  then have "lookup (fst (enter k v d)) k = Some v" by (simp add: lookup_enter)
  then show ?thesis by (rule enter_taken)
next
  case (Some u)
  then show ?thesis using enter_taken [of d k u] by simp
qed

lemma enter_other: "k \<noteq> j \<Longrightarrow> lookup (fst (enter k v d)) j = lookup d j"
  by (simp add: lookup_enter)

lemma enter_after_delete: "lookup (fst (enter k v (delete k d))) = (lookup d)(k \<mapsto> v)"
  by (simp add: lookup_enter lookup_delete)

end

locale name_registry = name_table lookup enter "\<lambda>k d. fst (drop_name k d)"
  for lookup :: "'d \<Rightarrow> 'k \<Rightarrow> 'v option"
    and enter :: "'k \<Rightarrow> 'v \<Rightarrow> 'd \<Rightarrow> 'd \<times> 'e option"
    and drop_name :: "'k \<Rightarrow> 'd \<Rightarrow> 'd \<times> 'e option" +
  assumes drop_absent: "lookup d k = None \<Longrightarrow> fst (drop_name k d) = d"
    and drop_reports: "snd (drop_name k d) = None \<longleftrightarrow> lookup d k \<noteq> None"
begin

lemma drop_twice: 
  "fst (drop_name k (fst (drop_name k d))) = fst (drop_name k d) \<and>
   snd (drop_name k (fst (drop_name k d))) \<noteq> None"
  by (simp add: drop_absent drop_reports lookup_delete)

lemma drop_entered: "snd (drop_name k (fst (enter k v d))) = None"
  by (simp add: drop_reports lookup_enter)

end

end
