(* ===== verification/Go_Text.thy ===== *)
theory Go_Text
  imports Kinesis_Prelude
begin

text \<open>
  The parts of Go's standard library on text that the code uses: \<^verbatim>\<open>strings.ToLower\<close> (on the ASCII
  letters), \<^verbatim>\<open>strings.LastIndex\<close>, \<^verbatim>\<open>strings.HasPrefix\<close>, slicing a string, \<^verbatim>\<open>strconv.FormatInt\<close> and
  \<^verbatim>\<open>strconv.Atoi\<close> in base ten, \<^verbatim>\<open>strconv.ParseBool\<close>, and hexadecimal coding. A Go string is a
  sequence of bytes, here a \<^typ>\<open>string\<close>.
\<close>

section \<open>Bytes, case, slices\<close>

definition byteOf :: "char \<Rightarrow> nat" where
  "byteOf c = of_char c"

definition chr :: "nat \<Rightarrow> char" where
  "chr n = char_of n"

lemma byteOf_chr [simp]: "n < 256 \<Longrightarrow> byteOf (chr n) = n"
  by (simp add: byteOf_def chr_def)

lemma chr_byteOf [simp]: "chr (byteOf c) = c"
  by (simp add: byteOf_def chr_def)

lemma byteOf_less [simp]: "byteOf c < 256"
  by (simp add: byteOf_def)

definition lowerChar :: "char \<Rightarrow> char" where
  "lowerChar c = (if 65 \<le> byteOf c \<and> byteOf c \<le> 90 then chr (byteOf c + 32) else c)"

definition toLower :: "string \<Rightarrow> string" where
  "toLower s = map lowerChar s"

lemma byteOf_lowerChar: 
  "byteOf (lowerChar c) = (if 65 \<le> byteOf c \<and> byteOf c \<le> 90 then byteOf c + 32 else byteOf c)"
  by (simp add: lowerChar_def)

lemma byteOf_inject: "byteOf c = byteOf d \<longleftrightarrow> c = d"
  by (metis chr_byteOf)

lemma lowerChar_idem [simp]: "lowerChar (lowerChar c) = lowerChar c"
  unfolding byteOf_inject [symmetric] byteOf_lowerChar by simp

lemma toLower_idem [simp]: "toLower (toLower s) = toLower s"
  by (simp add: toLower_def)

lemma toLower_append [simp]: "toLower (s @ t) = toLower s @ toLower t"
  by (simp add: toLower_def)

lemma length_toLower [simp]: "length (toLower s) = length s"
  by (simp add: toLower_def)

lemma lowerChar_eq_slash [simp]: "lowerChar c = CHR ''/'' \<longleftrightarrow> c = CHR ''/''"
proof -
  have "byteOf (CHR ''/'') = 47" by (simp add: byteOf_def)
  then show ?thesis
    unfolding byteOf_inject [symmetric] byteOf_lowerChar by auto
qed

lemma slash_eq_lowerChar [simp]: "CHR ''/'' = lowerChar c \<longleftrightarrow> c = CHR ''/''"
  by (metis lowerChar_eq_slash)

lemma slash_in_toLower [simp]: "CHR ''/'' \<in> set (toLower s) \<longleftrightarrow> CHR ''/'' \<in> set s"
  by (induction s) (auto simp: toLower_def dest: sym)

text \<open>\<^verbatim>\<open>strings.LastIndex(s, "c")\<close> for a one-byte separator: -1 when it does not occur.\<close>

definition lastIndex :: "string \<Rightarrow> char \<Rightarrow> int" where
  "lastIndex s c = (case lastPos c s of None \<Rightarrow> -1 | Some i \<Rightarrow> int i)"

text \<open>\<^verbatim>\<open>s[:n]\<close> and \<^verbatim>\<open>s[n:]\<close>; both panic when the bound is out of range.\<close>

definition sliceTo :: "string \<Rightarrow> int \<Rightarrow> string outcome" where
  "sliceTo s n = (if 0 \<le> n \<and> n \<le> int (length s) then Ret (take (nat n) s) else Panics)"

definition sliceFrom :: "string \<Rightarrow> int \<Rightarrow> string outcome" where
  "sliceFrom s n = (if 0 \<le> n \<and> n \<le> int (length s) then Ret (drop (nat n) s) else Panics)"

definition hasPrefix :: "string \<Rightarrow> string \<Rightarrow> bool" where
  "hasPrefix s p = (take (length p) s = p)"

section \<open>Decimal numbers\<close>

definition digitChar :: "nat \<Rightarrow> char" where
  "digitChar d = chr (48 + d)"

definition digitVal :: "char \<Rightarrow> nat option" where
  "digitVal c = (if 48 \<le> byteOf c \<and> byteOf c \<le> 57 then Some (byteOf c - 48) else None)"

lemma digitVal_digitChar [simp]: "d < 10 \<Longrightarrow> digitVal (digitChar d) = Some d"
  by (simp add: digitVal_def digitChar_def)

fun formatNat :: "nat \<Rightarrow> string" where
  "formatNat n = (if n < 10 then [digitChar n] else formatNat (n div 10) @ [digitChar (n mod 10)])"

declare formatNat.simps [simp del]

text \<open>\<^verbatim>\<open>strconv.FormatInt(i, 10)\<close>, and what \<^verbatim>\<open>%v\<close> prints for an integer.\<close>

definition formatInt :: "int \<Rightarrow> string" where
  "formatInt i = (if i < 0 then CHR ''-'' # formatNat (nat (- i)) else formatNat (nat i))"

fun parseDigits :: "nat \<Rightarrow> string \<Rightarrow> nat option" where
  "parseDigits acc [] = Some acc"
| "parseDigits acc (c # cs) =
     (case digitVal c of None \<Rightarrow> None | Some d \<Rightarrow> parseDigits (10 * acc + d) cs)"

definition maxInt64 :: int where "maxInt64 = 2 ^ 63 - 1"
definition minInt64 :: int where "minInt64 = - (2 ^ 63)"

definition clampInt64 :: "int \<Rightarrow> int" where
  "clampInt64 i = (if i < minInt64 then minInt64 else if maxInt64 < i then maxInt64 else i)"

text \<open>
  The value \<^verbatim>\<open>strconv.Atoi\<close> returns, which the code keeps and whose error it drops: 0 for text that
  is not a number, the nearest representable value for a number out of range.
\<close>

definition unsignedPart :: "string \<Rightarrow> nat option" where
  "unsignedPart s = (if s = [] then None else parseDigits 0 s)"

definition atoi :: "string \<Rightarrow> int" where
  "atoi s =
     (case s of
        [] \<Rightarrow> 0
      | c # cs \<Rightarrow>
          if c = CHR ''-'' then (case unsignedPart cs of None \<Rightarrow> 0 | Some n \<Rightarrow> clampInt64 (- int n))
          else if c = CHR ''+'' then (case unsignedPart cs of None \<Rightarrow> 0 | Some n \<Rightarrow> clampInt64 (int n))
          else (case unsignedPart s of None \<Rightarrow> 0 | Some n \<Rightarrow> clampInt64 (int n)))"

lemma parseDigits_append_digit:
  "d < 10 \<Longrightarrow>
     parseDigits acc (s @ [digitChar d]) = map_option (\<lambda>n. 10 * n + d) (parseDigits acc s)"
  by (induction acc s rule: parseDigits.induct) (auto split: option.splits)

lemma parseDigits_formatNat: "parseDigits 0 (formatNat n) = Some n"
proof (induction n rule: formatNat.induct)
  case (1 n)
  show ?case
  proof (cases "n < 10")
    case True
    then show ?thesis by (subst formatNat.simps) simp
  next
    case False
    with 1 have "parseDigits 0 (formatNat (n div 10)) = Some (n div 10)" by simp
    with False show ?thesis
      by (subst formatNat.simps) (simp add: parseDigits_append_digit)
  qed
qed

lemma formatNat_nonempty [simp]: "formatNat n \<noteq> []"
  by (subst formatNat.simps) simp

lemma digitChar_byte: "d < 10 \<Longrightarrow> byteOf (digitChar d) = 48 + d"
  by (simp add: digitChar_def)

lemma formatNat_digits: "c \<in> set (formatNat n) \<Longrightarrow> 48 \<le> byteOf c \<and> byteOf c \<le> 57"
proof (induction n rule: formatNat.induct)
  case (1 n)
  show ?case
  proof (cases "n < 10")
    case True
    with "1.prems" show ?thesis
      by (simp add: formatNat.simps [of n] digitChar_byte)
  next
    case False
    with "1.prems" have "c \<in> set (formatNat (n div 10)) \<or> c = digitChar (n mod 10)"
      by (auto simp: formatNat.simps [of n])
    with False "1.IH" show ?thesis by (auto simp: digitChar_byte)
  qed
qed

lemma unsignedPart_formatNat [simp]: "unsignedPart (formatNat n) = Some n"
  by (simp add: unsignedPart_def parseDigits_formatNat)

lemma clampInt64_id: "minInt64 \<le> i \<Longrightarrow> i \<le> maxInt64 \<Longrightarrow> clampInt64 i = i"
  by (simp add: clampInt64_def)

lemma hd_formatNat_not_sign:
  "formatNat n = c # cs \<Longrightarrow> c \<noteq> CHR ''-'' \<and> c \<noteq> CHR ''+''"
proof -
  assume "formatNat n = c # cs"
  then have "48 \<le> byteOf c" using formatNat_digits [of c n] by simp
  then show ?thesis by (auto simp: byteOf_def)
qed

lemma atoi_formatNat: "atoi (formatNat n) = clampInt64 (int n)"
proof (cases "formatNat n")
  case (Cons c cs)
  with hd_formatNat_not_sign [OF Cons] show ?thesis
    using unsignedPart_formatNat [of n] by (simp add: atoi_def)
qed simp

lemma atoi_formatInt:
  assumes "minInt64 \<le> i" and "i \<le> maxInt64"
  shows "atoi (formatInt i) = i"
proof (cases "i < 0")
  case True
  then have "atoi (formatInt i) = clampInt64 (- int (nat (- i)))"
    by (simp add: formatInt_def atoi_def)
  with True assms show ?thesis by (simp add: clampInt64_id)
next
  case False
  with assms show ?thesis by (simp add: formatInt_def atoi_formatNat clampInt64_id)
qed

lemma formatNat_inject: "formatNat m = formatNat n \<longleftrightarrow> m = n"
  by (metis option.inject parseDigits_formatNat)

lemma formatInt_inject: "formatInt i = formatInt j \<longleftrightarrow> i = j"
proof -
  have neq: "CHR ''-'' # s \<noteq> formatNat n" for s n
    using hd_formatNat_not_sign [of n "CHR ''-''" s] by metis
  show ?thesis
    by (auto simp: formatInt_def formatNat_inject neq neq [symmetric] split: if_splits)
qed

section \<open>Booleans\<close>

definition formatBool :: "bool \<Rightarrow> string" where
  "formatBool b = (if b then ''true'' else ''false'')"

text \<open>The value of \<^verbatim>\<open>strconv.ParseBool\<close>, false for text it rejects.\<close>

definition parseBool :: "string \<Rightarrow> bool" where
  "parseBool s = (s \<in> set [''1'', ''t'', ''T'', ''TRUE'', ''true'', ''True''])"

lemma parseBool_formatBool [simp]: "parseBool (formatBool b) = b"
  by (simp add: parseBool_def formatBool_def)

section \<open>Hexadecimal\<close>

definition hexDigit :: "nat \<Rightarrow> char" where
  "hexDigit d = (if d < 10 then chr (48 + d) else chr (87 + d))"

definition hexVal :: "char \<Rightarrow> nat option" where
  "hexVal c =
     (if 48 \<le> byteOf c \<and> byteOf c \<le> 57 then Some (byteOf c - 48)
      else if 97 \<le> byteOf c \<and> byteOf c \<le> 102 then Some (byteOf c - 87)
      else if 65 \<le> byteOf c \<and> byteOf c \<le> 70 then Some (byteOf c - 55)
      else None)"

text \<open>\<^verbatim>\<open>fmt.Sprintf("%x", bytes)\<close>\<close>

fun hexEncode :: "string \<Rightarrow> string" where
  "hexEncode [] = []"
| "hexEncode (c # cs) = hexDigit (byteOf c div 16) # hexDigit (byteOf c mod 16) # hexEncode cs"

text \<open>\<^verbatim>\<open>hex.DecodeString\<close>; \<open>None\<close> stands for its error (a bad digit or an odd length).\<close>

fun hexDecode :: "string \<Rightarrow> string option" where
  "hexDecode [] = Some []"
| "hexDecode [c] = None"
| "hexDecode (c # d # cs) =
     (case hexVal c of
        None \<Rightarrow> None
      | Some h \<Rightarrow>
          (case hexVal d of
             None \<Rightarrow> None
           | Some l \<Rightarrow> map_option (\<lambda>bs. chr (16 * h + l) # bs) (hexDecode cs)))"

lemma hexVal_hexDigit [simp]: "d < 16 \<Longrightarrow> hexVal (hexDigit d) = Some d"
  by (auto simp: hexVal_def hexDigit_def)

lemma byteOf_div_16: "byteOf c div 16 < 16"
  using byteOf_less [of c] by linarith

lemma hexDecode_hexEncode [simp]: "hexDecode (hexEncode s) = Some s"
  by (induction s) (simp_all add: byteOf_div_16)

lemma length_hexEncode [simp]: "length (hexEncode s) = 2 * length s"
  by (induction s) auto

lemma hexEncode_append [simp]: "hexEncode (s @ t) = hexEncode s @ hexEncode t"
  by (induction s) auto

end
