(* ===== verification/Go_Json.thy ===== *)
theory Go_Json
  imports Go_Text
begin

text \<open>
  How \<^verbatim>\<open>encoding/json\<close> (as of the Go version named in go.mod) writes a string: the HTML-safe escaping
  of ASCII bytes, the replacement of bytes that are not UTF-8 by U+FFFD, and the escaping of U+2028
  and U+2029. Byte sequences are classified as \<^verbatim>\<open>unicode/utf8\<close> does.
\<close>

section \<open>UTF-8\<close>

definition inRange :: "nat \<Rightarrow> nat \<Rightarrow> char \<Rightarrow> bool" where
  "inRange lo hi c \<longleftrightarrow> lo \<le> byteOf c \<and> byteOf c \<le> hi"

abbreviation continuation :: "char \<Rightarrow> bool" where
  "continuation \<equiv> inRange 128 191"

text \<open>
  The size of the well-formed sequence a string starts with, \<open>None\<close> where
  \<^verbatim>\<open>utf8.DecodeRuneInString\<close> reports \<^verbatim>\<open>RuneError\<close> with size 1.
\<close>

fun utf8Size :: "string \<Rightarrow> nat option" where
  "utf8Size [] = None"
| "utf8Size (a # s) =
     (if byteOf a < 128 then Some 1
      else case s of
        [] \<Rightarrow> None
      | b # t \<Rightarrow>
          if inRange 194 223 a then (if continuation b then Some 2 else None)
          else (case t of
            [] \<Rightarrow> None
          | c # u \<Rightarrow>
              if byteOf a = 224 \<and> inRange 160 191 b \<and> continuation c then Some 3
              else if byteOf a = 237 \<and> inRange 128 159 b \<and> continuation c then Some 3
              else if inRange 225 239 a \<and> byteOf a \<noteq> 237 \<and> continuation b \<and> continuation c then Some 3
              else (case u of
                [] \<Rightarrow> None
              | d # _ \<Rightarrow>
                  if byteOf a = 240 \<and> inRange 144 191 b \<and> continuation c \<and> continuation d then Some 4
                  else if byteOf a = 244 \<and> inRange 128 143 b \<and> continuation c \<and> continuation d then Some 4
                  else if inRange 241 243 a \<and> continuation b \<and> continuation c \<and> continuation d then Some 4
                  else None)))"

lemma utf8Size_pos: "utf8Size s = Some n \<Longrightarrow> 0 < n \<and> n \<le> length s"
  by (cases s) (auto split: list.splits if_splits)

text \<open>A string is well formed when decoding it never meets an error.\<close>

function validUtf8 :: "string \<Rightarrow> bool" where
  "validUtf8 [] = True"
| "validUtf8 (c # cs) =
     (case utf8Size (c # cs) of None \<Rightarrow> False | Some n \<Rightarrow> validUtf8 (drop n (c # cs)))"
  by pat_completeness auto
termination
  by (relation "measure length") (auto dest!: utf8Size_pos simp del: utf8Size.simps)

definition ascii :: "string \<Rightarrow> bool" where
  "ascii s \<longleftrightarrow> (\<forall>c \<in> set s. byteOf c < 128)"

section \<open>String escaping\<close>

abbreviation (input) backslash :: char where "backslash \<equiv> CHR 0x5C"
abbreviation (input) quote :: char where "quote \<equiv> CHR 0x22"

definition escapeAscii :: "char \<Rightarrow> string" where
  "escapeAscii c =
     (if c = backslash \<or> c = quote then [backslash, c]
      else if byteOf c = 10 then [backslash, CHR ''n'']
      else if byteOf c = 13 then [backslash, CHR ''r'']
      else if byteOf c = 9 then [backslash, CHR ''t'']
      else if byteOf c < 32 \<or> c = CHR ''<'' \<or> c = CHR ''>'' \<or> c = CHR ''&''
      then [backslash, CHR ''u'', CHR ''0'', CHR ''0'', hexDigit (byteOf c div 16), hexDigit (byteOf c mod 16)]
      else [c])"

definition lineSeparator :: "string \<Rightarrow> string option" where
  "lineSeparator s =
     (if map byteOf (take 3 s) = [226, 128, 168] then Some (backslash # ''u2028'')
      else if map byteOf (take 3 s) = [226, 128, 169] then Some (backslash # ''u2029'')
      else None)"

function escapeBody :: "string \<Rightarrow> string" where
  "escapeBody [] = []"
| "escapeBody (c # cs) =
     (if byteOf c < 128 then escapeAscii c @ escapeBody cs
      else case utf8Size (c # cs) of
        None \<Rightarrow> backslash # ''ufffd'' @ escapeBody cs
      | Some n \<Rightarrow>
          (case lineSeparator (c # cs) of Some e \<Rightarrow> e | None \<Rightarrow> take n (c # cs))
          @ escapeBody (drop n (c # cs)))"
  by pat_completeness auto
termination
  by (relation "measure length") (auto dest!: utf8Size_pos simp del: utf8Size.simps)

definition jsonString :: "string \<Rightarrow> string" where
  "jsonString s = quote # escapeBody s @ [quote]"

text \<open>Text of unreserved characters is written as it is.\<close>

definition plainChar :: "char \<Rightarrow> bool" where
  "plainChar c \<longleftrightarrow> byteOf c < 128 \<and> escapeAscii c = [c]"

lemma escapeBody_plain: "list_all plainChar s \<Longrightarrow> escapeBody s = s"
  by (induction s) (auto simp: plainChar_def)

end
