(* ===== verification/Lifecycle_Enums.thy ===== *)
theory Lifecycle_Enums
  imports Go_Json
begin

text \<open>
  The three enumerations of component.go (\<^verbatim>\<open>stage\<close>, \<^verbatim>\<open>state\<close>, \<^verbatim>\<open>controlMsg\<close>), their order, the
  generated \<^verbatim>\<open>String\<close> methods with their name and index tables, and the \<^verbatim>\<open>MarshalJSON\<close> methods of
  marshaljson.go. A Go enumeration is an \<^verbatim>\<open>int\<close>: the \<^verbatim>\<open>String\<close> methods are defined on every
  integer and the datatypes embed into it by their position.
\<close>

section \<open>The enumerations\<close>

datatype stage =
    Submitted | Preinitializing | Preinitialized | Initializing | Initialized | Starting
  | Restarting | Started | Stopping | Stopped | Tearingdown | Teareddown | Aborting

datatype state = Inactive | Active

datatype controlMsg =
    EnablePeerMessaging | DisablePeerMessaging | NotifyPeers | Persist | Restart | RestartAfter
  | RestartMmux | Shutdown | ShutdownAfter | Cancel | CancelAfter

primrec stageCode :: "stage \<Rightarrow> int" where
  "stageCode Submitted = 0"
| "stageCode Preinitializing = 1"
| "stageCode Preinitialized = 2"
| "stageCode Initializing = 3"
| "stageCode Initialized = 4"
| "stageCode Starting = 5"
| "stageCode Restarting = 6"
| "stageCode Started = 7"
| "stageCode Stopping = 8"
| "stageCode Stopped = 9"
| "stageCode Tearingdown = 10"
| "stageCode Teareddown = 11"
| "stageCode Aborting = 12"

primrec stateCode :: "state \<Rightarrow> int" where
  "stateCode Inactive = 0"
| "stateCode Active = 1"

primrec controlCode :: "controlMsg \<Rightarrow> int" where
  "controlCode EnablePeerMessaging = 0"
| "controlCode DisablePeerMessaging = 1"
| "controlCode NotifyPeers = 2"
| "controlCode Persist = 3"
| "controlCode Restart = 4"
| "controlCode RestartAfter = 5"
| "controlCode RestartMmux = 6"
| "controlCode Shutdown = 7"
| "controlCode ShutdownAfter = 8"
| "controlCode Cancel = 9"
| "controlCode CancelAfter = 10"

lemma stageCode_inject [simp]: "stageCode s = stageCode t \<longleftrightarrow> s = t"
  by (cases s; cases t) simp_all

lemma stateCode_inject [simp]: "stateCode s = stateCode t \<longleftrightarrow> s = t"
  by (cases s; cases t) simp_all

lemma controlCode_inject [simp]: "controlCode s = controlCode t \<longleftrightarrow> s = t"
  by (cases s; cases t) simp_all

text \<open>The code compares stages with \<^verbatim>\<open><\<close>, \<^verbatim>\<open>>=\<close> and \<^verbatim>\<open>>\<close>, by position.\<close>

instantiation stage :: linorder
begin

definition less_eq_stage :: "stage \<Rightarrow> stage \<Rightarrow> bool" where
  "less_eq_stage s t \<longleftrightarrow> stageCode s \<le> stageCode t"

definition less_stage :: "stage \<Rightarrow> stage \<Rightarrow> bool" where
  "less_stage s t \<longleftrightarrow> stageCode s < stageCode t"

instance
  by standard (auto simp: less_eq_stage_def less_stage_def)

end

lemmas stage_order = less_eq_stage_def less_stage_def

lemma stage_cases_running: "Initialized \<le> s \<and> s \<le> Started \<longleftrightarrow> s \<in> {Initialized, Starting, Restarting, Started}"
  by (cases s) (simp_all add: stage_order)

lemma stage_ge_Stopping: "Stopping \<le> s \<longleftrightarrow> s \<in> {Stopping, Stopped, Tearingdown, Teareddown, Aborting}"
  by (cases s) (simp_all add: stage_order)

section \<open>String methods\<close>

text \<open>
  \<^verbatim>\<open>stringer\<close> writes one string of all names and a table of start offsets; \<^verbatim>\<open>String\<close> slices the
  name out, and prints the number for a value outside the table.
\<close>

definition sliceName :: "string \<Rightarrow> nat list \<Rightarrow> nat \<Rightarrow> string" where
  "sliceName names index i = drop (index ! i) (take (index ! Suc i) names)"

definition stageName :: string where
  "stageName = ''SubmittedPreinitializingPreinitializedInitializingInitializedStartingRestartingStartedStoppingStoppedTearingdownTeareddownAborting''"

definition stageIndex :: "nat list" where
  "stageIndex = [0, 9, 24, 38, 50, 61, 69, 79, 86, 94, 101, 112, 122, 130]"

definition stageIntString :: "int \<Rightarrow> string" where
  "stageIntString i =
     (if i < 0 \<or> int (length stageIndex - 1) \<le> i then ''stage('' @ formatInt i @ '')''
      else sliceName stageName stageIndex (nat i))"

definition stateName :: string where
  "stateName = ''InactiveActive''"

definition stateIndex :: "nat list" where
  "stateIndex = [0, 8, 14]"

definition stateIntString :: "int \<Rightarrow> string" where
  "stateIntString i =
     (if i < 0 \<or> int (length stateIndex - 1) \<le> i then ''state('' @ formatInt i @ '')''
      else sliceName stateName stateIndex (nat i))"

definition controlMsgName :: string where
  "controlMsgName = ''EnablePeerMessagingDisablePeerMessagingNotifyPeersPersistRestartRestartAfterRestartMmuxShutdownShutdownAfterCancelCancelAfter''"

definition controlMsgIndex :: "nat list" where
  "controlMsgIndex = [0, 19, 39, 50, 57, 64, 76, 87, 95, 108, 114, 125]"

definition controlIntString :: "int \<Rightarrow> string" where
  "controlIntString i =
     (if i < 0 \<or> int (length controlMsgIndex - 1) \<le> i then ''controlMsg('' @ formatInt i @ '')''
      else sliceName controlMsgName controlMsgIndex (nat i))"

text \<open>The names a reader of the enumerations expects.\<close>

primrec stageLabel :: "stage \<Rightarrow> string" where
  "stageLabel Submitted = ''Submitted''"
| "stageLabel Preinitializing = ''Preinitializing''"
| "stageLabel Preinitialized = ''Preinitialized''"
| "stageLabel Initializing = ''Initializing''"
| "stageLabel Initialized = ''Initialized''"
| "stageLabel Starting = ''Starting''"
| "stageLabel Restarting = ''Restarting''"
| "stageLabel Started = ''Started''"
| "stageLabel Stopping = ''Stopping''"
| "stageLabel Stopped = ''Stopped''"
| "stageLabel Tearingdown = ''Tearingdown''"
| "stageLabel Teareddown = ''Teareddown''"
| "stageLabel Aborting = ''Aborting''"

primrec stateLabel :: "state \<Rightarrow> string" where
  "stateLabel Inactive = ''Inactive''"
| "stateLabel Active = ''Active''"

primrec controlLabel :: "controlMsg \<Rightarrow> string" where
  "controlLabel EnablePeerMessaging = ''EnablePeerMessaging''"
| "controlLabel DisablePeerMessaging = ''DisablePeerMessaging''"
| "controlLabel NotifyPeers = ''NotifyPeers''"
| "controlLabel Persist = ''Persist''"
| "controlLabel Restart = ''Restart''"
| "controlLabel RestartAfter = ''RestartAfter''"
| "controlLabel RestartMmux = ''RestartMmux''"
| "controlLabel Shutdown = ''Shutdown''"
| "controlLabel ShutdownAfter = ''ShutdownAfter''"
| "controlLabel Cancel = ''Cancel''"
| "controlLabel CancelAfter = ''CancelAfter''"

lemma stageIntString_label: "stageIntString (stageCode s) = stageLabel s"
  by (cases s) (simp_all add: stageIntString_def sliceName_def stageName_def stageIndex_def
      eval_nat_numeral)

lemma stateIntString_label: "stateIntString (stateCode s) = stateLabel s"
  by (cases s) (simp_all add: stateIntString_def sliceName_def stateName_def stateIndex_def
      eval_nat_numeral)

lemma controlIntString_label: "controlIntString (controlCode c) = controlLabel c"
  by (cases c) (simp_all add: controlIntString_def sliceName_def controlMsgName_def
      controlMsgIndex_def eval_nat_numeral)

text \<open>Every integer in range is the position of a constant, so the tables are total and injective.\<close>

lemma stageCode_surj: "0 \<le> i \<Longrightarrow> i < 13 \<Longrightarrow> \<exists>s. stageCode s = i"
proof -
  assume "0 \<le> i" "i < 13"
  then have "i = 0 \<or> i = 1 \<or> i = 2 \<or> i = 3 \<or> i = 4 \<or> i = 5 \<or> i = 6 \<or> i = 7 \<or> i = 8
      \<or> i = 9 \<or> i = 10 \<or> i = 11 \<or> i = 12"
    by arith
  then show ?thesis by (metis stageCode.simps)
qed

lemma stageLabel_inject [simp]: "stageLabel s = stageLabel t \<longleftrightarrow> s = t"
  by (cases s; cases t) simp_all

lemma stateLabel_inject [simp]: "stateLabel s = stateLabel t \<longleftrightarrow> s = t"
  by (cases s; cases t) simp_all

lemma controlLabel_inject [simp]: "controlLabel s = controlLabel t \<longleftrightarrow> s = t"
  by (cases s; cases t) simp_all

lemma stageLabel_not_number: "stageLabel s \<noteq> ''stage('' @ t"
  by (cases s) simp_all

lemma stageIntString_out: 
  "i < 0 \<or> 13 \<le> i \<Longrightarrow> stageIntString i = ''stage('' @ formatInt i @ '')''"
  by (auto simp: stageIntString_def stageIndex_def)

section \<open>MarshalJSON\<close>

definition marshalStage :: "stage \<Rightarrow> string" where
  "marshalStage s = jsonString (stageIntString (stageCode s))"

definition marshalState :: "state \<Rightarrow> string" where
  "marshalState s = jsonString (stateIntString (stateCode s))"

definition marshalControlMsg :: "controlMsg \<Rightarrow> string" where
  "marshalControlMsg c = jsonString (controlIntString (controlCode c))"

lemma list_all_plain_stage: "list_all plainChar (stageLabel s)"
  by (cases s) (simp_all add: plainChar_def escapeAscii_def byteOf_def)

lemma list_all_plain_state: "list_all plainChar (stateLabel s)"
  by (cases s) (simp_all add: plainChar_def escapeAscii_def byteOf_def)

lemma list_all_plain_control: "list_all plainChar (controlLabel c)"
  by (cases c) (simp_all add: plainChar_def escapeAscii_def byteOf_def)

section \<open>Properties\<close>

text \<open>
  The generated \<^verbatim>\<open>String\<close> of a stage slices the right name out of its table for every constant,
  prints the number for every other integer, and no two integers print alike.
\<close>

theorem stage_String_faithful:
  "stageIntString (stageCode s) = stageLabel s \<and>
   (stageIntString i = stageIntString j) = (i = j)"
proof
  show "stageIntString (stageCode s) = stageLabel s" by (rule stageIntString_label)
  have dich: "(\<exists>s. k = stageCode s) \<or> stageIntString k = ''stage('' @ formatInt k @ '')''" for k
    using stageCode_surj [of k] stageIntString_out [of k] by (metis not_less)
  show "(stageIntString i = stageIntString j) = (i = j)"
  proof
    assume eq: "stageIntString i = stageIntString j"
    show "i = j"
    proof (cases "\<exists>s. i = stageCode s"; cases "\<exists>s. j = stageCode s")
      assume "\<exists>s. i = stageCode s" "\<exists>s. j = stageCode s"
      then show ?thesis using eq by (auto simp: stageIntString_label)
    next
      assume "\<nexists>s. i = stageCode s" "\<nexists>s. j = stageCode s"
      then show ?thesis using eq dich [of i] dich [of j] by (auto simp: formatInt_inject)
    next
      assume "\<exists>s. i = stageCode s" "\<nexists>s. j = stageCode s"
      then show ?thesis using eq dich [of j] stageLabel_not_number by (auto simp: stageIntString_label)
    next
      assume "\<nexists>s. i = stageCode s" "\<exists>s. j = stageCode s"
      then show ?thesis using eq dich [of i] stageLabel_not_number
        by (auto simp: stageIntString_label)
    qed
  qed simp
qed

text \<open>
  The JSON form of stages, states and control messages is their name in double quotes, so it tells
  any two of them apart.
\<close>

theorem enum_json_names:
  "marshalStage s = CHR 0x22 # stageLabel s @ [CHR 0x22] \<and>
   marshalState t = CHR 0x22 # stateLabel t @ [CHR 0x22] \<and>
   marshalControlMsg c = CHR 0x22 # controlLabel c @ [CHR 0x22] \<and>
   (marshalStage s = marshalStage s2) = (s = s2) \<and>
   (marshalState t = marshalState t2) = (t = t2) \<and>
   (marshalControlMsg c = marshalControlMsg c2) = (c = c2)"
  using list_all_plain_stage list_all_plain_state list_all_plain_control
  by (simp add: marshalStage_def marshalState_def marshalControlMsg_def jsonString_def escapeBody_plain
      stageIntString_label stateIntString_label controlIntString_label)

end
