(* ===== verification/Kinesis_Types.thy ===== *)
theory Kinesis_Types
  imports Lifecycle_Enums "HOL-Library.Word"
begin

text \<open>
  The data the components share: the errors the code constructs, dynamic values
  (\<^verbatim>\<open>interface{}\<close>) as far as message keys and payloads use them, the fields of a component as
  reflection sees them, immutable component copies, the change objects of changeobject.go, and the
  environment: everything a component calls that is not part of the repository.
\<close>

type_synonym cid = nat  \<comment> \<open>the address of a component\<close>
type_synonym chan = nat \<comment> \<open>a subscriber's channel\<close>

section \<open>Errors\<close>

datatype kerror =
    NilComponent | EmptyName | InvalidChars string | SameNameAsContainer
  | AlreadyActivated string
  | CallbackNotAllowed string stage | NoCallbackAt int string
  | AlreadySubscribed string string | NotSubscribed string string
  | CannotProcess string stage | NilMsgType string | NilMsgsLookup string
  | EtagMismatch | DeadlineExceeded | NotificationTimeout
  | ComponentNotFound string string | NoComponentType
  | HashFailure
  | AlreadyInitialized string | NoPersistence string | UnknownDbType string
  | ConnOptionsMissing | ConnStringNotText | ConnStringPrefix | FileError string
  | EmptyCipherKey | BadCipherText | BadCipherKey
  | UserError string

section \<open>Fields as reflection sees them\<close>

text \<open>
  A field has a name, the name of its type, its \<^verbatim>\<open>persistable\<close> tag if it has one, whether it is
  exported (settable by reflection), and a value of one of the kinds the code distinguishes; every
  other kind is kept as the text \<^verbatim>\<open>%v\<close> prints. An integer carries its width in bits. A field of
  struct kind holds the struct's own fields, and whether it is embedded.
\<close>

datatype fieldValue = VBool bool | VInt nat int | VString string | VOther string

datatype gofield =
    Field (fieldName: string) (fieldType: string) (fieldTag: "string option") (fieldExported: bool) fieldValue
  | StructField (fieldName: string) (fieldType: string) (fieldExported: bool) (fieldEmbedded: bool) "gofield list"

text \<open>
  The concrete types a component can have: the bare \<^verbatim>\<open>SimpleComponent\<close>, the types of the
  repository, and an application's own; \<open>UserContainerT\<close> embeds \<^verbatim>\<open>Container\<close>.
\<close>

datatype gotype =
    SimpleT | ContainerT | AppT | PersistenceT | HttpServerT | UserT string | UserContainerT string

text \<open>\<^verbatim>\<open>reflect.Type.Name()\<close>\<close>

fun typeName :: "gotype \<Rightarrow> string" where
  "typeName SimpleT = ''SimpleComponent''"
| "typeName ContainerT = ''Container''"
| "typeName AppT = ''App''"
| "typeName PersistenceT = ''Persistence''"
| "typeName HttpServerT = ''HttpServer''"
| "typeName (UserT s) = s"
| "typeName (UserContainerT s) = s"

section \<open>Copies and dynamic values\<close>

text \<open>The exported part of a component, as \<^verbatim>\<open>createCopy\<close> hands it to clients.\<close>

record snapshot =
  sType :: gotype
  sName :: string
  sEtag :: string
  sStage :: stage
  sState :: state
  sFields :: "gofield list"

datatype iface =
    NilI | StringI string | MsgTypeI string | ControlI controlMsg | DurationI int
  | CompI snapshot | OtherI nat

definition ControlMsgType :: iface where "ControlMsgType = MsgTypeI ''ControlMsgType''"
definition ComponentMsgType :: iface where "ComponentMsgType = MsgTypeI ''ComponentMsgType''"

lemma msgType_distinct [simp]:
  "ControlMsgType \<noteq> ComponentMsgType" "ComponentMsgType \<noteq> ControlMsgType"
  "ControlMsgType \<noteq> NilI" "ComponentMsgType \<noteq> NilI"
  "ControlMsgType \<noteq> StringI s" "ComponentMsgType \<noteq> StringI s"
  "ControlMsgType \<noteq> ControlI k"
  by (simp_all add: ControlMsgType_def ComponentMsgType_def)

text \<open>A context is the values it carries: \<^verbatim>\<open>context.WithValue\<close> updates, \<^verbatim>\<open>Value\<close> looks up.\<close>

type_synonym goctx = "iface \<Rightarrow> iface"

definition background :: goctx where "background = (\<lambda>_. NilI)"

definition withValue :: "goctx \<Rightarrow> iface \<Rightarrow> iface \<Rightarrow> goctx" where
  "withValue ctx k v = ctx(k := v)"

text \<open>
  A message carries its context, its type, the lookup map (which may be nil) and the channel for the
  reply: none, one somebody waits on, or one that its sender has closed after a timeout.
\<close>

datatype replyChan = NilChan | LiveChan | ClosedChan

record message =
  msgCtx :: goctx
  msgType :: iface
  msgsLookup :: "(iface \<Rightarrow> iface) option"
  errCh :: replyChan

section \<open>Change objects\<close>

record 'a changeObject =
  prevObj :: 'a
  currObj :: 'a

datatype change =
    StateChangeObject "state changeObject"
  | StageChangeObject "stage changeObject"
  | ComponentChangeObject "snapshot changeObject"

datatype changeValue = StateV state | StageV stage | ComponentV snapshot

fun GetPreviousObject :: "change \<Rightarrow> changeValue" where
  "GetPreviousObject (StateChangeObject c) = StateV (prevObj c)"
| "GetPreviousObject (StageChangeObject c) = StageV (prevObj c)"
| "GetPreviousObject (ComponentChangeObject c) = ComponentV (prevObj c)"

fun GetCurrentObject :: "change \<Rightarrow> changeValue" where
  "GetCurrentObject (StateChangeObject c) = StateV (currObj c)"
| "GetCurrentObject (StageChangeObject c) = StageV (currObj c)"
| "GetCurrentObject (ComponentChangeObject c) = ComponentV (currObj c)"

definition stageChange :: "stage \<Rightarrow> stage \<Rightarrow> change" where
  "stageChange s t = StageChangeObject \<lparr>prevObj = s, currObj = t\<rparr>"

definition stateChange :: "state \<Rightarrow> state \<Rightarrow> change" where
  "stateChange s t = StateChangeObject \<lparr>prevObj = s, currObj = t\<rparr>"

text \<open>
  \<^verbatim>\<open>String\<close> of a change object: \<^verbatim>\<open>%+v\<close> on its exported form, with the \<^verbatim>\<open>String\<close> methods of what it
  holds; that of a component is its name. \<open>typeText\<close> is what \<^verbatim>\<open>%T\<close> prints for a component's type.
\<close>

definition formatChange :: "string \<Rightarrow> string \<Rightarrow> string \<Rightarrow> string" where
  "formatChange ty previous current =
     ''{Type:'' @ ty @ '' Previous:{Value:'' @ previous @ ''} Current:{Value:'' @ current @ ''}}''"

fun changeString :: "(gotype \<Rightarrow> string) \<Rightarrow> change \<Rightarrow> string" where
  "changeString typeText (StateChangeObject c) =
     formatChange ''component.state'' (stateIntString (stateCode (prevObj c))) (stateIntString (stateCode (currObj c)))"
| "changeString typeText (StageChangeObject c) =
     formatChange ''component.stage'' (stageIntString (stageCode (prevObj c))) (stageIntString (stageCode (currObj c)))"
| "changeString typeText (ComponentChangeObject c) =
     formatChange (typeText (sType (currObj c))) (sName (prevObj c)) (sName (currObj c))"

section \<open>Callbacks and message handlers\<close>

text \<open>
  The callback the framework installs itself (\<^verbatim>\<open>stateChangeCallbacker\<close>) and callbacks of the
  application, which are identified by a number; a message handler may be the framework's default one.
  What an application's callback does to the component it is registered with is a list of calls of the
  component's methods \<^verbatim>\<open>RemoveCallback\<close>, \<^verbatim>\<open>Unsubscribe\<close>, \<^verbatim>\<open>Callback\<close>, \<^verbatim>\<open>Subscribe\<close> and
  \<^verbatim>\<open>SetSyncMessageHandler\<close> (the handler may be nil), and of writes to the fields the application
  adds. That a callback sends a message to its own component, calls \<^verbatim>\<open>SetAsNonRestEntity\<close>, or overwrites
  the exported fields \<^verbatim>\<open>Name\<close>, \<^verbatim>\<open>Stage\<close>, \<^verbatim>\<open>State\<close> and \<^verbatim>\<open>Etag\<close> of the framework, is left out.
\<close>

datatype callback = StateChangeCallback | UserCallback nat

datatype handler = DefaultHandler | UserHandler nat

datatype cbCommand =
    RemoveCb nat | UnsubscribeCb string | CallbackCb bool nat | SubscribeCb string chan
  | SetHandlerCb iface "handler option" | SetFieldsCb "gofield list"

text \<open>What a method of the application does: it leaves new field values and an error, or panics.\<close>

datatype hookResult = HookRet "gofield list" "kerror option" | HookPanic "gofield list"

section \<open>The environment\<close>

text \<open>The server \<^verbatim>\<open>HttpServer.Start\<close> sets up; its durations are nanoseconds in 64 bits.\<close>

record httpServerConfig =
  Addr :: string
  WriteTimeout :: "64 word"
  ReadTimeout :: "64 word"
  IdleTimeout :: "64 word"

text \<open>
  Code outside the repository, as functions: hashstructure (of the exported view of a component),
  uuid (the n-th identifier drawn for a component), deepcopy (on the fields), the methods and
  callbacks of the application's component types (by the name of the type), the listener of the HTTP
  server (what it returns, when it does), AES-GCM sealing and opening, the random nonces, key derivation, the process environment and the formatted clock.
\<close>

record env =
  hashFn :: "gotype \<times> string \<times> stage \<times> state \<times> gofield list \<Rightarrow> 64 word option"
  uuidAt :: "cid \<Rightarrow> nat \<Rightarrow> string"
  copyFields :: "gofield list \<Rightarrow> gofield list"
  userCallback :: "nat \<Rightarrow> nat \<Rightarrow> change \<Rightarrow> cbCommand list"
  userHandler :: "nat \<Rightarrow> iface \<Rightarrow> gofield list \<Rightarrow> hookResult"
  defaultHandler :: "string \<Rightarrow> iface \<Rightarrow> gofield list \<Rightarrow> hookResult"
  initHook :: "string \<Rightarrow> gofield list \<Rightarrow> hookResult"
  postInitHook :: "string \<Rightarrow> gofield list \<Rightarrow> hookResult"
  preStartHook :: "string \<Rightarrow> gofield list \<Rightarrow> hookResult"
  startHook :: "string \<Rightarrow> gofield list \<Rightarrow> hookResult"
  stopHook :: "string \<Rightarrow> gofield list \<Rightarrow> hookResult"
  listenAndServe :: "httpServerConfig \<Rightarrow> kerror option"
  restartHook :: "string \<Rightarrow> gofield list \<Rightarrow> gofield list \<times> bool \<times> int"
  sealFn :: "string \<Rightarrow> string \<Rightarrow> string \<Rightarrow> string"
  openFn :: "string \<Rightarrow> string \<Rightarrow> string \<Rightarrow> string option"
  nonceAt :: "nat \<Rightarrow> string"
  deriveKey :: "string \<Rightarrow> string"
  getenv :: "string \<Rightarrow> string"
  nowText :: string

text \<open>
  An environment for examples: methods succeed and do nothing, the hash is computed from the stage and
  the integer fields, AES is the identity.
\<close>

fun fieldSum :: "gofield list \<Rightarrow> int" where
  "fieldSum [] = 0"
| "fieldSum (Field name ty tag exported v # fs) =
     (case v of VInt b i \<Rightarrow> i | _ \<Rightarrow> 0) + fieldSum fs"
| "fieldSum (StructField name ty exported embedded gs # fs) = fieldSum fs"

definition plainEnv :: env where
  "plainEnv =
     \<lparr>hashFn = (\<lambda>(t, n, s, st, fs). Some (word_of_int (1 + stageCode s + 16 * fieldSum fs))),
      uuidAt = (\<lambda>x n. ''id'' @ replicate n (CHR ''i'')),
      copyFields = (\<lambda>fs. fs),
      userCallback = (\<lambda>k i ch. []),
      userHandler = (\<lambda>k msg fs. HookRet fs None),
      defaultHandler = (\<lambda>ty msg fs. HookRet fs None),
      initHook = (\<lambda>ty fs. HookRet fs None), postInitHook = (\<lambda>ty fs. HookRet fs None),
      preStartHook = (\<lambda>ty fs. HookRet fs None), startHook = (\<lambda>ty fs. HookRet fs None),
      stopHook = (\<lambda>ty fs. HookRet fs None), listenAndServe = (\<lambda>cfg. None), restartHook = (\<lambda>ty fs. (fs, False, 0)),
      sealFn = (\<lambda>key nonce p. p), openFn = (\<lambda>key nonce c. Some c),
      nonceAt = (\<lambda>n. replicate 12 (CHR ''n'')), deriveKey = (\<lambda>s. replicate 16 (CHR ''k'')),
      getenv = (\<lambda>s. ''''), nowText = ''now''\<rparr>"

lemma plainEnv_sel [simp]:
  "hashFn plainEnv (t, n, s, st, fs) = Some (word_of_int (1 + stageCode s + 16 * fieldSum fs))"
  "uuidAt plainEnv x m = ''id'' @ replicate m (CHR ''i'')" "copyFields plainEnv fs = fs"
  "userCallback plainEnv k i ch = []" "userHandler plainEnv k msg fs = HookRet fs None"
  "defaultHandler plainEnv ty msg fs = HookRet fs None" "initHook plainEnv ty fs = HookRet fs None"
  "postInitHook plainEnv ty fs = HookRet fs None" "preStartHook plainEnv ty fs = HookRet fs None"
  "startHook plainEnv ty fs = HookRet fs None" "listenAndServe plainEnv cfg = None" "stopHook plainEnv ty fs = HookRet fs None"
  "restartHook plainEnv ty fs = (fs, False, 0)" "sealFn plainEnv key nonce p = p"
  "openFn plainEnv key nonce p = Some p" "nonceAt plainEnv m = replicate 12 (CHR ''n'')"
  "deriveKey plainEnv p = replicate 16 (CHR ''k'')" "getenv plainEnv p = ''''" "nowText plainEnv = ''now''"
  by (simp_all add: plainEnv_def)

end
