(* ===== verification/Simple_Component.thy ===== *)
theory Simple_Component
  imports Kinesis_Types
begin

text \<open>
  \<^verbatim>\<open>SimpleComponent\<close> of component.go: the fields every component carries and the methods that do
  not reach other components. A component is a record; a method is a function from the record to the
  new record and the error it returns. \<open>trace\<close> is a ghost field: the calls of callbacks and the sends
  to subscribers, in the order the code makes them.
\<close>

section \<open>State\<close>

datatype event =
    CallbackRun nat callback change   \<comment> \<open>index passed, callback, notification\<close>
  | SentTo string chan change         \<comment> \<open>subscriber, its channel, notification\<close>

record cComponent =
  cName :: string
  ccomp :: "cid option"

text \<open>
  The fields \<^verbatim>\<open>Container\<close> adds. A Go map that was never made is \<open>None\<close>: it can be read and is
  empty, writing to it panics. A HTTP handler is a method of a component.
\<close>

record containerPart =
  components :: "string list"
  compActivationQueue :: bool
  cComponents :: "(string \<rightharpoonup> cComponent) option"
  cHandlers :: "(string \<rightharpoonup> cid \<times> string) option"
  persistence :: "cid option"

record persistencePart =
  dbHandle :: "(string \<times> bool) option"
  symmetricEncryptKey :: "string option"

record component =
  self :: cid
  gotype :: gotype
  httpMethods :: "string list"
  Etag :: string
  hash :: "64 word"
  persistanceCache :: "string option"
  componentCache :: "snapshot option"
  Name :: string
  uri :: string
  isNonRestEntity :: bool
  container :: "cid option"
  Stage :: stage
  State :: state
  mmux :: bool
  mmuxBuffer :: "message option"
  messageHandlers :: "iface \<rightharpoonup> handler"
  subscribers :: "(string \<times> chan) list"
  callbacks :: "callback list"
  userFields :: "gofield list"
  drawn :: nat
  trace :: "event list"
  asContainer :: "containerPart option"
  asPersistence :: "persistencePart option"

text \<open>What \<^verbatim>\<open>new\<close> gives, with the name set: \<open>extra\<close> are the application's own fields.\<close>

definition emptyPart :: containerPart where
  "emptyPart = \<lparr>components = [], compActivationQueue = False, cComponents = None, cHandlers = None,
                persistence = None\<rparr>"

definition newComponent :: "cid \<Rightarrow> gotype \<Rightarrow> string \<Rightarrow> string list \<Rightarrow> gofield list \<Rightarrow> component" where
  "newComponent x ty name methods extra =
     \<lparr>self = x, gotype = ty, httpMethods = methods, Etag = '''', hash = 0, persistanceCache = None,
      componentCache = None, Name = name, uri = '''', isNonRestEntity = False, container = None,
      Stage = Submitted, State = Inactive, mmux = False, mmuxBuffer = None, messageHandlers = Map.empty,
      subscribers = [], callbacks = [], userFields = extra, drawn = 0, trace = [],
      asContainer = (case ty of ContainerT \<Rightarrow> Some emptyPart | AppT \<Rightarrow> Some emptyPart
                     | UserContainerT _ \<Rightarrow> Some emptyPart | _ \<Rightarrow> None),
      asPersistence = (if ty = PersistenceT then Some \<lparr>dbHandle = None, symmetricEncryptKey = None\<rparr> else None)\<rparr>"

section \<open>ETag and copies\<close>

text \<open>
  \<^verbatim>\<open>UpdateComponentEtag\<close>: a fresh identifier when, and only when, the hash of the exported view has
  changed. The view leaves the ETag out (its tag is \<^verbatim>\<open>hash:"ignore"\<close>).
\<close>

definition hashView :: "component \<Rightarrow> gotype \<times> string \<times> stage \<times> state \<times> gofield list" where
  "hashView d = (gotype d, Name d, Stage d, State d, userFields d)"

definition UpdateComponentEtag :: "env \<Rightarrow> component \<Rightarrow> component \<times> kerror option" where
  "UpdateComponentEtag E d =
     (case hashFn E (hashView d) of
        None \<Rightarrow> (d, Some HashFailure)
      | Some newHash \<Rightarrow>
          if newHash \<noteq> hash d
          then (d\<lparr>hash := newHash, Etag := uuidAt E (self d) (drawn d), drawn := Suc (drawn d)\<rparr>, None)
          else (d, None))"

definition snapshotOf :: "env \<Rightarrow> component \<Rightarrow> snapshot" where
  "snapshotOf E d =
     \<lparr>sType = gotype d, sName = Name d, sEtag = Etag d, sStage = Stage d, sState = State d,
      sFields = copyFields E (userFields d)\<rparr>"

definition createCopy :: "env \<Rightarrow> component \<Rightarrow> component \<times> snapshot" where
  "createCopy E d = (let d' = fst (UpdateComponentEtag E d) in (d', snapshotOf E d'))"

section \<open>Callbacks and subscribers\<close>

definition Callback :: "bool \<Rightarrow> callback \<Rightarrow> component \<Rightarrow> component \<times> kerror option" where
  "Callback isHead cb d =
     (if Started < Stage d then (d, Some (CallbackNotAllowed (Name d) (Stage d)))
      else if isHead then (d\<lparr>callbacks := cb # callbacks d\<rparr>, None)
      else (d\<lparr>callbacks := callbacks d @ [cb]\<rparr>, None))"

text \<open>\<^verbatim>\<open>RemoveCallback\<close> panics on a negative index: only the upper bound is checked.\<close>

definition removeCallbackAt :: "nat \<Rightarrow> component \<Rightarrow> component \<times> kerror option" where
  "removeCallbackAt i d =
     (if length (callbacks d) \<le> i then (d, Some (NoCallbackAt (int i) (Name d)))
      else (d\<lparr>callbacks := removeAt i (callbacks d)\<rparr>, None))"

definition RemoveCallback :: "int \<Rightarrow> component \<Rightarrow> (component \<times> kerror option) outcome" where
  "RemoveCallback cbIndx d =
     (if int (length (callbacks d)) \<le> cbIndx then Ret (d, Some (NoCallbackAt cbIndx (Name d)))
      else if cbIndx < 0 then Panics
      else Ret (removeCallbackAt (nat cbIndx) d))"

definition Subscribe :: "string \<Rightarrow> chan \<Rightarrow> component \<Rightarrow> component \<times> kerror option" where
  "Subscribe subscriber ch d =
     (case map_of (subscribers d) subscriber of
        Some _ \<Rightarrow> (d, Some (AlreadySubscribed subscriber (Name d)))
      | None \<Rightarrow> (d\<lparr>subscribers := subscribers d @ [(subscriber, ch)]\<rparr>, None))"

definition Unsubscribe :: "string \<Rightarrow> component \<Rightarrow> component \<times> kerror option" where
  "Unsubscribe subscriber d =
     (case map_of (subscribers d) subscriber of
        None \<Rightarrow> (d, Some (NotSubscribed subscriber (Name d)))
      | Some _ \<Rightarrow> (d\<lparr>subscribers := filter (\<lambda>(k, v). k \<noteq> subscriber) (subscribers d)\<rparr>, None))"

text \<open>
  \<^verbatim>\<open>stateChangeCallbacker\<close> of container.go, the callback the framework registers on every component:
  a new ETag when the state changed, and it removes itself, by the index it was called with, when the
  component is stopping.
\<close>

definition stateChangeCallbacker :: "env \<Rightarrow> nat \<Rightarrow> change \<Rightarrow> component \<Rightarrow> component" where
  "stateChangeCallbacker E cbIndx ch d =
     (case ch of
        StateChangeObject c \<Rightarrow> fst (UpdateComponentEtag E d)
      | StageChangeObject c \<Rightarrow> if currObj c = Stopping then fst (removeCallbackAt cbIndx d) else d
      | ComponentChangeObject c \<Rightarrow> d)"

text \<open>
  Message handlers: the map is made by the first call, and a lookup does not tell a nil handler from
  one that is not there.
\<close>

definition SetSyncMessageHandler :: "iface \<Rightarrow> handler option \<Rightarrow> component \<Rightarrow> component" where
  "SetSyncMessageHandler mtype h d = d\<lparr>messageHandlers := (messageHandlers d)(mtype := h)\<rparr>"

definition getSyncMessageHandler :: "component \<Rightarrow> iface \<Rightarrow> handler option" where
  "getSyncMessageHandler d mtype = messageHandlers d mtype"

text \<open>The commands of a callback; the errors that these methods return are the callback's own affair.\<close>

fun runCommand :: "component \<Rightarrow> cbCommand \<Rightarrow> component" where
  "runCommand d (RemoveCb i) = fst (removeCallbackAt i d)"
| "runCommand d (UnsubscribeCb s) = fst (Unsubscribe s d)"
| "runCommand d (CallbackCb isHead k) = fst (Callback isHead (UserCallback k) d)"
| "runCommand d (SubscribeCb s ch) = fst (Subscribe s ch d)"
| "runCommand d (SetHandlerCb mtype h) = SetSyncMessageHandler mtype h d"
| "runCommand d (SetFieldsCb fs) = d\<lparr>userFields := fs\<rparr>"

fun runCallback :: "env \<Rightarrow> callback \<Rightarrow> nat \<Rightarrow> change \<Rightarrow> component \<Rightarrow> component" where
  "runCallback E StateChangeCallback i ch d = stateChangeCallbacker E i ch d"
| "runCallback E (UserCallback k) i ch d = foldl runCommand d (userCallback E k i ch)"

text \<open>
  \<^verbatim>\<open>invokeCallbacks\<close> runs a copy of the callback slice, so a callback that removes itself does not
  disturb the iteration; every callback gets its index in that copy.
\<close>

fun invokeFrom :: "env \<Rightarrow> change \<Rightarrow> nat \<Rightarrow> callback list \<Rightarrow> component \<Rightarrow> component" where
  "invokeFrom E ch i [] d = d"
| "invokeFrom E ch i (cb # cbs) d =
     invokeFrom E ch (Suc i) cbs
       (runCallback E cb i ch (d\<lparr>trace := trace d @ [CallbackRun i cb ch]\<rparr>))"

definition invokeCallbacks :: "env \<Rightarrow> change \<Rightarrow> component \<Rightarrow> component" where
  "invokeCallbacks E ch d = invokeFrom E ch 0 (callbacks d) d"

definition notifySubscribers :: "change \<Rightarrow> component \<Rightarrow> component" where
  "notifySubscribers ch d =
     d\<lparr>trace := trace d @ map (\<lambda>(s, c). SentTo s c ch) (subscribers d)\<rparr>"

section \<open>Stage and state\<close>

definition setState :: "env \<Rightarrow> state \<Rightarrow> component \<Rightarrow> component" where
  "setState E s d =
     (let prevState = State d; d1 = d\<lparr>State := s\<rparr>
      in if State d1 \<noteq> prevState
         then let ch = stateChange prevState s
              in notifySubscribers ch (invokeCallbacks E ch d1)
         else d1)"

definition setStage :: "env \<Rightarrow> stage \<Rightarrow> component \<Rightarrow> component" where
  "setStage E s d =
     (let ch = stageChange (Stage d) s;
          d1 = d\<lparr>Stage := s\<rparr>;
          d2 = notifySubscribers ch (invokeCallbacks E ch d1)
      in if Initialized \<le> Stage d2 \<and> Stage d2 \<le> Started
         then setState E Active d2 else setState E Inactive d2)"

section \<open>Creation and removal of the message multiplexer\<close>

text \<open>
  \<open>mmux\<close> says whether the channel is there; \<open>mmuxBuffer\<close> is the one message that fits into it, from
  the send until the multiplexer's goroutine takes it. Closing the channel leaves the buffered message
  to that goroutine, which has the channel still.
\<close>

definition preInit :: "component \<Rightarrow> component" where
  "preInit d = d\<lparr>mmux := True, mmuxBuffer := None\<rparr>"

text \<open>
  The loops of \<^verbatim>\<open>tearDown\<close>: \<^verbatim>\<open>range d.callbacks\<close> fixes the number of rounds before the first
  removal; the subscribers are removed by name.
\<close>

fun removeCallbacks :: "nat list \<Rightarrow> component \<Rightarrow> component" where
  "removeCallbacks [] d = d"
| "removeCallbacks (i # is) d = removeCallbacks is (fst (removeCallbackAt i d))"

fun unsubscribeAll :: "string list \<Rightarrow> component \<Rightarrow> component" where
  "unsubscribeAll [] d = d"
| "unsubscribeAll (s # ss) d = unsubscribeAll ss (fst (Unsubscribe s d))"

definition tearDown :: "component \<Rightarrow> component" where
  "tearDown d =
     (let d1 = d\<lparr>mmux := False\<rparr>;
          d2 = removeCallbacks [0..<length (callbacks d1)] d1
      in unsubscribeAll (map fst (subscribers d2)) d2)"

section \<open>What callbacks and notifications leave alone\<close>

text \<open>
  \<open>core d\<close> blanks the fields that callbacks and notifications may change: the registered callbacks
  and subscribers, the message handlers, the application's fields, hash and ETag, and the ghost trace. Everything else is
  the same whenever two cores agree.
\<close>

definition core :: "component \<Rightarrow> component" where
  "core d = d\<lparr>callbacks := [], subscribers := [], messageHandlers := Map.empty, userFields := [], hash := 0, Etag := [],
              drawn := 0, trace := []\<rparr>"

lemma core_sel [simp]:
  "self (core d) = self d" "gotype (core d) = gotype d" "httpMethods (core d) = httpMethods d"
  "persistanceCache (core d) = persistanceCache d" "componentCache (core d) = componentCache d"
  "Name (core d) = Name d" "uri (core d) = uri d" "isNonRestEntity (core d) = isNonRestEntity d"
  "container (core d) = container d" "Stage (core d) = Stage d" "State (core d) = State d"
  "mmux (core d) = mmux d" "mmuxBuffer (core d) = mmuxBuffer d"
  "asContainer (core d) = asContainer d" "asPersistence (core d) = asPersistence d"
  by (simp_all add: core_def)

lemma core_upd [simp]:
  "core (d\<lparr>callbacks := cs\<rparr>) = core d" "core (d\<lparr>subscribers := ss\<rparr>) = core d"
  "core (d\<lparr>userFields := fs\<rparr>) = core d" "core (d\<lparr>trace := tr\<rparr>) = core d"
  "core (d\<lparr>hash := h, Etag := e, drawn := n\<rparr>) = core d"
  "core (d\<lparr>Stage := s\<rparr>) = (core d)\<lparr>Stage := s\<rparr>" "core (d\<lparr>State := t\<rparr>) = (core d)\<lparr>State := t\<rparr>"
  "core (d\<lparr>mmux := b\<rparr>) = (core d)\<lparr>mmux := b\<rparr>" "core (d\<lparr>mmuxBuffer := m\<rparr>) = (core d)\<lparr>mmuxBuffer := m\<rparr>"
  "core (d\<lparr>messageHandlers := hs\<rparr>) = core d"
  by (simp_all add: core_def)

text \<open>The fields of a component whose core is known.\<close>

lemma core_eqD:
  assumes "core d = core d'"
  shows "self d = self d'" "gotype d = gotype d'" "httpMethods d = httpMethods d'"
    "persistanceCache d = persistanceCache d'" "componentCache d = componentCache d'"
    "Name d = Name d'" "uri d = uri d'" "isNonRestEntity d = isNonRestEntity d'"
    "container d = container d'" "Stage d = Stage d'" "State d = State d'"
    "mmux d = mmux d'" "mmuxBuffer d = mmuxBuffer d'"
    "asContainer d = asContainer d'" "asPersistence d = asPersistence d'"
  using core_sel [of d] core_sel [of d'] unfolding assms by simp_all

lemma core_UpdateComponentEtag [simp]: "core (fst (UpdateComponentEtag E d)) = core d"
  by (simp add: UpdateComponentEtag_def split: option.split)

lemma core_removeCallbackAt [simp]: "core (fst (removeCallbackAt i d)) = core d"
  by (simp add: removeCallbackAt_def)

lemma core_Unsubscribe [simp]: "core (fst (Unsubscribe s d)) = core d"
  by (simp add: Unsubscribe_def split: option.split)

lemma core_Subscribe [simp]: "core (fst (Subscribe s c d)) = core d"
  by (simp add: Subscribe_def split: option.split)

lemma core_Callback [simp]: "core (fst (Callback b c d)) = core d"
  by (simp add: Callback_def)

lemma core_SetSyncMessageHandler [simp]: "core (SetSyncMessageHandler m h d) = core d"
  by (simp add: SetSyncMessageHandler_def)

lemma core_runCommand [simp]: "core (runCommand d c) = core d"
  by (cases c) simp_all

lemma core_foldl_runCommand [simp]: "core (foldl runCommand d cs) = core d"
  by (induction cs arbitrary: d) simp_all

lemma core_runCallback [simp]: "core (runCallback E cb i ch d) = core d"
  by (cases cb) (simp_all add: stateChangeCallbacker_def split: change.split)

lemma core_invokeFrom [simp]: "core (invokeFrom E ch i cbs d) = core d"
  by (induction cbs arbitrary: i d) simp_all

lemma core_invokeCallbacks [simp]: "core (invokeCallbacks E ch d) = core d"
  by (simp add: invokeCallbacks_def)

lemma core_notifySubscribers [simp]: "core (notifySubscribers ch d) = core d"
  by (simp add: notifySubscribers_def)

lemma core_setState [simp]: "core (setState E s d) = (core d)\<lparr>State := s\<rparr>"
  by (simp add: setState_def Let_def)

definition running :: "stage \<Rightarrow> bool" where
  "running s \<longleftrightarrow> Initialized \<le> s \<and> s \<le> Started"

definition stateOf :: "stage \<Rightarrow> state" where
  "stateOf s = (if running s then Active else Inactive)"

lemma core_setStage [simp]: "core (setStage E s d) = (core d)\<lparr>Stage := s, State := stateOf s\<rparr>"
proof -
  let ?d2 = "notifySubscribers (stageChange (Stage d) s)
      (invokeCallbacks E (stageChange (Stage d) s) (d\<lparr>Stage := s\<rparr>))"
  have c: "core ?d2 = core (d\<lparr>Stage := s\<rparr>)" by simp
  have "Stage ?d2 = s" using core_eqD(10) [OF c] by simp
  then show ?thesis by (simp add: setStage_def Let_def stateOf_def running_def)
qed

lemma core_removeCallbacks [simp]: "core (removeCallbacks is d) = core d"
  by (induction "is" arbitrary: d) simp_all

lemma core_unsubscribeAll [simp]: "core (unsubscribeAll ss d) = core d"
  by (induction ss arbitrary: d) simp_all

lemma core_tearDown [simp]: "core (tearDown d) = (core d)\<lparr>mmux := False\<rparr>"
  by (simp add: tearDown_def Let_def)

lemma core_createCopy [simp]: "core (fst (createCopy E d)) = core d"
  by (simp add: createCopy_def Let_def)

lemma setStage_fields [simp]:
  "Stage (setStage E s d) = s" "State (setStage E s d) = stateOf s"
  "self (setStage E s d) = self d" "gotype (setStage E s d) = gotype d"
  "httpMethods (setStage E s d) = httpMethods d" "Name (setStage E s d) = Name d"
  "uri (setStage E s d) = uri d" "isNonRestEntity (setStage E s d) = isNonRestEntity d"
  "container (setStage E s d) = container d" "mmux (setStage E s d) = mmux d"
  "mmuxBuffer (setStage E s d) = mmuxBuffer d"
  "asContainer (setStage E s d) = asContainer d" "asPersistence (setStage E s d) = asPersistence d"
  "persistanceCache (setStage E s d) = persistanceCache d"
  "componentCache (setStage E s d) = componentCache d"
proof -
  have c: "core (setStage E s d) = core (d\<lparr>Stage := s, State := stateOf s\<rparr>)" by simp
  show "Stage (setStage E s d) = s" "State (setStage E s d) = stateOf s"
    "self (setStage E s d) = self d" "gotype (setStage E s d) = gotype d"
    "httpMethods (setStage E s d) = httpMethods d" "Name (setStage E s d) = Name d"
    "uri (setStage E s d) = uri d" "isNonRestEntity (setStage E s d) = isNonRestEntity d"
    "container (setStage E s d) = container d" "mmux (setStage E s d) = mmux d"
    "mmuxBuffer (setStage E s d) = mmuxBuffer d"
    "asContainer (setStage E s d) = asContainer d" "asPersistence (setStage E s d) = asPersistence d"
    "persistanceCache (setStage E s d) = persistanceCache d"
    "componentCache (setStage E s d) = componentCache d"
    using core_eqD [OF c] by simp_all
qed

section \<open>Subscribers\<close>

lemma subscriber_table:
  "map_of (subscribers (fst (Subscribe k c d))) =
     (if map_of (subscribers d) k = None then (map_of (subscribers d))(k \<mapsto> c) else map_of (subscribers d))"
  "map_of (subscribers (fst (Unsubscribe k d))) = (map_of (subscribers d))(k := None)"
  by (auto simp: Subscribe_def Unsubscribe_def map_of_filter_neq map_add_def fun_eq_iff
      split: option.split)

interpretation subs: name_registry "\<lambda>d. map_of (subscribers d)" Subscribe Unsubscribe
  by unfold_locales
    (auto simp: subscriber_table, auto simp: Subscribe_def Unsubscribe_def split: option.splits)

section \<open>Delivery of notifications\<close>

text \<open>One round of notification: the callbacks in slice order, then the subscribers.\<close>

definition callbackEvents :: "nat \<Rightarrow> callback list \<Rightarrow> change \<Rightarrow> event list" where
  "callbackEvents i cbs ch = map (\<lambda>(j, cb). CallbackRun j cb ch) (enumerate i cbs)"

definition sendEvents :: "(string \<times> chan) list \<Rightarrow> change \<Rightarrow> event list" where
  "sendEvents subs ch = map (\<lambda>(s, c). SentTo s c ch) subs"

lemma trace_UpdateComponentEtag [simp]: "trace (fst (UpdateComponentEtag E d)) = trace d"
  by (simp add: UpdateComponentEtag_def split: option.split)

lemma trace_removeCallbackAt [simp]: "trace (fst (removeCallbackAt i d)) = trace d"
  by (simp add: removeCallbackAt_def)

lemma trace_runCommand [simp]: "trace (runCommand d c) = trace d"
  by (cases c)
    (simp_all add: Unsubscribe_def Subscribe_def Callback_def SetSyncMessageHandler_def split: option.split)

lemma trace_foldl_runCommand [simp]: "trace (foldl runCommand d cs) = trace d"
  by (induction cs arbitrary: d) simp_all

lemma trace_runCallback [simp]: "trace (runCallback E cb i ch d) = trace d"
  by (cases cb) (simp_all add: stateChangeCallbacker_def split: change.split)

lemma trace_invokeFrom: "trace (invokeFrom E ch i cbs d) = trace d @ callbackEvents i cbs ch"
  by (induction cbs arbitrary: i d) (simp_all add: callbackEvents_def)

lemma trace_invokeCallbacks [simp]:
  "trace (invokeCallbacks E ch d) = trace d @ callbackEvents 0 (callbacks d) ch"
  by (simp add: invokeCallbacks_def trace_invokeFrom)

lemma notifySubscribers_sel [simp]:
  "trace (notifySubscribers ch d) = trace d @ sendEvents (subscribers d) ch"
  "callbacks (notifySubscribers ch d) = callbacks d"
  "subscribers (notifySubscribers ch d) = subscribers d"
  "State (notifySubscribers ch d) = State d" "Stage (notifySubscribers ch d) = Stage d"
  "userFields (notifySubscribers ch d) = userFields d"
  by (simp_all add: notifySubscribers_def sendEvents_def)

lemma State_invokeCallbacks [simp]: "State (invokeCallbacks E ch d) = State d"
  using core_eqD(11) [OF core_invokeCallbacks [of E ch d]] by simp

lemma Stage_invokeCallbacks [simp]: "Stage (invokeCallbacks E ch d) = Stage d"
  using core_eqD(10) [OF core_invokeCallbacks [of E ch d]] by simp

lemma setStage_unfold:
  "setStage E s d =
     (let ch = stageChange (Stage d) s
      in setState E (stateOf s) (notifySubscribers ch (invokeCallbacks E ch (d\<lparr>Stage := s\<rparr>))))"
  by (simp add: setStage_def Let_def stateOf_def running_def)

section \<open>Callbacks that remove themselves\<close>

text \<open>A callback that answers a notification by removing the index it was called with.\<close>

definition removesItself :: "env \<Rightarrow> change \<Rightarrow> callback \<Rightarrow> bool" where
  "removesItself E ch cb \<longleftrightarrow>
     (\<forall>i d. callbacks (runCallback E cb i ch d) =
            (if i < length (callbacks d) then removeAt i (callbacks d) else callbacks d))"

definition keepsCallbacks :: "env \<Rightarrow> change \<Rightarrow> callback \<Rightarrow> bool" where
  "keepsCallbacks E ch cb \<longleftrightarrow> (\<forall>i d. callbacks (runCallback E cb i ch d) = callbacks d)"

lemma callbacks_removeCallbackAt:
  "callbacks (fst (removeCallbackAt i d)) =
     (if i < length (callbacks d) then removeAt i (callbacks d) else callbacks d)"
  by (simp add: removeCallbackAt_def)

lemma framework_callback_removes_itself: 
  "removesItself E (stageChange s Stopping) StateChangeCallback"
  by (simp add: removesItself_def stateChangeCallbacker_def stageChange_def callbacks_removeCallbackAt)

lemma callbacks_UpdateComponentEtag [simp]: "callbacks (fst (UpdateComponentEtag E d)) = callbacks d"
  by (simp add: UpdateComponentEtag_def split: option.split)

lemma framework_callback_keeps: 
  "t \<noteq> Stopping \<Longrightarrow> keepsCallbacks E (stageChange s t) StateChangeCallback"
  "keepsCallbacks E (stateChange a b) StateChangeCallback"
  by (simp_all add: keepsCallbacks_def stateChangeCallbacker_def stageChange_def stateChange_def)

lemma callbacks_invokeFrom_removers:
  "\<forall>cb \<in> set cbs. removesItself E ch cb \<Longrightarrow>
     callbacks (invokeFrom E ch i cbs d) = removeEach [i..<i + length cbs] (callbacks d)"
proof (induction cbs arbitrary: i d)
  case (Cons cb cbs)
  have "[i..<i + length (cb # cbs)] = i # [Suc i..<Suc i + length cbs]"
    by (subst upt_conv_Cons) auto
  then show ?case
    using Cons by (simp add: removesItself_def)
qed simp

lemma callbacks_invokeFrom_keep:
  "\<forall>cb \<in> set cbs. keepsCallbacks E ch cb \<Longrightarrow> callbacks (invokeFrom E ch i cbs d) = callbacks d"
  by (induction cbs arbitrary: i d) (simp_all add: keepsCallbacks_def)

lemma invokeFrom_append: 
  "invokeFrom E ch i (xs @ ys) d = invokeFrom E ch (i + length xs) ys (invokeFrom E ch i xs d)"
  by (induction xs arbitrary: i d) simp_all

lemma callbacks_removeCallbacks: "callbacks (removeCallbacks is d) = removeEach is (callbacks d)"
  by (induction "is" arbitrary: d) (simp_all add: callbacks_removeCallbackAt)

lemma callbacks_Unsubscribe [simp]: "callbacks (fst (Unsubscribe s d)) = callbacks d"
  by (simp add: Unsubscribe_def split: option.split)

lemma callbacks_unsubscribeAll [simp]: "callbacks (unsubscribeAll ss d) = callbacks d"
  by (induction ss arbitrary: d) simp_all

lemma subscribers_unsubscribeAll:
  "map_of (subscribers (unsubscribeAll ss d)) = (map_of (subscribers d)) |` (- set ss)"
  by (induction ss arbitrary: d)
    (auto simp: subscriber_table restrict_map_def fun_eq_iff)

lemma map_of_empty_iff: "map_of xs = Map.empty \<longleftrightarrow> xs = []"
  by (cases xs) (auto simp: fun_eq_iff)

lemma subscribers_tearDown: "subscribers (tearDown d) = []"
proof -
  have "map_of (subscribers (tearDown d)) k = None" for k
  proof (cases "k \<in> set (map fst (subscribers (removeCallbacks [0..<length (callbacks d)] (d\<lparr>mmux := False\<rparr>))))")
    case False
    then show ?thesis
      by (simp add: tearDown_def Let_def subscribers_unsubscribeAll restrict_map_def map_of_eq_None_iff)
  qed (simp add: tearDown_def Let_def subscribers_unsubscribeAll)
  then show ?thesis using map_of_empty_iff by blast
qed

section \<open>Properties\<close>

lemma newComponent_sel [simp]:
  "self (newComponent x ty n ms fs) = x" "gotype (newComponent x ty n ms fs) = ty"
  "httpMethods (newComponent x ty n ms fs) = ms" "Etag (newComponent x ty n ms fs) = ''''"
  "hash (newComponent x ty n ms fs) = 0" "persistanceCache (newComponent x ty n ms fs) = None"
  "componentCache (newComponent x ty n ms fs) = None" "Name (newComponent x ty n ms fs) = n"
  "uri (newComponent x ty n ms fs) = ''''" "isNonRestEntity (newComponent x ty n ms fs) = False"
  "container (newComponent x ty n ms fs) = None" "Stage (newComponent x ty n ms fs) = Submitted"
  "State (newComponent x ty n ms fs) = Inactive" "mmux (newComponent x ty n ms fs) = False"
  "mmuxBuffer (newComponent x ty n ms fs) = None"
  "messageHandlers (newComponent x ty n ms fs) = Map.empty" "subscribers (newComponent x ty n ms fs) = []"
  "callbacks (newComponent x ty n ms fs) = []" "userFields (newComponent x ty n ms fs) = fs"
  "drawn (newComponent x ty n ms fs) = 0" "trace (newComponent x ty n ms fs) = []"
  by (simp_all add: newComponent_def)

text \<open>
  C16: \<^verbatim>\<open>setStage\<close> (component.go) reaches the stage it is given and leaves the component \<^verbatim>\<open>Active\<close>
  exactly in the stages from \<^verbatim>\<open>Initialized\<close> to \<^verbatim>\<open>Started\<close>, whichever of the methods \<^verbatim>\<open>Callback\<close>,
  \<^verbatim>\<open>RemoveCallback\<close>, \<^verbatim>\<open>Subscribe\<close>, \<^verbatim>\<open>Unsubscribe\<close> and \<^verbatim>\<open>SetSyncMessageHandler\<close> the callbacks it
  runs call, and whatever they write to the application's own fields; name, type, container, the
  message channel and what waits in it stay as they are. Callbacks, subscribers and message handlers
  may be others afterwards.
\<close>

theorem setStage_result:
  "Stage (setStage E s d) = s \<and>
   State (setStage E s d) = (if s \<in> {Initialized, Starting, Restarting, Started} then Active else Inactive) \<and>
   Name (setStage E s d) = Name d \<and> gotype (setStage E s d) = gotype d \<and>
   container (setStage E s d) = container d \<and> asContainer (setStage E s d) = asContainer d \<and>
   mmux (setStage E s d) = mmux d \<and> mmuxBuffer (setStage E s d) = mmuxBuffer d"
  by (simp add: stateOf_def running_def stage_cases_running)

text \<open>
  C17: the notifications of \<^verbatim>\<open>setStage\<close>, in order: first every callback registered at that time, by
  index, then every subscriber, with the stage change; and only if the state changes too, another
  such round, over the callbacks and subscribers left by then, with the state change.
\<close>

theorem setStage_notifications:
  "trace (setStage E s d) =
     (let ch = stageChange (Stage d) s;
          d1 = invokeCallbacks E ch (d\<lparr>Stage := s\<rparr>);
          ch2 = stateChange (State d) (stateOf s);
          d2 = invokeCallbacks E ch2 ((notifySubscribers ch d1)\<lparr>State := stateOf s\<rparr>)
      in trace d @ callbackEvents 0 (callbacks d) ch @ sendEvents (subscribers d1) ch @
         (if stateOf s = State d then []
          else callbackEvents 0 (callbacks d1) ch2 @ sendEvents (subscribers d2) ch2))"
  by (simp add: setStage_unfold setState_def Let_def)

text \<open>
  When a component starts \<^verbatim>\<open>Stopping\<close>, the framework's own callback removes itself, and only
  itself, provided that the other callbacks leave the callback slice alone.
\<close>

theorem framework_callback_removed:
  assumes "callbacks d = xs @ StateChangeCallback # ys"
    and "\<forall>cb \<in> set (xs @ ys). keepsCallbacks E (stageChange (Stage d) Stopping) cb \<and>
           keepsCallbacks E (stateChange (State d) Inactive) cb"
  shows "callbacks (setStage E Stopping d) = xs @ ys"
proof -
  let ?ch = "stageChange (Stage d) Stopping"
  let ?d = "d\<lparr>Stage := Stopping\<rparr>"
  have "callbacks (invokeFrom E ?ch 0 xs ?d) = xs @ StateChangeCallback # ys"
    using assms by (subst callbacks_invokeFrom_keep) auto
  then have "callbacks (runCallback E StateChangeCallback (length xs) ?ch
      ((invokeFrom E ?ch 0 xs ?d)\<lparr>trace := tr\<rparr>)) = xs @ ys" for tr
    using framework_callback_removes_itself [of E "Stage d"] removeAt_append [of xs StateChangeCallback ys]
    by (simp add: removesItself_def)
  then have 1: "callbacks (invokeCallbacks E ?ch ?d) = xs @ ys"
    using assms by (simp add: invokeCallbacks_def invokeFrom_append callbacks_invokeFrom_keep)
  have "stateOf Stopping = Inactive" by (simp add: stateOf_def running_def stage_order)
  moreover have "callbacks (invokeCallbacks E (stateChange (State d) Inactive) d2) = xs @ ys"
    if "callbacks d2 = xs @ ys" for d2
    using that assms(2) by (simp add: invokeCallbacks_def callbacks_invokeFrom_keep)
  ultimately show ?thesis
    using 1 by (simp add: setStage_unfold setState_def Let_def)
qed

theorem framework_callback_removed_witness:
  "callbacks (setStage plainEnv Stopping
     ((newComponent 0 SimpleT ''a'' [] [])\<lparr>callbacks := [UserCallback 1, StateChangeCallback, UserCallback 2]\<rparr>)) =
   [UserCallback 1, UserCallback 2]"
  using framework_callback_removed [of "(newComponent 0 SimpleT ''a'' [] [])\<lparr>callbacks :=
      [UserCallback 1, StateChangeCallback, UserCallback 2]\<rparr>" "[UserCallback 1]" "[UserCallback 2]" plainEnv]
  by (simp add: keepsCallbacks_def)

text \<open>
  Callbacks that all answer a notification by removing the index they were called with, as
  \<^verbatim>\<open>Callback\<close>'s documentation invites them to, do not all go: the indices are those of the slice
  before the first removal, so every second callback stays.
\<close>

theorem self_removing_callbacks:
  assumes "\<forall>cb \<in> set (callbacks d). removesItself E ch cb"
  shows "callbacks (invokeCallbacks E ch d) = oddPositions (callbacks d)"
  using callbacks_invokeFrom_removers [OF assms, of 0 d] by (simp add: invokeCallbacks_def removeEach_all)

theorem self_removing_callbacks_witness:
  "callbacks (invokeCallbacks plainEnv (stageChange Started Stopping)
     ((newComponent 0 SimpleT ''a'' [] [])\<lparr>callbacks := [StateChangeCallback, StateChangeCallback]\<rparr>)) =
   [StateChangeCallback]"
  using self_removing_callbacks [of "(newComponent 0 SimpleT ''a'' [] [])\<lparr>callbacks :=
      [StateChangeCallback, StateChangeCallback]\<rparr>" plainEnv "stageChange Started Stopping"]
  by (simp add: framework_callback_removes_itself)

text \<open>
  \<^verbatim>\<open>tearDown\<close> closes the multiplexer and removes every subscriber, but of the callbacks it removes
  only every second one: its loop counts up while the slice shrinks.
\<close>

theorem tearDown_result:
  "\<not> mmux (tearDown d) \<and> subscribers (tearDown d) = [] \<and>
   callbacks (tearDown d) = oddPositions (callbacks d)"
proof -
  have "core (tearDown d) = core (d\<lparr>mmux := False\<rparr>)" by simp
  from core_eqD(12) [OF this] have "\<not> mmux (tearDown d)" by simp
  moreover have "callbacks (tearDown d) = oddPositions (callbacks d)"
    by (simp add: tearDown_def Let_def callbacks_removeCallbacks removeEach_all)
  ultimately show ?thesis using subscribers_tearDown by blast
qed

text \<open>
  \<^verbatim>\<open>UpdateComponentEtag\<close> draws a new ETag exactly when the hash of the component's exported view
  has changed, and a second call changes nothing.
\<close>

theorem etag_follows_hash:
  assumes "hashFn E (hashView d) = Some h"
  shows "let d1 = fst (UpdateComponentEtag E d)
    in hash d1 = h \<and> Etag d1 = (if h = hash d then Etag d else uuidAt E (self d) (drawn d)) \<and>
       UpdateComponentEtag E d1 = (d1, None)"
  using assms by (simp add: UpdateComponentEtag_def hashView_def Let_def)

theorem etag_follows_hash_witness:
  "Etag (fst (UpdateComponentEtag plainEnv (newComponent 0 SimpleT ''a'' [] []))) = ''id''"
  using etag_follows_hash [of plainEnv "newComponent 0 SimpleT ''a'' [] []" 1]
  by (simp add: hashView_def Let_def)

text \<open>
  \<^verbatim>\<open>Subscribe\<close> refuses a name that is taken and leaves the subscriptions as they are,
  \<^verbatim>\<open>Unsubscribe\<close> refuses a name that is not there; a subscription changes no other one, and
  unsubscribing takes it back.
\<close>

theorem subscription_table:
  "(snd (Subscribe s ch d) = None \<longleftrightarrow> map_of (subscribers d) s = None) \<and>
   (snd (Unsubscribe s d) = None \<longleftrightarrow> map_of (subscribers d) s \<noteq> None) \<and>
   map_of (subscribers (fst (Subscribe s ch d))) =
     (if map_of (subscribers d) s = None then (map_of (subscribers d))(s \<mapsto> ch)
      else map_of (subscribers d)) \<and>
   map_of (subscribers (fst (Unsubscribe s (fst (Subscribe s ch d))))) = (map_of (subscribers d))(s := None) \<and>
   snd (Unsubscribe s (fst (Subscribe s ch d))) = None"
proof (intro conjI)
  show "map_of (subscribers (fst (Unsubscribe s (fst (Subscribe s ch d))))) = (map_of (subscribers d))(s := None)"
    unfolding subs.lookup_delete subs.lookup_enter by (simp add: fun_eq_iff)
qed (rule subs.enter_succeeds_iff subs.drop_reports subs.lookup_enter subs.drop_entered)+

end
