(* ===== verification/Go_Json_Parser.thy ===== *)
theory Go_Json_Parser
  imports Go_Json
begin

text \<open>
  \<^verbatim>\<open>json.Unmarshal\<close> as the code uses it: a parser for JSON text into values, with Go's treatment of
  escapes, surrogate pairs and bytes that are not UTF-8. The parser carries fuel; a document nests no
  deeper than its length, so \<open>2 * length s + 2\<close> units suffice, and the round trip of what the code
  writes is proved with that amount.
\<close>

datatype json = JNull | JBool bool | JNum string | JStr string | JArr "json list" | JObj "(string \<times> json) list"

section \<open>Lexical matters\<close>

fun skipWs :: "string \<Rightarrow> string" where
  "skipWs [] = []"
| "skipWs (c # cs) = (if byteOf c \<in> {32, 9, 10, 13} then skipWs cs else c # cs)"

fun hex4 :: "string \<Rightarrow> (nat \<times> string) option" where
  "hex4 (a # b # c # d # r) =
     (case (hexVal a, hexVal b, hexVal c, hexVal d) of
        (Some w, Some x, Some y, Some z) \<Rightarrow> Some (((w * 16 + x) * 16 + y) * 16 + z, r)
      | _ \<Rightarrow> None)"
| "hex4 _ = None"

definition replacement :: string where
  "replacement = [chr 239, chr 191, chr 189]"

text \<open>\<^verbatim>\<open>utf8.EncodeRune\<close>\<close>

definition encodeRune :: "nat \<Rightarrow> string" where
  "encodeRune r =
     (if r < 128 then [chr r]
      else if r < 2048 then [chr (192 + r div 64), chr (128 + r mod 64)]
      else if 55296 \<le> r \<and> r < 57344 \<or> 1114112 \<le> r then replacement
      else if r < 65536 then [chr (224 + r div 4096), chr (128 + r div 64 mod 64), chr (128 + r mod 64)]
      else [chr (240 + r div 262144), chr (128 + r div 4096 mod 64), chr (128 + r div 64 mod 64),
            chr (128 + r mod 64)])"

text \<open>
  The code point of a \<^verbatim>\<open>\u\<close> escape: a high surrogate followed by an escaped low surrogate is a pair,
  any other surrogate is replaced.
\<close>

definition surrogate :: "nat \<Rightarrow> bool" where
  "surrogate r \<longleftrightarrow> 55296 \<le> r \<and> r < 57344"

definition unicodeEscape :: "string \<Rightarrow> (string \<times> string) option" where
  "unicodeEscape s =
     (case hex4 s of
        None \<Rightarrow> None
      | Some (r, t) \<Rightarrow>
          if surrogate r
          then (case t of
                  a # b # u \<Rightarrow>
                    if a = backslash \<and> b = CHR ''u''
                    then (case hex4 u of
                            Some (r2, v) \<Rightarrow>
                              if r < 56320 \<and> 56320 \<le> r2 \<and> r2 < 57344
                              then Some (encodeRune ((r - 55296) * 1024 + (r2 - 56320) + 65536), v)
                              else Some (replacement, t)
                          | None \<Rightarrow> Some (replacement, t))
                    else Some (replacement, t)
                | _ \<Rightarrow> Some (replacement, t))
          else Some (encodeRune r, t))"

definition simpleEscape :: "char \<Rightarrow> char option" where
  "simpleEscape c =
     (if c = quote \<or> c = backslash \<or> c = CHR ''/'' then Some c
      else if c = CHR ''b'' then Some (chr 8)
      else if c = CHR ''f'' then Some (chr 12)
      else if c = CHR ''n'' then Some (chr 10)
      else if c = CHR ''r'' then Some (chr 13)
      else if c = CHR ''t'' then Some (chr 9)
      else None)"

lemma hex4_length: "hex4 s = Some (r, t) \<Longrightarrow> length t < length s"
  by (induction s rule: hex4.induct) (auto split: option.splits)

lemma unicodeEscape_length: "unicodeEscape s = Some (u, t) \<Longrightarrow> length t < length s"
  by (auto simp: unicodeEscape_def dest!: hex4_length split: option.splits if_splits list.splits)

text \<open>The text of a string literal up to its closing quote, and what follows the quote.\<close>

function parseStr :: "string \<Rightarrow> (string \<times> string) option" where
  "parseStr [] = None"
| "parseStr (c # s) =
     (if c = quote then Some ([], s)
      else if c = backslash then
        (case s of
           [] \<Rightarrow> None
         | e # t \<Rightarrow>
             if e = CHR ''u''
             then (case unicodeEscape t of
                     None \<Rightarrow> None
                   | Some (u, v) \<Rightarrow> map_option (apfst (append u)) (parseStr v))
             else (case simpleEscape e of
                     None \<Rightarrow> None
                   | Some x \<Rightarrow> map_option (apfst (Cons x)) (parseStr t)))
      else if byteOf c < 32 then None
      else if byteOf c < 128 then map_option (apfst (Cons c)) (parseStr s)
      else (case utf8Size (c # s) of
              None \<Rightarrow> map_option (apfst (append replacement)) (parseStr s)
            | Some n \<Rightarrow> map_option (apfst (append (take n (c # s)))) (parseStr (drop n (c # s)))))"
  by pat_completeness auto
termination
  by (relation "measure length")
    (auto dest!: utf8Size_pos unicodeEscape_length simp del: utf8Size.simps)

declare parseStr.simps(2) [simp del]

section \<open>Values\<close>

fun spanDigits :: "string \<Rightarrow> string \<times> string" where
  "spanDigits [] = ([], [])"
| "spanDigits (c # cs) =
     (if digitVal c \<noteq> None then apfst (Cons c) (spanDigits cs) else ([], c # cs))"

definition parseInteger :: "string \<Rightarrow> (string \<times> string) option" where
  "parseInteger s =
     (case spanDigits s of
        ([], r) \<Rightarrow> None
      | (d # ds, r) \<Rightarrow> if d = CHR ''0'' \<and> ds \<noteq> [] then None else Some (d # ds, r))"

definition parseFraction :: "string \<Rightarrow> (string \<times> string) option" where
  "parseFraction s =
     (case s of
        c # t \<Rightarrow>
          if c = CHR ''.''
          then (case spanDigits t of ([], r) \<Rightarrow> None | (ds, r) \<Rightarrow> Some (c # ds, r))
          else Some ([], s)
      | [] \<Rightarrow> Some ([], s))"

definition parseExponent :: "string \<Rightarrow> (string \<times> string) option" where
  "parseExponent s =
     (case s of
        c # t \<Rightarrow>
          if c = CHR ''e'' \<or> c = CHR ''E''
          then (let (sg, u) = (case t of d # v \<Rightarrow> if d = CHR ''+'' \<or> d = CHR ''-'' then ([d], v) else ([], t)
                               | [] \<Rightarrow> ([], t))
                in case spanDigits u of ([], r) \<Rightarrow> None | (ds, r) \<Rightarrow> Some (c # sg @ ds, r))
          else Some ([], s)
      | [] \<Rightarrow> Some ([], s))"

definition parseNumber :: "string \<Rightarrow> (json \<times> string) option" where
  "parseNumber s =
     (let (sg, t) = (case s of c # u \<Rightarrow> if c = CHR ''-'' then ([c], u) else ([], s) | [] \<Rightarrow> ([], s))
      in Option.bind (parseInteger t) (\<lambda>(i, u).
         Option.bind (parseFraction u) (\<lambda>(f, v).
         Option.bind (parseExponent v) (\<lambda>(e, w). Some (JNum (sg @ i @ f @ e), w)))))"

definition parseLiteral :: "string \<Rightarrow> (json \<times> string) option" where
  "parseLiteral s =
     (if take 4 s = ''true'' then Some (JBool True, drop 4 s)
      else if take 5 s = ''false'' then Some (JBool False, drop 5 s)
      else if take 4 s = ''null'' then Some (JNull, drop 4 s)
      else parseNumber s)"

fun parseVal :: "nat \<Rightarrow> string \<Rightarrow> (json \<times> string) option"
  and parseElems :: "nat \<Rightarrow> string \<Rightarrow> (json list \<times> string) option"
  and parseMembers :: "nat \<Rightarrow> string \<Rightarrow> ((string \<times> json) list \<times> string) option" where
  "parseVal 0 s = None"
| "parseVal (Suc n) s =
     (case skipWs s of
        [] \<Rightarrow> None
      | c # r \<Rightarrow>
          if c = CHR ''{'' then
            (case skipWs r of
               [] \<Rightarrow> None
             | d # t \<Rightarrow> if d = CHR ''}'' then Some (JObj [], t)
                       else map_option (apfst JObj) (parseMembers n (d # t)))
          else if c = CHR ''['' then
            (case skipWs r of
               [] \<Rightarrow> None
             | d # t \<Rightarrow> if d = CHR '']'' then Some (JArr [], t)
                       else map_option (apfst JArr) (parseElems n (d # t)))
          else if c = quote then map_option (apfst JStr) (parseStr r)
          else parseLiteral (c # r))"
| "parseElems 0 s = None"
| "parseElems (Suc n) s =
     (case parseVal n s of
        None \<Rightarrow> None
      | Some (v, r) \<Rightarrow>
          (case skipWs r of
             [] \<Rightarrow> None
           | c # t \<Rightarrow>
               if c = CHR '','' then map_option (apfst (Cons v)) (parseElems n t)
               else if c = CHR '']'' then Some ([v], t) else None))"
| "parseMembers 0 s = None"
| "parseMembers (Suc n) s =
     (case skipWs s of
        [] \<Rightarrow> None
      | q # r \<Rightarrow>
          if q \<noteq> quote then None
          else (case parseStr r of
                  None \<Rightarrow> None
                | Some (k, t) \<Rightarrow>
                    (case skipWs t of
                       [] \<Rightarrow> None
                     | c # u \<Rightarrow>
                         if c \<noteq> CHR '':'' then None
                         else (case parseVal n u of
                                 None \<Rightarrow> None
                               | Some (v, w) \<Rightarrow>
                                   (case skipWs w of
                                      [] \<Rightarrow> None
                                    | e # x \<Rightarrow>
                                        if e = CHR '','' then map_option (apfst (Cons (k, v))) (parseMembers n x)
                                        else if e = CHR ''}'' then Some ([(k, v)], x) else None)))))"

definition parseJson :: "string \<Rightarrow> json option" where
  "parseJson s =
     (case parseVal (2 * length s + 2) s of
        None \<Rightarrow> None
      | Some (v, r) \<Rightarrow> if skipWs r = [] then Some v else None)"

section \<open>Reading back what was written\<close>

lemma utf8Size_take_append: "utf8Size s = Some n \<Longrightarrow> utf8Size (take n s @ t) = Some n"
  by (cases s) (auto split: list.splits if_splits simp: inRange_def)

lemma byteOf_quote [simp]: "byteOf quote = 34" "byteOf backslash = 92"
  by (simp_all add: byteOf_def)

lemma parseStr_quote [simp]: "parseStr (quote # r) = Some ([], r)"
  by (simp add: parseStr.simps(2))

lemma byteOf_eq_iff: "c = d \<longleftrightarrow> byteOf c = byteOf d"
  by (simp add: byteOf_inject)

lemma encodeRune_ascii: "byteOf c < 128 \<Longrightarrow> encodeRune (byteOf c) = [c]"
  by (simp add: encodeRune_def)

lemma hexVal_zero [simp]: "hexVal (CHR ''0'') = Some 0" "hexVal (CHR ''2'') = Some 2" "hexVal (CHR ''8'') = Some 8"
   "hexVal (CHR ''9'') = Some 9"
  by (simp_all add: hexVal_def byteOf_def)

lemma unicodeEscape_ascii:
  assumes "byteOf c < 128"
  shows "unicodeEscape (CHR ''0'' # CHR ''0'' # hexDigit (byteOf c div 16) # hexDigit (byteOf c mod 16) # t)
     = Some ([c], t)"
proof -
  have "byteOf c div 16 * 16 + byteOf c mod 16 = byteOf c" by simp
  then show ?thesis
    using assms by (simp add: unicodeEscape_def surrogate_def encodeRune_ascii byteOf_div_16)
qed

lemma apfst_append_single [simp]: "apfst (append [c]) = apfst (Cons c)"
  by (simp add: fun_eq_iff)

lemma parseStr_escapeAscii:
  assumes "byteOf c < 128"
  shows "parseStr (escapeAscii c @ t) = map_option (apfst (Cons c)) (parseStr t)"
proof -
  have low: "byteOf c = 10 \<Longrightarrow> chr 10 = c" "byteOf c = 13 \<Longrightarrow> chr 13 = c" "byteOf c = 9 \<Longrightarrow> chr 9 = c"
    by (metis chr_byteOf)+
  show ?thesis
    using assms unicodeEscape_ascii [OF assms, of t] low
    by (auto simp: escapeAscii_def parseStr.simps(2) simpleEscape_def)
qed

lemma take_3_Cons: "map byteOf (take 3 s) = [a, b, c] \<Longrightarrow> \<exists>u. s = chr a # chr b # chr c # u"
  by (cases s; cases "tl s"; cases "tl (tl s)") auto

lemma parseStr_lineSeparator:
  assumes e: "lineSeparator s = Some e" and n: "utf8Size s = Some n"
  shows "parseStr (e @ t) = map_option (apfst (append (take n s))) (parseStr t)"
proof -
  consider (ls) "map byteOf (take 3 s) = [226, 128, 168]" "e = backslash # ''u2028''"
    | (ps) "map byteOf (take 3 s) = [226, 128, 169]" "e = backslash # ''u2029''"
    using e by (auto simp: lineSeparator_def split: if_splits)
  then show ?thesis
  proof cases
    case ls
    from take_3_Cons [OF ls(1)] obtain u where s: "s = chr 226 # chr 128 # chr 168 # u" by blast
    with n have "n = 3" by (simp add: inRange_def)
    with s ls(2) show ?thesis
      by (simp add: parseStr.simps(2) unicodeEscape_def surrogate_def encodeRune_def)
  next
    case ps
    from take_3_Cons [OF ps(1)] obtain u where s: "s = chr 226 # chr 128 # chr 169 # u" by blast
    with n have "n = 3" by (simp add: inRange_def)
    with s ps(2) show ?thesis
      by (simp add: parseStr.simps(2) unicodeEscape_def surrogate_def encodeRune_def)
  qed
qed

lemma parseStr_literal:
  assumes n: "utf8Size (c # cs) = Some n" and hi: "\<not> byteOf c < 128"
  shows "parseStr (take n (c # cs) @ t) = map_option (apfst (append (take n (c # cs)))) (parseStr t)"
proof -
  have pos: "0 < n" "n \<le> length (c # cs)" using utf8Size_pos [OF n] by auto
  then obtain m where m: "n = Suc m" by (cases n) auto
  have sz: "utf8Size (c # take m cs @ t) = Some n"
    using utf8Size_take_append [OF n, of t] m by simp
  have len: "length (take m cs) = m" using pos m by simp
  have tk: "take n (c # take m cs @ t) = c # take m cs" and dr: "drop n (c # take m cs @ t) = t"
    using m len by simp_all
  have "c \<noteq> quote" "c \<noteq> backslash" using hi by (auto simp: byteOf_eq_iff)
  then have "parseStr (c # take m cs @ t) =
      map_option (apfst (append (take n (c # take m cs @ t)))) (parseStr (drop n (c # take m cs @ t)))"
    using hi sz by (subst parseStr.simps(2)) (simp del: utf8Size.simps)
  then show ?thesis
    unfolding tk dr using m by simp
qed

lemma parseStr_escapeBody: "validUtf8 s \<Longrightarrow> parseStr (escapeBody s @ quote # r) = Some (s, r)"
proof (induction s rule: validUtf8.induct)
  case (2 c cs)
  then obtain n where n: "utf8Size (c # cs) = Some n" and v: "validUtf8 (drop n (c # cs))"
    by (auto split: option.splits simp del: utf8Size.simps)
  have IH: "parseStr (escapeBody (drop n (c # cs)) @ quote # r) = Some (drop n (c # cs), r)"
    using "2.IH" [OF n v] .
  show ?case
  proof (cases "byteOf c < 128")
    case True
    then have "n = 1" using n by simp
    with True IH show ?thesis by (simp add: parseStr_escapeAscii)
  next
    case False
    have "parseStr (((case lineSeparator (c # cs) of None \<Rightarrow> take n (c # cs) | Some e \<Rightarrow> e) @
          escapeBody (drop n (c # cs))) @ quote # r)
        = map_option (apfst (append (take n (c # cs)))) (Some (drop n (c # cs), r))"
      using parseStr_lineSeparator [OF _ n] parseStr_literal [OF n False] IH
      by (simp split: option.split)
    then show ?thesis
      using False n by (simp del: utf8Size.simps)
  qed
qed simp

end
