(* ===== verification/Persist_Codec.thy ===== *)
theory Persist_Codec
  imports Kinesis_Types Go_Json_Parser
begin

text \<open>
  The encoding of component fields in persistence.go: \<^verbatim>\<open>encrypt\<close> and \<^verbatim>\<open>decrypt\<close> around AES-GCM,
  \<^verbatim>\<open>marshalType\<close>, which collects the tagged fields of a component as \<^verbatim>\<open>PTypes\<close>, and
  \<^verbatim>\<open>unmarshalToType\<close>, which writes stored values back. The last part is the JSON form of
  \<^verbatim>\<open>PTypes\<close>.
\<close>

section \<open>Stored values\<close>

text \<open>\<^verbatim>\<open>Value\<close> is an \<^verbatim>\<open>interface{}\<close>: text when the code wrote it, anything when a file holds it.\<close>

datatype pvalue = PText string | POther

record ptype =
  pName :: string
  pTypeHierarchy :: string
  pValue :: pvalue
  pIsEncrypted :: bool

fun formatValue :: "fieldValue \<Rightarrow> string" where
  "formatValue (VBool b) = formatBool b"
| "formatValue (VInt w i) = formatInt i"
| "formatValue (VString s) = s"
| "formatValue (VOther s) = s"

section \<open>Encryption of a value\<close>

text \<open>\<^verbatim>\<open>aes.NewCipher\<close> accepts keys of 16, 24 and 32 bytes.\<close>

definition aesKey :: "string \<Rightarrow> bool" where
  "aesKey k \<longleftrightarrow> length k \<in> {16, 24, 32}"

text \<open>
  \<^verbatim>\<open>encrypt\<close> draws one nonce, the \<open>n\<close>-th, once the key has been accepted; it returns the number of
  nonces drawn so far, the text and the error.
\<close>

definition encrypt :: "env \<Rightarrow> nat \<Rightarrow> string \<Rightarrow> string \<Rightarrow> nat \<times> string \<times> kerror option" where
  "encrypt E n cipherKey plaintext =
     (if cipherKey = [] then (n, plaintext, Some EmptyCipherKey)
      else case hexDecode cipherKey of
        None \<Rightarrow> (n, plaintext, Some BadCipherKey)
      | Some key \<Rightarrow>
          if \<not> aesKey key then (n, plaintext, Some BadCipherKey)
          else (Suc n, hexEncode (nonceAt E n) @ hexEncode (sealFn E key (nonceAt E n) plaintext), None))"

text \<open>\<^verbatim>\<open>decrypt\<close> slices the first 24 characters off, which panics on a shorter text.\<close>

definition decrypt :: "env \<Rightarrow> string \<Rightarrow> string \<Rightarrow> (string \<times> kerror option) outcome" where
  "decrypt E cipherKey encryptedText =
     (if cipherKey = [] then Ret ([], Some EmptyCipherKey)
      else case hexDecode cipherKey of
        None \<Rightarrow> Ret ([], Some BadCipherKey)
      | Some key \<Rightarrow>
          bindO (sliceTo encryptedText 24) (\<lambda>nonceText.
          bindO (sliceFrom encryptedText 24) (\<lambda>cipherText.
            case hexDecode nonceText of
              None \<Rightarrow> Ret ([], Some BadCipherText)
            | Some nonce \<Rightarrow>
                (case hexDecode cipherText of
                   None \<Rightarrow> Ret ([], Some BadCipherText)
                 | Some ct \<Rightarrow>
                     if \<not> aesKey key then Ret ([], Some BadCipherKey)
                     else case openFn E key nonce ct of
                            None \<Rightarrow> Ret ([], Some BadCipherText)
                          | Some plain \<Rightarrow> Ret (plain, None)))))"

text \<open>What the code relies on AES-GCM and its random source for.\<close>

definition aeadCorrect :: "env \<Rightarrow> bool" where
  "aeadCorrect E \<longleftrightarrow>
     (\<forall>key nonce p. aesKey key \<longrightarrow> length nonce = 12 \<longrightarrow> openFn E key nonce (sealFn E key nonce p) = Some p) \<and>
     (\<forall>n. length (nonceAt E n) = 12)"

lemma decrypt_encrypt_text:
  assumes "aeadCorrect E" and "hexDecode cipherKey = Some key" and "aesKey key"
    and "encrypt E n cipherKey p = (m, c, e)"
  shows "e = None \<and> decrypt E cipherKey c = Ret (p, None)"
proof -
  have ne: "cipherKey \<noteq> []" using assms(2,3) by (auto simp: aesKey_def)
  have c: "c = hexEncode (nonceAt E n) @ hexEncode (sealFn E key (nonceAt E n) p)" "e = None"
    using assms(2-4) ne by (auto simp: encrypt_def)
  have len: "length (hexEncode (nonceAt E n)) = 24" using assms(1) by (simp add: aeadCorrect_def)
  then have "sliceTo c 24 = Ret (hexEncode (nonceAt E n))"
    "sliceFrom c 24 = Ret (hexEncode (sealFn E key (nonceAt E n) p))"
    by (simp_all add: c(1) sliceTo_def sliceFrom_def)
  then show ?thesis
    using assms(1-3) ne c(2) by (simp add: decrypt_def aeadCorrect_def)
qed

section \<open>Collecting the persistable fields\<close>

text \<open>
  One tagged field: encrypted when its directive says so and a key is there, in plain text when
  encryption fails or no key is there. The state is the number of nonces drawn.
\<close>

definition marshalField ::
    "env \<Rightarrow> string \<Rightarrow> string \<Rightarrow> nat \<Rightarrow> string \<Rightarrow> string \<Rightarrow> fieldValue \<Rightarrow> nat \<times> ptype" where
  "marshalField E encryptKey typeHierarchy n name persistDirective v =
     (let strValue = formatValue v
      in if persistDirective = ''encrypt'' \<and> encryptKey \<noteq> []
         then (let (n', s, e) = encrypt E n encryptKey strValue
               in (n', \<lparr>pName = name, pTypeHierarchy = typeHierarchy, pValue = PText s,
                        pIsEncrypted = (e = None)\<rparr>))
         else (n, \<lparr>pName = name, pTypeHierarchy = typeHierarchy, pValue = PText strValue,
                   pIsEncrypted = False\<rparr>))"

fun marshalType :: "env \<Rightarrow> string \<Rightarrow> string \<Rightarrow> gofield list \<Rightarrow> nat \<times> ptype list \<Rightarrow> nat \<times> ptype list" where
  "marshalType E encryptKey typeHierarchy [] st = st"
| "marshalType E encryptKey typeHierarchy (Field name ty tag exported v # fs) st =
     (if ty = ''SimpleComponent'' then marshalType E encryptKey typeHierarchy fs st
      else case tag of
        None \<Rightarrow> marshalType E encryptKey typeHierarchy fs st
      | Some persistDirective \<Rightarrow>
          (let (n, p) = marshalField E encryptKey typeHierarchy (fst st) name persistDirective v
           in marshalType E encryptKey typeHierarchy fs (n, snd st @ [p])))"
| "marshalType E encryptKey typeHierarchy (StructField name ty exported embedded gs # fs) st =
     (if ty = ''SimpleComponent'' then marshalType E encryptKey typeHierarchy fs st
      else marshalType E encryptKey typeHierarchy fs
             (marshalType E encryptKey (typeHierarchy @ ''.'' @ ty) gs st))"

section \<open>Writing stored values back\<close>

text \<open>
  \<^verbatim>\<open>SetBool\<close>, \<^verbatim>\<open>SetInt\<close> and \<^verbatim>\<open>SetString\<close> panic on a field that is not settable; \<^verbatim>\<open>SetInt\<close> keeps
  the low bits. Kinds without a case are left as they are.
\<close>

definition setFieldValue :: "bool \<Rightarrow> fieldValue \<Rightarrow> string \<Rightarrow> fieldValue outcome" where
  "setFieldValue settable v strValue =
     (case v of
        VBool _ \<Rightarrow> if settable then Ret (VBool (parseBool strValue)) else Panics
      | VInt w _ \<Rightarrow> if settable then Ret (VInt w (signed_take_bit (w - 1) (atoi strValue))) else Panics
      | VString _ \<Rightarrow> if settable then Ret (VString strValue) else Panics
      | VOther s \<Rightarrow> Ret (VOther s))"

text \<open>The text to store: decrypted if it was encrypted, a key is there and the result is not empty.\<close>

definition storedText :: "env \<Rightarrow> string \<Rightarrow> ptype \<Rightarrow> string outcome" where
  "storedText E encryptKey p =
     (case pValue p of
        POther \<Rightarrow> Panics
      | PText strValue \<Rightarrow>
          if pIsEncrypted p \<and> encryptKey \<noteq> []
          then bindO (decrypt E encryptKey strValue) (\<lambda>(decryptStr, err).
                 Ret (if err = None \<and> 0 < length decryptStr then decryptStr else strValue))
          else Ret strValue)"

definition unmarshalField ::
    "env \<Rightarrow> string \<Rightarrow> bool \<Rightarrow> string \<Rightarrow> (string \<rightharpoonup> ptype) \<Rightarrow> string \<Rightarrow> fieldValue \<Rightarrow> fieldValue outcome" where
  "unmarshalField E encryptKey settable typeHierarchy pTypes name v =
     (case pTypes name of
        None \<Rightarrow> Ret v
      | Some p \<Rightarrow>
          if pTypeHierarchy p \<noteq> typeHierarchy then Ret v
          else bindO (storedText E encryptKey p) (setFieldValue settable v))"

text \<open>
  \<open>sticky\<close> records that the struct was reached through an unexported field that is not embedded,
  which reflection never forgets. The fields are set in place, one after the other: the result is the
  fields as they are in the end, and whether setting one of them has panicked, which leaves the later
  ones as they were.
\<close>

fun unmarshalToType ::
    "env \<Rightarrow> string \<Rightarrow> bool \<Rightarrow> string \<Rightarrow> (string \<rightharpoonup> ptype) \<Rightarrow> gofield list \<Rightarrow> gofield list \<times> bool" where
  "unmarshalToType E encryptKey sticky typeHierarchy pTypes [] = ([], False)"
| "unmarshalToType E encryptKey sticky typeHierarchy pTypes (Field name ty tag exported v # fs) =
     (if ty = ''SimpleComponent'' \<or> tag \<notin> {Some ''native'', Some ''encrypt''}
      then (let (fs', panicked) = unmarshalToType E encryptKey sticky typeHierarchy pTypes fs
            in (Field name ty tag exported v # fs', panicked))
      else case unmarshalField E encryptKey (exported \<and> \<not> sticky) typeHierarchy pTypes name v of
             Ret v' \<Rightarrow>
               (let (fs', panicked) = unmarshalToType E encryptKey sticky typeHierarchy pTypes fs
                in (Field name ty tag exported v' # fs', panicked))
           | _ \<Rightarrow> (Field name ty tag exported v # fs, True))"
| "unmarshalToType E encryptKey sticky typeHierarchy pTypes (StructField name ty exported embedded gs # fs) =
     (if ty = ''SimpleComponent''
      then (let (fs', panicked) = unmarshalToType E encryptKey sticky typeHierarchy pTypes fs
            in (StructField name ty exported embedded gs # fs', panicked))
      else (let (gs', panicked) = unmarshalToType E encryptKey (sticky \<or> (\<not> exported \<and> \<not> embedded))
                                    (typeHierarchy @ ''.'' @ ty) pTypes gs
            in if panicked then (StructField name ty exported embedded gs' # fs, True)
               else (let (fs', panicked) = unmarshalToType E encryptKey sticky typeHierarchy pTypes fs
                     in (StructField name ty exported embedded gs' # fs', panicked))))"

text \<open>\<^verbatim>\<open>load\<close> indexes what was stored by the bare field name; a later entry replaces an earlier one.\<close>

definition pTypeMap :: "ptype list \<Rightarrow> (string \<rightharpoonup> ptype)" where
  "pTypeMap ps = foldl (\<lambda>m p. m(pName p \<mapsto> p)) Map.empty ps"

section \<open>JSON form\<close>

definition marshalPValue :: "pvalue \<Rightarrow> string" where
  "marshalPValue v = (case v of PText s \<Rightarrow> jsonString s | POther \<Rightarrow> ''null'')"

definition marshalPType :: "ptype \<Rightarrow> string" where
  "marshalPType p =
     CHR ''{'' # jsonString ''name'' @ CHR '':'' # jsonString (pName p) @
     CHR '','' # jsonString ''typeHierarchy'' @ CHR '':'' # jsonString (pTypeHierarchy p) @
     CHR '','' # jsonString ''value'' @ CHR '':'' # marshalPValue (pValue p) @
     CHR '','' # jsonString ''isEncrypted'' @ CHR '':'' # formatBool (pIsEncrypted p) @ ''}''"

fun joinElems :: "string list \<Rightarrow> string" where
  "joinElems [] = []"
| "joinElems [x] = x"
| "joinElems (x # y # zs) = x @ CHR '','' # joinElems (y # zs)"

definition marshalPTypes :: "ptype list \<Rightarrow> string" where
  "marshalPTypes ps = CHR ''['' # joinElems (map marshalPType ps) @ '']''"

text \<open>
  Decoding into the struct: keys match case-insensitively, unknown keys are ignored, \<^verbatim>\<open>null\<close> leaves
  a field as it is, a value of the wrong kind is an error.
\<close>

definition decodeMember :: "ptype option \<Rightarrow> string \<times> json \<Rightarrow> ptype option" where
  "decodeMember acc m =
     (case acc of
        None \<Rightarrow> None
      | Some p \<Rightarrow>
          (let k = toLower (fst m)
           in if k = ''name''
              then (case snd m of JStr s \<Rightarrow> Some (p\<lparr>pName := s\<rparr>) | JNull \<Rightarrow> Some p | _ \<Rightarrow> None)
              else if k = ''typehierarchy''
              then (case snd m of JStr s \<Rightarrow> Some (p\<lparr>pTypeHierarchy := s\<rparr>) | JNull \<Rightarrow> Some p | _ \<Rightarrow> None)
              else if k = ''value''
              then Some (p\<lparr>pValue := (case snd m of JStr s \<Rightarrow> PText s | _ \<Rightarrow> POther)\<rparr>)
              else if k = ''isencrypted''
              then (case snd m of JBool b \<Rightarrow> Some (p\<lparr>pIsEncrypted := b\<rparr>) | JNull \<Rightarrow> Some p | _ \<Rightarrow> None)
              else Some p))"

definition zeroPType :: ptype where
  "zeroPType = \<lparr>pName = [], pTypeHierarchy = [], pValue = POther, pIsEncrypted = False\<rparr>"

definition decodePType :: "json \<Rightarrow> ptype option" where
  "decodePType j =
     (case j of
        JObj ms \<Rightarrow> foldl decodeMember (Some zeroPType) ms
      | JNull \<Rightarrow> Some zeroPType
      | _ \<Rightarrow> None)"

fun decodeAll :: "json list \<Rightarrow> ptype list option" where
  "decodeAll [] = Some []"
| "decodeAll (j # js) =
     (case decodePType j of
        None \<Rightarrow> None
      | Some p \<Rightarrow> map_option (Cons p) (decodeAll js))"

definition unmarshalPTypes :: "string \<Rightarrow> ptype list option" where
  "unmarshalPTypes s =
     (case parseJson s of
        Some JNull \<Rightarrow> Some []
      | Some (JArr js) \<Rightarrow> decodeAll js
      | _ \<Rightarrow> None)"

section \<open>The JSON round trip\<close>

declare parseVal.simps [simp del] parseElems.simps [simp del] parseMembers.simps [simp del]

definition textual :: "ptype \<Rightarrow> bool" where
  "textual p \<longleftrightarrow> validUtf8 (pName p) \<and> validUtf8 (pTypeHierarchy p) \<and>
     (\<exists>s. pValue p = PText s \<and> validUtf8 s)"

definition objectOf :: "ptype \<Rightarrow> json" where
  "objectOf p =
     JObj [(''name'', JStr (pName p)), (''typeHierarchy'', JStr (pTypeHierarchy p)),
           (''value'', (case pValue p of PText s \<Rightarrow> JStr s | POther \<Rightarrow> JNull)),
           (''isEncrypted'', JBool (pIsEncrypted p))]"

lemma toLower_keys [simp]:
  "toLower ''name'' = ''name''" "toLower ''typeHierarchy'' = ''typehierarchy''"
  "toLower ''value'' = ''value''" "toLower ''isEncrypted'' = ''isencrypted''"
  by code_simp+

lemma decodeMember_keys [simp]:
  "decodeMember (Some p) (''name'', JStr s) = Some (p\<lparr>pName := s\<rparr>)"
  "decodeMember (Some p) (''typeHierarchy'', JStr s) = Some (p\<lparr>pTypeHierarchy := s\<rparr>)"
  "decodeMember (Some p) (''value'', JStr s) = Some (p\<lparr>pValue := PText s\<rparr>)"
  "decodeMember (Some p) (''isEncrypted'', JBool b) = Some (p\<lparr>pIsEncrypted := b\<rparr>)"
  by (simp_all add: decodeMember_def Let_def)

lemma decodePType_objectOf: "textual p \<Longrightarrow> decodePType (objectOf p) = Some p"
  by (cases p) (auto simp: decodePType_def objectOf_def zeroPType_def textual_def)

lemma decodeAll_objectOf: "\<forall>p \<in> set ps. textual p \<Longrightarrow> decodeAll (map objectOf ps) = Some ps"
  by (induction ps) (simp_all add: decodePType_objectOf)

lemma skipWs_token [simp]: "byteOf c \<notin> {32, 9, 10, 13} \<Longrightarrow> skipWs (c # s) = c # s"
  by simp

lemma validUtf8_ascii: "ascii s \<Longrightarrow> validUtf8 s"
  by (induction s) (auto simp: ascii_def)

lemma parseStr_jsonString: "validUtf8 s \<Longrightarrow> parseStr (tl (jsonString s) @ r) = Some (s, r)"
  using parseStr_escapeBody [of s r] by (simp add: jsonString_def)

lemma json_punctuation [simp]:
  "byteOf (CHR '':'') = 58" "byteOf (CHR '','') = 44" "byteOf (CHR ''}'') = 125"
  "byteOf (CHR ''{'') = 123" "byteOf (CHR ''['') = 91" "byteOf (CHR '']'') = 93"
  by (simp_all add: byteOf_def)

lemma parseVal_jsonString: "validUtf8 s \<Longrightarrow> parseVal (Suc n) (jsonString s @ r) = Some (JStr s, r)"
  using parseStr_escapeBody [of s r] by (simp add: jsonString_def parseVal.simps)

lemma parseVal_bool: "parseVal (Suc n) (formatBool b @ r) = Some (JBool b, r)"
  by (cases b) (simp_all add: formatBool_def parseLiteral_def byteOf_def parseVal.simps)

lemma parseMembers_step:
  assumes "validUtf8 k" and "\<And>r. parseVal n (x @ r) = Some (v, r)"
  shows "parseMembers (Suc n) (jsonString k @ CHR '':'' # x @ CHR '','' # r) =
         map_option (apfst (Cons (k, v))) (parseMembers n r)"
  using assms(2) parseStr_escapeBody [OF assms(1)] by (simp add: jsonString_def parseMembers.simps)

lemma parseMembers_last:
  assumes "validUtf8 k" and "\<And>r. parseVal n (x @ r) = Some (v, r)"
  shows "parseMembers (Suc n) (jsonString k @ CHR '':'' # x @ CHR ''}'' # r) = Some ([(k, v)], r)"
  using assms(2) parseStr_escapeBody [OF assms(1)] by (simp add: jsonString_def parseMembers.simps)

lemma validUtf8_keys [simp]:
  "validUtf8 ''name''" "validUtf8 ''typeHierarchy''" "validUtf8 ''value''" "validUtf8 ''isEncrypted''"
  by (simp_all add: validUtf8_ascii ascii_def byteOf_def)

lemma parseVal_object:
  assumes "parseMembers n (jsonString k @ s) = Some (ms, r)"
  shows "parseVal (Suc n) (CHR ''{'' # jsonString k @ s) = Some (JObj ms, r)"
proof -
  obtain t where t: "jsonString k @ s = quote # t" by (simp add: jsonString_def)
  show ?thesis using assms unfolding t by (simp add: parseVal.simps)
qed

lemma parseVal_marshalPType:
  assumes "textual p"
  shows "parseVal (Suc (Suc (Suc (Suc (Suc (Suc n)))))) (marshalPType p @ r) = Some (objectOf p, r)"
proof -
  obtain s where s: "pValue p = PText s" "validUtf8 s" and v: "validUtf8 (pName p)" "validUtf8 (pTypeHierarchy p)"
    using assms by (auto simp: textual_def)
  let ?t4 = "jsonString ''isEncrypted'' @ CHR '':'' # formatBool (pIsEncrypted p) @ CHR ''}'' # r"
  let ?t3 = "jsonString ''value'' @ CHR '':'' # jsonString s @ CHR '','' # ?t4"
  let ?t2 = "jsonString ''typeHierarchy'' @ CHR '':'' # jsonString (pTypeHierarchy p) @ CHR '','' # ?t3"
  let ?t1 = "jsonString ''name'' @ CHR '':'' # jsonString (pName p) @ CHR '','' # ?t2"
  have m4: "parseMembers (Suc (Suc n)) ?t4 = Some ([(''isEncrypted'', JBool (pIsEncrypted p))], r)"
    by (rule parseMembers_last [OF validUtf8_keys(4) parseVal_bool])
  note m3 = parseMembers_step [OF validUtf8_keys(3) parseVal_jsonString [OF s(2)], of "Suc n" ?t4, unfolded m4]
  note m2 = parseMembers_step [OF validUtf8_keys(2) parseVal_jsonString [OF v(2)], of "Suc (Suc n)" ?t3, unfolded m3]
  have "parseMembers (Suc (Suc (Suc (Suc (Suc n))))) ?t1 =
     Some ([(''name'', JStr (pName p)), (''typeHierarchy'', JStr (pTypeHierarchy p)),
       (''value'', JStr s), (''isEncrypted'', JBool (pIsEncrypted p))], r)"
    using parseMembers_step [OF validUtf8_keys(1) parseVal_jsonString [OF v(1)], of "Suc (Suc (Suc n))" ?t2, unfolded m2]
    by simp
  from parseVal_object [OF this] show ?thesis
    by (simp add: marshalPType_def marshalPValue_def objectOf_def s)
qed

lemma parseElems_marshal:
  assumes "ps \<noteq> []" and "\<forall>p \<in> set ps. textual p"
  shows "parseElems (length ps + Suc (Suc (Suc (Suc (Suc (Suc k))))))
           (joinElems (map marshalPType ps) @ CHR '']'' # r) = Some (map objectOf ps, r)"
  using assms
proof (induction ps rule: induct_list012)
  case (2 p)
  then show ?case
    using parseVal_marshalPType [of p] by (simp add: parseElems.simps)
next
  case (3 p q ps)
  have IH: "parseElems (length (q # ps) + Suc (Suc (Suc (Suc (Suc (Suc k))))))
       (joinElems (map marshalPType (q # ps)) @ CHR '']'' # r) = Some (map objectOf (q # ps), r)"
    using 3 by (intro "3.IH"(2)) auto
  have "textual p" using "3.prems" by simp
  then show ?case
    using IH parseVal_marshalPType [of p] by (simp add: parseElems.simps)
qed simp

lemma length_joinElems: "length xs \<le> length (joinElems xs) + 1"
  by (induction xs rule: joinElems.induct) auto

lemma length_marshalPType: "20 \<le> length (marshalPType p)"
proof -
  have "length (escapeBody ''typeHierarchy'') = 13" 
    by (subst escapeBody_plain) (simp_all add: plainChar_def escapeAscii_def byteOf_def)
  then show ?thesis by (simp add: marshalPType_def jsonString_def)
qed

lemma unmarshal_marshal_PTypes:
  assumes "\<forall>p \<in> set ps. textual p"
  shows "unmarshalPTypes (marshalPTypes ps) = Some ps"
proof (cases ps)
  case Nil
  then show ?thesis
    by (simp add: unmarshalPTypes_def marshalPTypes_def parseJson_def parseVal.simps eval_nat_numeral)
next
  case (Cons p qs)
  let ?s = "marshalPTypes ps"
  have len: "length ps + 7 \<le> 2 * length ?s + 2"
    using length_joinElems [of "map marshalPType ps"] length_marshalPType [of p] Cons
    by (cases qs) (auto simp: marshalPTypes_def)
  define k where "k = 2 * length ?s + 2 - (length ps + 7)"
  have fuel: "2 * length ?s + 2 = Suc (length ps + Suc (Suc (Suc (Suc (Suc (Suc k))))))"
    using len by (simp add: k_def)
  have pe: "parseElems (length ps + Suc (Suc (Suc (Suc (Suc (Suc k))))))
      (joinElems (map marshalPType ps) @ '']'') = Some (map objectOf ps, [])"
    using parseElems_marshal [of ps k "[]"] assms Cons by simp
  obtain t where t: "joinElems (map marshalPType ps) @ '']'' = CHR ''{'' # t"
    using Cons by (cases qs) (simp_all add: marshalPType_def)
  have "parseVal (Suc (length ps + Suc (Suc (Suc (Suc (Suc (Suc k))))))) ?s = Some (JArr (map objectOf ps), [])"
    using pe unfolding marshalPTypes_def t by (simp add: parseVal.simps)
  then have "parseJson ?s = Some (JArr (map objectOf ps))"
    unfolding parseJson_def fuel by simp
  then show ?thesis
    using decodeAll_objectOf [OF assms] by (simp add: unmarshalPTypes_def)
qed

end
