(* ===== verification/Persist_Roundtrip.thy ===== *)
theory Persist_Roundtrip
  imports Persist_Codec
begin

text \<open>
  What storing and loading the fields of a component gives back. \<open>leaves\<close> lists the tagged fields in
  the order \<^verbatim>\<open>marshalType\<close> visits them; \<open>restorable\<close> says which values survive, \<open>agreeUnpersisted\<close>
  that the receiving component differs from the stored one in the stored fields at most.
\<close>

section \<open>The tagged fields\<close>

type_synonym leaf = "string \<times> string \<times> string \<times> fieldValue"

fun leaves :: "string \<Rightarrow> gofield list \<Rightarrow> leaf list" where
  "leaves h [] = []"
| "leaves h (Field name ty tag exported v # fs) =
     (if ty = ''SimpleComponent'' then [] else case tag of None \<Rightarrow> [] | Some d \<Rightarrow> [(h, name, d, v)])
     @ leaves h fs"
| "leaves h (StructField name ty exported embedded gs # fs) =
     (if ty = ''SimpleComponent'' then [] else leaves (h @ ''.'' @ ty) gs) @ leaves h fs"

definition leafName :: "leaf \<Rightarrow> string" where
  "leafName l = fst (snd l)"

definition encodedAs :: "env \<Rightarrow> string \<Rightarrow> leaf \<Rightarrow> ptype \<Rightarrow> bool" where
  "encodedAs E key l p \<longleftrightarrow>
     (\<exists>n. p = snd (marshalField E key (fst l) n (fst (snd l)) (fst (snd (snd l))) (snd (snd (snd l)))))"

lemma encodedAs_name: "encodedAs E key l p \<Longrightarrow> pName p = leafName l \<and> pTypeHierarchy p = fst l"
  by (auto simp: encodedAs_def marshalField_def Let_def leafName_def split: prod.splits)

lemma marshalType_leaves:
  "\<exists>n ps. marshalType E key h fs st = (n, snd st @ ps) \<and> list_all2 (encodedAs E key) (leaves h fs) ps"
proof (induction E key h fs st rule: marshalType.induct)
  case (2 E key h name ty tag exported v fs st)
  show ?case
  proof (cases "ty = ''SimpleComponent'' \<or> tag = None")
    case True
    with 2 show ?thesis by auto
  next
    case False
    then obtain d where d: "tag = Some d" and ty: "ty \<noteq> ''SimpleComponent''" by auto
    obtain n p where np: "marshalField E key h (fst st) name d v = (n, p)" by fastforce
    then have enc: "encodedAs E key (h, name, d, v) p"
      unfolding encodedAs_def by (intro exI [of _ "fst st"]) simp
    from "2.IH"(3) [OF ty d np [symmetric] refl] obtain m ps where
      "marshalType E key h fs (n, snd st @ [p]) = (m, (snd st @ [p]) @ ps)"
      "list_all2 (encodedAs E key) (leaves h fs) ps" by auto
    with d ty np enc show ?thesis by (intro exI [of _ m] exI [of _ "p # ps"]) simp
  qed
next
  case (3 E key h name ty exported embedded gs fs st)
  show ?case
  proof (cases "ty = ''SimpleComponent''")
    case True
    with 3 show ?thesis by auto
  next
    case False
    from "3.IH"(2) [OF False] obtain m ps where gs:
      "marshalType E key (h @ ''.'' @ ty) gs st = (m, snd st @ ps)"
      "list_all2 (encodedAs E key) (leaves (h @ ''.'' @ ty) gs) ps" by auto
    from "3.IH"(3) [OF False, unfolded gs(1)] obtain m' qs where
      "marshalType E key h fs (m, snd st @ ps) = (m', (snd st @ ps) @ qs)"
      "list_all2 (encodedAs E key) (leaves h fs) qs" by auto
    with False gs show ?thesis
      by (intro exI [of _ m'] exI [of _ "ps @ qs"]) (simp add: list_all2_appendI)
  qed
next
  case (1 E key h st)
  then show ?case by (cases st) simp
qed

lemma encodedAs_names: "list_all2 (encodedAs E key) ls ps \<Longrightarrow> map pName ps = map leafName ls"
  by (induction rule: list_all2_induct) (simp_all add: encodedAs_name)

lemma encodedAs_member:
  assumes "list_all2 (encodedAs E key) ls ps" and "l \<in> set ls"
  shows "\<exists>p \<in> set ps. encodedAs E key l p"
  using assms by (induction rule: list_all2_induct) auto

section \<open>Looking an entry up\<close>

lemma foldl_pTypeMap: 
  "foldl (\<lambda>m p. m(pName p \<mapsto> p)) m ps = m ++ map_of (rev (map (\<lambda>p. (pName p, p)) ps))"
  by (induction ps arbitrary: m) (simp_all del: fun_upd_apply)

lemma pTypeMap_map_of: "pTypeMap ps = map_of (rev (map (\<lambda>p. (pName p, p)) ps))"
  by (simp add: pTypeMap_def foldl_pTypeMap)

lemma pTypeMap_distinct:
  assumes "distinct (map pName ps)" and "p \<in> set ps"
  shows "pTypeMap ps (pName p) = Some p"
proof -
  have "distinct (map fst (rev (map (\<lambda>p. (pName p, p)) ps)))"
    using assms(1) by (simp add: rev_map [symmetric] comp_def)
  then show ?thesis
    unfolding pTypeMap_map_of using assms(2) by (intro map_of_is_SomeI) auto
qed

lemma pTypeMap_last: "pName p \<notin> pName ` set qs \<Longrightarrow> pTypeMap (ps @ p # qs) (pName p) = Some p"
proof -
  assume "pName p \<notin> pName ` set qs"
  then have "map_of (rev (map (\<lambda>p. (pName p, p)) qs)) (pName p) = None"
    by (auto simp: map_of_eq_None_iff)
  then show ?thesis by (simp add: pTypeMap_map_of map_add_def)
qed

section \<open>Decoding what was encoded\<close>

fun inRangeValue :: "fieldValue \<Rightarrow> bool" where
  "inRangeValue (VBool b) = True"
| "inRangeValue (VInt w i) = (0 < w \<and> w \<le> 64 \<and> - (2 ^ (w - 1)) \<le> i \<and> i < 2 ^ (w - 1))"
| "inRangeValue (VString s) = True"
| "inRangeValue (VOther s) = False"

fun sameKind :: "fieldValue \<Rightarrow> fieldValue \<Rightarrow> bool" where
  "sameKind (VBool _) (VBool _) = True"
| "sameKind (VInt w _) (VInt w' _) = (w = w')"
| "sameKind (VString _) (VString _) = True"
| "sameKind _ _ = False"

definition restorableLeaf :: "leaf \<Rightarrow> bool" where
  "restorableLeaf l \<longleftrightarrow>
     (case l of (h, name, d, v) \<Rightarrow>
        d \<in> {''native'', ''encrypt''} \<and> inRangeValue v \<and> (d = ''encrypt'' \<longrightarrow> v \<noteq> VString []))"

lemma formatValue_nonempty: "inRangeValue v \<Longrightarrow> v \<noteq> VString [] \<Longrightarrow> formatValue v \<noteq> []"
  by (cases v) (auto simp: formatBool_def formatInt_def)

lemma storedText_marshalField:
  assumes "aeadCorrect E" and "d = ''encrypt'' \<longrightarrow> formatValue v \<noteq> []"
  shows "storedText E key (snd (marshalField E key h n name d v)) = Ret (formatValue v)"
proof (cases "d = ''encrypt'' \<and> key \<noteq> []")
  case False
  then show ?thesis by (auto simp: marshalField_def storedText_def)
next
  case True
  obtain m c e where enc: "encrypt E n key (formatValue v) = (m, c, e)" by (metis prod_cases3)
  show ?thesis
  proof (cases "\<exists>k. hexDecode key = Some k \<and> aesKey k")
    case True': True
    then obtain k where "hexDecode key = Some k" "aesKey k" by blast
    from decrypt_encrypt_text [OF assms(1) this enc]
    have "e = None" "decrypt E key c = Ret (formatValue v, None)" by auto
    with True enc assms(2) show ?thesis by (simp add: marshalField_def storedText_def)
  next
    case False
    then have "c = formatValue v \<and> e \<noteq> None"
      using True enc by (auto simp: encrypt_def split: option.splits if_splits)
    with True enc show ?thesis by (auto simp: marshalField_def storedText_def)
  qed
qed

lemma setFieldValue_formatValue:
  assumes "inRangeValue v" and "sameKind v v'"
  shows "setFieldValue True v' (formatValue v) = Ret v"
proof (cases v)
  case (VInt w i)
  with assms obtain j where v': "v' = VInt w j" by (cases v') auto
  have pow: "(2::int) ^ (w - 1) \<le> 2 ^ 63"
    using assms(1) VInt by (intro power_increasing) auto
  then have "minInt64 \<le> i" "i \<le> maxInt64"
    using assms(1) VInt by (auto simp: minInt64_def maxInt64_def)
  then have "atoi (formatInt i) = i" by (rule atoi_formatInt)
  then show ?thesis
    using assms(1) VInt v' by (simp add: setFieldValue_def signed_take_bit_int_eq_self)
qed (use assms in \<open>cases v'; simp add: setFieldValue_def\<close>)+

section \<open>The round trip\<close>

fun agreeUnpersisted :: "gofield list \<Rightarrow> gofield list \<Rightarrow> bool" where
  "agreeUnpersisted [] [] = True"
| "agreeUnpersisted (Field name ty tag exported v # fs) (Field name' ty' tag' exported' v' # fs') =
     (name = name' \<and> ty = ty' \<and> tag = tag' \<and> exported = exported' \<and>
      (if ty = ''SimpleComponent'' \<or> tag = None then v = v' else sameKind v v') \<and>
      agreeUnpersisted fs fs')"
| "agreeUnpersisted (StructField name ty exported embedded gs # fs)
                    (StructField name' ty' exported' embedded' gs' # fs') =
     (name = name' \<and> ty = ty' \<and> exported = exported' \<and> embedded = embedded' \<and>
      (if ty = ''SimpleComponent'' then gs = gs' else agreeUnpersisted gs gs') \<and>
      agreeUnpersisted fs fs')"
| "agreeUnpersisted _ _ = False"

text \<open>Every tagged field can be set by reflection.\<close>

fun settableFields :: "bool \<Rightarrow> gofield list \<Rightarrow> bool" where
  "settableFields sticky [] = True"
| "settableFields sticky (Field name ty tag exported v # fs) =
     ((ty \<noteq> ''SimpleComponent'' \<and> tag \<noteq> None \<longrightarrow> exported \<and> \<not> sticky) \<and> settableFields sticky fs)"
| "settableFields sticky (StructField name ty exported embedded gs # fs) =
     ((ty \<noteq> ''SimpleComponent'' \<longrightarrow> settableFields (sticky \<or> (\<not> exported \<and> \<not> embedded)) gs) \<and>
      settableFields sticky fs)"

lemma unmarshalToType_leaves:
  assumes "aeadCorrect E" and "agreeUnpersisted fs fs'" and "settableFields sticky fs"
    and "\<forall>l \<in> set (leaves h fs). restorableLeaf l \<and> (\<exists>p. m (leafName l) = Some p \<and> encodedAs E key l p)"
  shows "unmarshalToType E key sticky h m fs' = (fs, False)"
  using assms(2-)
proof (induction fs fs' arbitrary: sticky h rule: agreeUnpersisted.induct)
  case (2 name ty tag exported v fs name' ty' tag' exported' v' fs')
  have IH: "unmarshalToType E key sticky h m fs' = (fs, False)"
    using "2.prems" by (intro "2.IH") auto
  show ?case
  proof (cases "ty = ''SimpleComponent'' \<or> tag = None")
    case True
    with "2.prems"(1) IH show ?thesis by auto
  next
    case False
    then obtain d where d: "tag = Some d" and ty: "ty \<noteq> ''SimpleComponent''" by auto
    have leaf: "restorableLeaf (h, name, d, v)" using "2.prems"(3) d ty by simp
    obtain p where p: "m name = Some p" "encodedAs E key (h, name, d, v) p"
      using "2.prems"(3) d ty by (auto simp: leafName_def)
    have hier: "pTypeHierarchy p = h" using encodedAs_name [OF p(2)] by simp
    have "storedText E key p = Ret (formatValue v)"
      using p(2) leaf storedText_marshalField [OF assms(1)] formatValue_nonempty
      by (auto simp: encodedAs_def restorableLeaf_def)
    moreover have "setFieldValue True v' (formatValue v) = Ret v"
      using setFieldValue_formatValue leaf "2.prems"(1) d ty by (auto simp: restorableLeaf_def)
    ultimately have "unmarshalField E key (exported \<and> \<not> sticky) h m name v' = Ret v"
      using p(1) hier "2.prems"(2) d ty by (simp add: unmarshalField_def)
    then show ?thesis
      using IH "2.prems"(1) leaf d ty by (auto simp: restorableLeaf_def)
  qed
next
  case (3 name ty exported embedded gs fs name' ty' exported' embedded' gs' fs')
  have IH: "unmarshalToType E key sticky h m fs' = (fs, False)"
    using "3.prems" by (intro "3.IH"(2)) auto
  show ?case
  proof (cases "ty = ''SimpleComponent''")
    case True
    with "3.prems"(1) IH show ?thesis by simp
  next
    case False
    have "unmarshalToType E key (sticky \<or> (\<not> exported \<and> \<not> embedded)) (h @ ''.'' @ ty) m gs' = (gs, False)"
      using "3.prems" False by (intro "3.IH"(1)) simp_all
    then show ?thesis using IH False "3.prems"(1) by simp
  qed
qed simp_all

lemma unmarshal_marshal_fields:
  assumes "aeadCorrect E" and "agreeUnpersisted fs fs'" and "settableFields False fs"
    and "\<forall>l \<in> set (leaves h fs). restorableLeaf l" and "distinct (map leafName (leaves h fs))"
    and "marshalType E key h fs (n, []) = (n', ps)"
  shows "unmarshalToType E key False h (pTypeMap ps) fs' = (fs, False)"
proof -
  have enc: "list_all2 (encodedAs E key) (leaves h fs) ps"
    using marshalType_leaves [of E key h fs "(n, [])"] assms(6) by auto
  then have names: "map pName ps = map leafName (leaves h fs)"
    by (rule encodedAs_names)
  have "\<exists>p. pTypeMap ps (leafName l) = Some p \<and> encodedAs E key l p" if "l \<in> set (leaves h fs)" for l
  proof -
    from encodedAs_member [OF enc that] obtain p where p: "p \<in> set ps" "encodedAs E key l p" by blast
    then have "pTypeMap ps (pName p) = Some p"
      using assms(5) names by (intro pTypeMap_distinct) auto
    with p show ?thesis using encodedAs_name [OF p(2)] by auto
  qed
  with assms(4) show ?thesis
    by (intro unmarshalToType_leaves [OF assms(1-3)]) auto
qed

section \<open>Properties\<close>

lemma aeadCorrect_plainEnv [simp]: "aeadCorrect plainEnv"
  by (simp add: aeadCorrect_def)

lemma hexEncode_eq_Nil [simp]: "hexEncode s = [] \<longleftrightarrow> s = []"
  by (cases s) simp_all

lemma plainKey [simp]: 
  "aesKey (replicate 16 c)" "hexEncode (replicate 16 c) \<noteq> ''''"
  by (simp_all add: aesKey_def)

text \<open>
  C26: \<^verbatim>\<open>decrypt\<close> gives back what \<^verbatim>\<open>encrypt\<close> was given, for every key of the length \<^verbatim>\<open>Persistence.Init\<close>
  derives, and every encryption uses up one nonce and starts the text with it.
\<close>

theorem encrypt_decrypt:
  assumes "aeadCorrect E" and "length key = 16"
  shows "case encrypt E n (hexEncode key) plaintext of
    (m, c, err) \<Rightarrow> err = None \<and> m = Suc n \<and> take 24 c = hexEncode (nonceAt E n) \<and>
      decrypt E (hexEncode key) c = Ret (plaintext, None)"
proof -
  have key: "hexDecode (hexEncode key) = Some key" "aesKey key" "hexEncode key \<noteq> []"
    using assms(2) by (simp add: aesKey_def, simp add: aesKey_def, cases key) auto
  obtain m c err where e: "encrypt E n (hexEncode key) plaintext = (m, c, err)" by (metis prod_cases3)
  have "m = Suc n \<and> c = hexEncode (nonceAt E n) @ hexEncode (sealFn E key (nonceAt E n) plaintext)"
    using e key by (simp add: encrypt_def)
  moreover have "length (hexEncode (nonceAt E n)) = 24" using assms(1) by (simp add: aeadCorrect_def)
  ultimately show ?thesis
    using decrypt_encrypt_text [OF assms(1) key(1,2) e] e by simp
qed

theorem encrypt_decrypt_witness:
  "case encrypt plainEnv 3 (hexEncode (replicate 16 (CHR ''k''))) ''secret'' of
    (m, c, err) \<Rightarrow> err = None \<and> m = 4 \<and>
      decrypt plainEnv (hexEncode (replicate 16 (CHR ''k''))) c = Ret (''secret'', None)"
  using encrypt_decrypt [of plainEnv "replicate 16 (CHR ''k'')" 3 "''secret''"]
  by (simp split: prod.splits)

text \<open>
  Fields that share a name are not told apart when they are loaded. If the last stored entry with a
  name belongs to another struct, a field of that name keeps the value it has, although its own entry
  was stored too.
\<close>

theorem same_name_field_not_restored:
  assumes "p \<in> set ps" and "pName p = name" and "pTypeHierarchy p = h"
    and "pName q = name" and "pTypeHierarchy q \<noteq> h"
  shows "unmarshalField E key settable h (pTypeMap (ps @ [q])) name v = Ret v"
  using assms pTypeMap_last [of q "[]" ps] by (simp add: unmarshalField_def)

theorem same_name_field_not_restored_witness:
  "unmarshalToType plainEnv '''' False ''App''
     (pTypeMap (snd (marshalType plainEnv '''' ''App''
        [Field ''Count'' ''int'' (Some ''native'') True (VInt 64 5),
         StructField ''Inner'' ''Stats'' True False [Field ''Count'' ''int'' (Some ''native'') True (VInt 64 7)]]
        (0, []))))
     [Field ''Count'' ''int'' (Some ''native'') True (VInt 64 0)] =
   ([Field ''Count'' ''int'' (Some ''native'') True (VInt 64 0)], False)"
proof -
  let ?p = "\<lparr>pName = ''Count'', pTypeHierarchy = ''App'', pValue = PText ''5'', pIsEncrypted = False\<rparr>"
  let ?q = "\<lparr>pName = ''Count'', pTypeHierarchy = ''App.Stats'', pValue = PText ''7'', pIsEncrypted = False\<rparr>"
  have "formatInt 5 = ''5''" "formatInt 7 = ''7''"
    by code_simp+
  then have m: "snd (marshalType plainEnv '''' ''App''
        [Field ''Count'' ''int'' (Some ''native'') True (VInt 64 5),
         StructField ''Inner'' ''Stats'' True False [Field ''Count'' ''int'' (Some ''native'') True (VInt 64 7)]]
        (0, [])) = [?p] @ [?q]"
    by (simp add: marshalField_def Let_def)
  have "unmarshalField plainEnv '''' True ''App'' (pTypeMap ([?p] @ [?q])) ''Count'' (VInt 64 0) = Ret (VInt 64 0)"
    by (rule same_name_field_not_restored [of ?p]) simp_all
  then show ?thesis unfolding m by simp
qed

text \<open>
  A string field with the directive \<^verbatim>\<open>encrypt\<close> that was empty comes back as the cipher text: the
  decrypted text is used only if it is not empty.
\<close>

theorem empty_encrypted_string_restored_as_cipher:
  assumes "aeadCorrect E" and "length key = 16"
  shows "\<exists>c. c \<noteq> '''' \<and> storedText E (hexEncode key)
      (snd (marshalField E (hexEncode key) h n name ''encrypt'' (VString ''''))) = Ret c"
proof -
  have key: "hexDecode (hexEncode key) = Some key" "aesKey key" "hexEncode key \<noteq> []"
    using assms(2) by (simp add: aesKey_def, simp add: aesKey_def, cases key) auto
  let ?c = "hexEncode (nonceAt E n) @ hexEncode (sealFn E key (nonceAt E n) '''')"
  have e: "encrypt E n (hexEncode key) '''' = (Suc n, ?c, None)" using key by (simp add: encrypt_def)
  have "decrypt E (hexEncode key) ?c = Ret ('''', None)"
    using decrypt_encrypt_text [OF assms(1) key(1,2) e] by simp
  moreover have "length ?c \<ge> 24" using assms(1) by (simp add: aeadCorrect_def)
  ultimately show ?thesis
    using e key(3) by (intro exI [of _ ?c]) (auto simp: marshalField_def storedText_def Let_def)
qed

theorem empty_encrypted_string_restored_as_cipher_witness:
  "\<exists>c. c \<noteq> '''' \<and> storedText plainEnv (hexEncode (replicate 16 (CHR ''k'')))
      (snd (marshalField plainEnv (hexEncode (replicate 16 (CHR ''k''))) ''App'' 0 ''ApiKey'' ''encrypt'' (VString ''''))) = Ret c"
  by (rule empty_encrypted_string_restored_as_cipher) simp_all

section \<open>The JSON text in between\<close>

text \<open>Fields whose names and values are valid UTF-8 survive the JSON form too.\<close>

definition utf8Leaf :: "leaf \<Rightarrow> bool" where
  "utf8Leaf l \<longleftrightarrow>
     (case l of (h, name, d, v) \<Rightarrow> validUtf8 h \<and> validUtf8 name \<and> validUtf8 (formatValue v))"

lemma byteOf_hexDigit: "d < 16 \<Longrightarrow> byteOf (hexDigit d) < 128"
  by (simp add: hexDigit_def)

lemma ascii_hexEncode: "ascii (hexEncode s)"
  by (induction s) (auto simp: ascii_def byteOf_hexDigit byteOf_div_16)

lemma textual_encodedAs:
  assumes "encodedAs E key l p" and "utf8Leaf l"
  shows "textual p"
proof -
  obtain h name d v where l: "l = (h, name, d, v)" by (metis prod_cases4)
  obtain n where p: "p = snd (marshalField E key h n name d v)"
    using assms(1) l by (auto simp: encodedAs_def)
  have utf: "validUtf8 h" "validUtf8 name" "validUtf8 (formatValue v)" using assms(2) l by (auto simp: utf8Leaf_def)
  obtain m s e where enc: "encrypt E n key (formatValue v) = (m, s, e)" by (metis prod_cases3)
  have "validUtf8 (hexEncode a @ hexEncode b)" for a b
    using ascii_hexEncode [of "a @ b"] by (intro validUtf8_ascii) simp
  then have "validUtf8 s"
    using enc utf(3) by (auto simp: encrypt_def split: if_splits option.splits)
  then show ?thesis
    using utf enc by (auto simp: p marshalField_def textual_def Let_def)
qed

lemma textualDoc_marshal:
  assumes "marshalType E key h fs (n, []) = (m, ps)" and "\<forall>l \<in> set (leaves h fs). utf8Leaf l"
  shows "\<forall>p \<in> set ps. textual p"
proof -
  have "list_all2 (encodedAs E key) (leaves h fs) ps"
    using marshalType_leaves [of E key h fs "(n, [])"] assms(1) by auto
  then show ?thesis
    using assms(2) textual_encodedAs by (induction rule: list_all2_induct) auto
qed

end
