(* ===== verification/Simple_File_Db.thy ===== *)
theory Simple_File_Db
  imports Persist_Roundtrip
begin

text \<open>
  addons/simplefileDb.go: a document store that keeps one file per collection in a directory. The
  file system is a map from canonical paths (lists of names) to directories and files, with the path
  walk and the errors of the operating system calls the code makes. The store is stated as an
  interface (\<open>document_store\<close>), which the container's persistence relies on.
\<close>

section \<open>File system\<close>

datatype fnode = DirN | FileN string

type_synonym disk = "string list \<rightharpoonup> fnode"

text \<open>Where a walk along a path ends.\<close>

datatype walkResult =
    Found "string list" fnode           \<comment> \<open>the path exists\<close>
  | AbsentIn "string list" string       \<comment> \<open>only the last name is missing in an existing directory\<close>
  | NoEntry                             \<comment> \<open>ENOENT further up\<close>
  | NotADirectory                       \<comment> \<open>ENOTDIR\<close>

fun splitSlash :: "string \<Rightarrow> string list" where
  "splitSlash [] = [[]]"
| "splitSlash (c # cs) =
     (if c = CHR ''/'' then [] # splitSlash cs
      else (case splitSlash cs of [] \<Rightarrow> [[c]] | p # ps \<Rightarrow> (c # p) # ps))"

fun walk :: "disk \<Rightarrow> string list \<Rightarrow> string list \<Rightarrow> walkResult" where
  "walk D cur [] = (case D cur of None \<Rightarrow> NoEntry | Some n \<Rightarrow> Found cur n)"
| "walk D cur (c # cs) =
     (case D cur of
        None \<Rightarrow> NoEntry
      | Some (FileN _) \<Rightarrow> NotADirectory
      | Some DirN \<Rightarrow>
          if c = '''' \<or> c = ''.'' then walk D cur cs
          else if c = ''..'' then walk D (butlast cur) cs
          else if D (cur @ [c]) = None
          then (if cs = [] then AbsentIn cur c else NoEntry)
          else walk D (cur @ [c]) cs)"

definition walkPath :: "disk \<Rightarrow> string \<Rightarrow> walkResult" where
  "walkPath D path = (if path = '''' then NoEntry else walk D [] (splitSlash path))"

text \<open>\<^verbatim>\<open>os.MkdirAll\<close>: the directories made before an error stay.\<close>

fun mkdirWalk :: "disk \<Rightarrow> string list \<Rightarrow> string list \<Rightarrow> disk \<times> bool" where
  "mkdirWalk D cur [] = (D, D cur = Some DirN)"
| "mkdirWalk D cur (c # cs) =
     (case D cur of
        Some DirN \<Rightarrow>
          if c = '''' \<or> c = ''.'' then mkdirWalk D cur cs
          else if c = ''..'' then mkdirWalk D (butlast cur) cs
          else if D (cur @ [c]) = None then mkdirWalk (D(cur @ [c] \<mapsto> DirN)) (cur @ [c]) cs
          else mkdirWalk D (cur @ [c]) cs
      | _ \<Rightarrow> (D, False))"

definition mkdirAll :: "disk \<Rightarrow> string \<Rightarrow> disk \<times> bool" where
  "mkdirAll D path = (if path = '''' then (D, False) else mkdirWalk D [] (splitSlash path))"

text \<open>\<^verbatim>\<open>os.Create\<close> followed by writing the whole content.\<close>

definition writeFile :: "disk \<Rightarrow> string \<Rightarrow> string \<Rightarrow> disk \<times> kerror option" where
  "writeFile D path content =
     (case walkPath D path of
        Found p (FileN _) \<Rightarrow> (D(p \<mapsto> FileN content), None)
      | AbsentIn d c \<Rightarrow> (D(d @ [c] \<mapsto> FileN content), None)
      | _ \<Rightarrow> (D, Some (FileError path)))"

section \<open>The store\<close>

text \<open>
  The field \<^verbatim>\<open>db\<close> is the opened directory: its name and whether it has been closed; \<open>None\<close> is the nil
  file, whose \<^verbatim>\<open>Name\<close> panics.
\<close>

type_synonym dbFile = "(string \<times> bool) option"

definition filePrefix :: string where "filePrefix = ''file://''"

definition Connect :: "iface list \<Rightarrow> dbFile \<times> disk \<Rightarrow> (dbFile \<times> disk) \<times> kerror option" where
  "Connect options st =
     (case options of
        [] \<Rightarrow> (st, Some ConnOptionsMissing)
      | StringI connString # _ \<Rightarrow>
          if \<not> hasPrefix connString filePrefix then (st, Some ConnStringPrefix)
          else
            (let dbPath = drop (length filePrefix) connString; D = snd st
             in case walkPath D dbPath of
                  Found p (FileN _) \<Rightarrow> ((Some (dbPath, False), D), None)
                | Found p DirN \<Rightarrow> ((Some (dbPath, False), D), None)
                | NotADirectory \<Rightarrow> ((None, D), Some (FileError dbPath))
                | _ \<Rightarrow>
                    (let (D', ok) = mkdirAll D dbPath
                     in if ok then ((Some (dbPath, False), D'), None)
                        else ((None, D'), Some (FileError dbPath))))
      | _ # _ \<Rightarrow> (st, Some ConnStringNotText))"

definition Disconnect :: "dbFile \<Rightarrow> dbFile \<times> kerror option" where
  "Disconnect db =
     (case db of
        None \<Rightarrow> (None, None)
      | Some (name, closed) \<Rightarrow> if closed then (db, Some (FileError name)) else (Some (name, True), None))"

definition collFilePath :: "string \<Rightarrow> string \<Rightarrow> string" where
  "collFilePath name collection = name @ ''/'' @ collection"

definition Update :: "dbFile \<Rightarrow> string \<Rightarrow> ptype list \<Rightarrow> disk \<Rightarrow> (disk \<times> kerror option) outcome" where
  "Update db collection update D =
     (case db of
        None \<Rightarrow> Panics
      | Some (name, _) \<Rightarrow> Ret (writeFile D (collFilePath name collection) (marshalPTypes update)))"

text \<open>\<^verbatim>\<open>FindOne\<close> leaves \<open>result\<close> (nil) as it is when the file does not exist.\<close>

definition FindOne :: "dbFile \<Rightarrow> string \<Rightarrow> disk \<Rightarrow> (ptype list \<times> kerror option) outcome" where
  "FindOne db collection D =
     (case db of
        None \<Rightarrow> Panics
      | Some (name, _) \<Rightarrow>
          Ret (case walkPath D (collFilePath name collection) of
                 AbsentIn _ _ \<Rightarrow> ([], None)
               | NoEntry \<Rightarrow> ([], None)
               | Found p (FileN content) \<Rightarrow>
                   (case unmarshalPTypes content of
                      None \<Rightarrow> ([], Some (FileError (collFilePath name collection)))
                    | Some ps \<Rightarrow> (ps, None))
               | _ \<Rightarrow> ([], Some (FileError (collFilePath name collection)))))"

section \<open>Walking to a collection\<close>

lemma splitSlash_not_Nil [simp]: "splitSlash s \<noteq> []"
  by (induction s) (auto split: list.split)

lemma splitSlash_no_slash: "CHR ''/'' \<notin> set s \<Longrightarrow> splitSlash s = [s]"
  by (induction s) auto

lemma splitSlash_append: "splitSlash (s @ CHR ''/'' # t) = splitSlash s @ splitSlash t"
proof (induction s)
  case (Cons c cs)
  then show ?case by (cases "splitSlash cs") auto
qed simp

text \<open>A directory the walk has found can be walked on from.\<close>

lemma walk_append:
  "walk D cur ps = Found p DirN \<Longrightarrow> walk D cur (ps @ qs) = walk D p qs"
proof (induction D cur ps rule: walk.induct)
  case (2 D cur c cs)
  then have dir: "D cur = Some DirN" by (simp split: option.splits fnode.splits)
  consider "c = '''' \<or> c = ''.''" | "c \<noteq> ''''" "c \<noteq> ''.''" "c = ''..''"
    | "c \<noteq> ''''" "c \<noteq> ''.''" "c \<noteq> ''..''" "D (cur @ [c]) \<noteq> None"
    using "2.prems" dir by (fastforce split: if_splits)
  then show ?case
    using "2.IH" "2.prems" dir by cases auto
qed (simp split: option.splits)

lemma walk_Found: "walk D cur ps = Found p n \<Longrightarrow> D p = Some n"
proof (induction D cur ps rule: walk.induct)
  case (2 D cur c cs)
  then have dir: "D cur = Some DirN" by (simp split: option.splits fnode.splits)
  consider "c = '''' \<or> c = ''.''" | "c \<noteq> ''''" "c \<noteq> ''.''" "c = ''..''"
    | "c \<noteq> ''''" "c \<noteq> ''.''" "c \<noteq> ''..''" "D (cur @ [c]) \<noteq> None"
    using "2.prems" dir by (fastforce split: if_splits)
  then show ?case
    using "2.IH" "2.prems" dir by cases simp_all
qed (auto split: option.splits)

definition plainName :: "string \<Rightarrow> bool" where
  "plainName c \<longleftrightarrow> c \<noteq> '''' \<and> c \<noteq> ''.'' \<and> c \<noteq> ''..'' \<and> CHR ''/'' \<notin> set c"

definition openDir :: "disk \<Rightarrow> dbFile \<Rightarrow> string list \<Rightarrow> bool" where
  "openDir D db p \<longleftrightarrow> (\<exists>name closed. db = Some (name, closed) \<and> walkPath D name = Found p DirN)"

lemma walkPath_collection:
  assumes "walkPath D name = Found p DirN" and "plainName c"
  shows "walkPath D (collFilePath name c) =
    (case D (p @ [c]) of None \<Rightarrow> AbsentIn p c | Some n \<Rightarrow> Found (p @ [c]) n)"
proof -
  have w: "walk D [] (splitSlash name) = Found p DirN" and ne: "name \<noteq> ''''"
    using assms(1) by (auto simp: walkPath_def split: if_splits)
  have D: "D p = Some DirN" by (rule walk_Found [OF w])
  have "splitSlash (collFilePath name c) = splitSlash name @ [c]"
    using assms(2) by (simp add: collFilePath_def splitSlash_append splitSlash_no_slash plainName_def)
  then show ?thesis
    using assms(2) ne walk_append [OF w, of "[c]"] D
    by (auto simp: walkPath_def collFilePath_def plainName_def split: option.split)
qed

text \<open>Writing a file keeps every directory, so paths keep leading where they led.\<close>

lemma walk_file_update:
  assumes "D q \<noteq> Some DirN" and "walk D cur ps = Found p DirN"
  shows "walk (D(q \<mapsto> FileN s)) cur ps = Found p DirN"
  using assms
proof (induction D cur ps rule: walk.induct)
  case (2 D cur c cs)
  then have dir: "D cur = Some DirN" by (simp split: option.splits fnode.splits)
  with "2.prems"(1) have dir': "(D(q \<mapsto> FileN s)) cur = Some DirN" by auto
  consider "c = '''' \<or> c = ''.''" | "c \<noteq> ''''" "c \<noteq> ''.''" "c = ''..''"
    | "c \<noteq> ''''" "c \<noteq> ''.''" "c \<noteq> ''..''" "D (cur @ [c]) \<noteq> None"
    using "2.prems"(2) dir by (fastforce split: if_splits)
  then show ?case
    using "2.IH" "2.prems" dir dir' by cases (simp_all del: fun_upd_apply, simp)
qed (auto split: option.splits)

section \<open>The store as an interface\<close>

text \<open>
  What a client of a \<^verbatim>\<open>NoSQLDB\<close> relies on: an update of a collection is read back, leaves the other
  collections alone, and keeps the store usable.
\<close>

locale document_store =
  fixes update :: "'c \<Rightarrow> 'v \<Rightarrow> 'd \<Rightarrow> ('d \<times> 'e option) outcome"
    and find_one :: "'c \<Rightarrow> 'd \<Rightarrow> ('v \<times> 'e option) outcome"
    and ready :: "'d \<Rightarrow> bool" and coll :: "'c \<Rightarrow> bool" and doc :: "'v \<Rightarrow> bool"
  assumes update_ready: "ready d \<Longrightarrow> coll c \<Longrightarrow> \<exists>d'. update c v d = Ret (d', None) \<and> ready d'"
    and find_updated: 
      "ready d \<Longrightarrow> coll c \<Longrightarrow> doc v \<Longrightarrow> update c v d = Ret (d', None) \<Longrightarrow> find_one c d' = Ret (v, None)"
    and find_other: 
      "ready d \<Longrightarrow> coll c \<Longrightarrow> coll c' \<Longrightarrow> c \<noteq> c' \<Longrightarrow> update c v d = Ret (d', None) \<Longrightarrow>
       find_one c' d' = find_one c' d"
begin

text \<open>Updates one after the other, stopping at the first that fails.\<close>

lemma update_keeps_ready: "ready d \<Longrightarrow> coll c \<Longrightarrow> update c v d = Ret (d', e) \<Longrightarrow> ready d' \<and> e = None"
  using update_ready [of d c v] by auto

lemma last_write_wins:
  assumes "ready d" and "coll c" and "doc w"
    and "update c v d = Ret (d1, e1)" and "update c w d1 = Ret (d2, e2)"
  shows "find_one c d2 = Ret (w, None)"
  using assms update_keeps_ready find_updated by metis

lemma survives_other_writes:
  assumes "ready d" and "coll c" and "doc v" and "update c v d = Ret (d0, e0)"
    and "\<forall>(k, w) \<in> set us. coll k \<and> k \<noteq> c"
    and "foldl (\<lambda>r (k, w). bindO r (\<lambda>(x, e). update k w x)) (Ret (d0, None)) us = Ret (d', e')"
  shows "find_one c d' = Ret (v, None)"
proof -
  have inv: "ready x \<Longrightarrow> find_one c x = Ret (v, None) \<Longrightarrow>
      foldl (\<lambda>r (k, w). bindO r (\<lambda>(x, e). update k w x)) (Ret (x, e)) us = Ret (d', e') \<Longrightarrow>
      find_one c d' = Ret (v, None)" for x e
    using assms(5)
  proof (induction us arbitrary: x e)
    case (Cons u us)
    obtain k w where u: "u = (k, w)" by fastforce
    with Cons.prems have kc: "coll k" "k \<noteq> c" by auto
    obtain y where y: "update k w x = Ret (y, None)" "ready y"
      using update_ready [OF Cons.prems(1) kc(1)] by blast
    have "find_one c y = Ret (v, None)"
      using find_other [OF Cons.prems(1) kc(1) assms(2) kc(2) y(1)] Cons.prems(2) by simp
    then show ?case
      using Cons.IH [OF y(2)] Cons.prems(3,4) by (simp add: u y)
  qed simp
  show ?thesis
    using inv [of d0 None] assms update_keeps_ready find_updated by metis
qed

end

text \<open>
  The file store is ready when its directory is open and no collection name is taken by a
  subdirectory.
\<close>

definition storeReady :: "dbFile \<times> disk \<Rightarrow> bool" where
  "storeReady d \<longleftrightarrow>
     (\<exists>name closed p. fst d = Some (name, closed) \<and> walkPath (snd d) name = Found p DirN \<and>
        (\<forall>c. snd d (p @ [c]) \<noteq> Some DirN))"

definition storeUpdate :: "string \<Rightarrow> ptype list \<Rightarrow> dbFile \<times> disk \<Rightarrow> ((dbFile \<times> disk) \<times> kerror option) outcome" where
  "storeUpdate c v d = bindO (Update (fst d) c v (snd d)) (\<lambda>(D, e). Ret ((fst d, D), e))"

definition storeFind :: "string \<Rightarrow> dbFile \<times> disk \<Rightarrow> (ptype list \<times> kerror option) outcome" where
  "storeFind c d = FindOne (fst d) c (snd d)"

definition textualDoc :: "ptype list \<Rightarrow> bool" where
  "textualDoc ps \<longleftrightarrow> (\<forall>p \<in> set ps. textual p)"

lemma storeUpdate_ready:
  assumes "walkPath D name = Found p DirN" and "\<forall>c. D (p @ [c]) \<noteq> Some DirN" and "plainName c"
  shows "storeUpdate c v (Some (name, closed), D) =
    Ret ((Some (name, closed), D(p @ [c] \<mapsto> FileN (marshalPTypes v))), None)"
  using assms(2) walkPath_collection [OF assms(1,3)]
  by (auto simp: storeUpdate_def Update_def writeFile_def split: option.splits fnode.splits)

lemma walkPath_update:
  assumes "walkPath D name = Found p DirN" and "D q \<noteq> Some DirN"
  shows "walkPath (D(q \<mapsto> FileN s)) name = Found p DirN"
  using assms walk_file_update [of D q "[]" _ p s] by (auto simp: walkPath_def split: if_splits)

lemma storeFind_collection:
  assumes "walkPath D name = Found p DirN" and "plainName c"
  shows "storeFind c (Some (name, closed), D) =
    (case D (p @ [c]) of
       None \<Rightarrow> Ret ([], None)
     | Some DirN \<Rightarrow> Ret ([], Some (FileError (collFilePath name c)))
     | Some (FileN s) \<Rightarrow>
         (case unmarshalPTypes s of
            None \<Rightarrow> Ret ([], Some (FileError (collFilePath name c)))
          | Some ps \<Rightarrow> Ret (ps, None)))"
  by (simp add: storeFind_def FindOne_def walkPath_collection [OF assms] split: option.split fnode.split)

interpretation fileStore: document_store storeUpdate storeFind storeReady plainName textualDoc
proof
  fix d c v
  assume "storeReady d" "plainName c"
  then obtain name closed p D where d: "d = (Some (name, closed), D)" "walkPath D name = Found p DirN"
    "\<forall>c. D (p @ [c]) \<noteq> Some DirN"
    by (cases d) (auto simp: storeReady_def)
  let ?D = "D(p @ [c] \<mapsto> FileN (marshalPTypes v))"
  have "storeReady (Some (name, closed), ?D)"
    using d walkPath_update [OF d(2)] by (auto simp: storeReady_def)
  then show "\<exists>d'. storeUpdate c v d = Ret (d', None) \<and> storeReady d'"
    using storeUpdate_ready [OF d(2,3) \<open>plainName c\<close>] d(1) by auto
next
  fix d c v d'
  assume "storeReady d" "plainName c" "textualDoc v" "storeUpdate c v d = Ret (d', None)"
  then obtain name closed p D where d: "d = (Some (name, closed), D)" "walkPath D name = Found p DirN"
    "\<forall>c. D (p @ [c]) \<noteq> Some DirN"
    by (cases d) (auto simp: storeReady_def)
  have d': "d' = (Some (name, closed), D(p @ [c] \<mapsto> FileN (marshalPTypes v)))"
    using storeUpdate_ready [OF d(2,3) \<open>plainName c\<close>, of v closed] \<open>storeUpdate c v d = Ret (d', None)\<close> d(1)
    by simp
  have "walkPath (D(p @ [c] \<mapsto> FileN (marshalPTypes v))) name = Found p DirN"
    using walkPath_update [OF d(2)] d(3) by blast
  then show "storeFind c d' = Ret (v, None)"
    using storeFind_collection \<open>plainName c\<close> unmarshal_marshal_PTypes \<open>textualDoc v\<close>
    by (simp add: d' textualDoc_def)
next
  fix d c c' v d'
  assume a: "storeReady d" "plainName c" "plainName c'" "c \<noteq> c'" "storeUpdate c v d = Ret (d', None)"
  then obtain name closed p D where d: "d = (Some (name, closed), D)" "walkPath D name = Found p DirN"
    "\<forall>c. D (p @ [c]) \<noteq> Some DirN"
    by (cases d) (auto simp: storeReady_def)
  have d': "d' = (Some (name, closed), D(p @ [c] \<mapsto> FileN (marshalPTypes v)))"
    using storeUpdate_ready [OF d(2,3) a(2), of v closed] a(5) d(1) by simp
  have "walkPath (D(p @ [c] \<mapsto> FileN (marshalPTypes v))) name = Found p DirN"
    using walkPath_update [OF d(2)] d(3) by blast
  then show "storeFind c' d' = storeFind c' d"
    using storeFind_collection [OF _ a(3)] d(2) a(4) by (simp add: d' d(1))
qed

section \<open>Properties\<close>

text \<open>
  C23: what \<^verbatim>\<open>Update\<close> wrote under a collection is what \<^verbatim>\<open>FindOne\<close> reads from it, after any number of
  updates of other collections: the JSON text in between loses nothing, and the files do not interfere.
\<close>

theorem file_db_reads_back:
  assumes "storeReady d" and "plainName c" and "textualDoc v" and "storeUpdate c v d = Ret (d0, e0)"
    and "\<forall>(k, w) \<in> set us. plainName k \<and> k \<noteq> c"
    and "foldl (\<lambda>r (k, w). bindO r (\<lambda>(x, e). storeUpdate k w x)) (Ret (d0, None)) us = Ret (d1, e1)"
  shows "storeFind c d1 = Ret (v, None)"
  using assms by (rule fileStore.survives_other_writes)

definition sampleDisk :: disk where
  "sampleDisk = (\<lambda>p. if p = [] \<or> p = [''db''] then Some DirN else None)"

lemma sample_ready: "storeReady (Some (''/db'', False), sampleDisk)"
proof -
  have "walkPath sampleDisk ''/db'' = Found [''db''] DirN"
    by (simp add: walkPath_def sampleDisk_def)
  moreover have "\<forall>c. sampleDisk ([''db''] @ [c]) \<noteq> Some DirN" by (simp add: sampleDisk_def)
  ultimately show ?thesis by (auto simp: storeReady_def)
qed

definition sampleDoc :: "string \<Rightarrow> string \<Rightarrow> ptype list" where
  "sampleDoc h v = [\<lparr>pName = ''Runs'', pTypeHierarchy = h, pValue = PText v, pIsEncrypted = False\<rparr>,
     \<lparr>pName = ''Key'', pTypeHierarchy = h, pValue = PText ''ab12'', pIsEncrypted = True\<rparr>]"

theorem file_db_reads_back_witness:
  "\<exists>d0 d1. storeUpdate ''app'' (sampleDoc ''App'' ''3'') (Some (''/db'', False), sampleDisk) = Ret (d0, None) \<and>
     storeUpdate ''svc'' (sampleDoc ''Svc'' ''8'') d0 = Ret (d1, None) \<and>
     storeFind ''app'' d1 = Ret (sampleDoc ''App'' ''3'', None)"
proof -
  have n: "plainName ''app''" "plainName ''svc''" by (simp_all add: plainName_def)
  have "validUtf8 ''Runs''" "validUtf8 ''Key''" "validUtf8 ''App''" "validUtf8 ''3''" "validUtf8 ''ab12''"
    by (intro validUtf8_ascii, simp add: ascii_def byteOf_def)+
  then have doc: "textualDoc (sampleDoc ''App'' ''3'')"
    by (simp add: textualDoc_def textual_def sampleDoc_def)
  obtain d0 where 0: "storeUpdate ''app'' (sampleDoc ''App'' ''3'') (Some (''/db'', False), sampleDisk) = Ret (d0, None)" "storeReady d0"
    using fileStore.update_ready [OF sample_ready n(1)] by blast
  obtain d1 where 1: "storeUpdate ''svc'' (sampleDoc ''Svc'' ''8'') d0 = Ret (d1, None)"
    using fileStore.update_ready [OF 0(2) n(2)] by blast
  have "storeFind ''app'' d1 = Ret (sampleDoc ''App'' ''3'', None)"
    by (rule file_db_reads_back [OF sample_ready n(1) doc 0(1), of "[(''svc'', sampleDoc ''Svc'' ''8'')]" d1 None])
      (simp_all add: n 1)
  with 0 1 show ?thesis by blast
qed

end
