(* ===== verification/World.thy ===== *)
theory World
  imports Simple_Component Simple_File_Db
begin

text \<open>
  The process state: the components at their addresses, the package variables of container.go
  (\<^verbatim>\<open>rootContainer\<close>, \<^verbatim>\<open>topLevelComponents\<close>, \<^verbatim>\<open>addons\<close>), the goroutines the code has started, the disk,
  and the two \<^verbatim>\<open>sync.Once\<close> values of the singleton add-ons. \<open>tornDown\<close> and \<open>slept\<close> are ghost fields: the
  components in the order they were torn down, and the delays the state machine slept. A run of an operation ends with a value, with a panic (in the state
  it left), with the end of the process, or not at all.
\<close>

section \<open>State\<close>

text \<open>
  Goroutines: the multiplexer of a component (started by a container), the start of a component, its
  PreStart, the restart of a multiplexer that has ended, and the goroutine that restarts a component
  and is between its two calls of the state machine: the first, in which the delay is slept with the
  mutating lock held, is over, the second has yet to get the lock.
\<close>

datatype task =
    MmuxTask cid cid | StartTask cid cid | PreStartTask cid | RestartMmuxTask cid cid | ResumeTask cid cid int

record world =
  heap :: "cid \<Rightarrow> component"
  rootContainer :: "cid option"
  topLevelComponents :: "cid list"
  addons :: "cid list"
  tasks :: "task list"
  disk :: disk
  nonces :: nat
  runOncePersistence :: bool
  runOnceHttp :: bool
  tornDown :: "cid list"
  slept :: "int list"

text \<open>A process before \<^verbatim>\<open>init\<close>, with the given components.\<close>

definition worldOf :: "(cid \<Rightarrow> component) \<Rightarrow> world" where
  "worldOf h =
     \<lparr>heap = h, rootContainer = None, topLevelComponents = [], addons = [], tasks = [], disk = Map.empty,
      nonces = 0, runOncePersistence = False, runOnceHttp = False, tornDown = [], slept = []\<rparr>"

datatype 'a run = Done 'a world | Crash world | Exited | Stuck

fun runBind :: "'a run \<Rightarrow> ('a \<Rightarrow> world \<Rightarrow> 'b run) \<Rightarrow> 'b run" where
  "runBind (Done x w) f = f x w"
| "runBind (Crash w) f = Crash w"
| "runBind Exited f = Exited"
| "runBind Stuck f = Stuck"

lemma runBind_eq_Done [simp]: "runBind r f = Done y w' \<longleftrightarrow> (\<exists>x w. r = Done x w \<and> f x w = Done y w')"
  by (cases r) auto

lemma runBind_assoc: "runBind (runBind r f) g = runBind r (\<lambda>x w. runBind (f x w) g)"
  by (cases r) auto

section \<open>Reading and writing components\<close>

definition upd :: "cid \<Rightarrow> (component \<Rightarrow> component) \<Rightarrow> world \<Rightarrow> world" where
  "upd x f w = w\<lparr>heap := (heap w)(x := f (heap w x))\<rparr>"

text \<open>The container fields of an address; an address that holds no container has none of them set.\<close>

definition cpart :: "world \<Rightarrow> cid \<Rightarrow> containerPart" where
  "cpart w c = (case asContainer (heap w c) of None \<Rightarrow> emptyPart | Some k \<Rightarrow> k)"

definition updPart :: "cid \<Rightarrow> (containerPart \<Rightarrow> containerPart) \<Rightarrow> world \<Rightarrow> world" where
  "updPart c f w = upd c (\<lambda>d. d\<lparr>asContainer := map_option f (asContainer d)\<rparr>) w"

definition addTask :: "task \<Rightarrow> world \<Rightarrow> world" where
  "addTask t w = w\<lparr>tasks := tasks w @ [t]\<rparr>"

text \<open>Reading a Go map: a map that was never made has no entries.\<close>

definition mapGet :: "('k \<rightharpoonup> 'v) option \<Rightarrow> 'k \<Rightarrow> 'v option" where
  "mapGet m k = (case m of None \<Rightarrow> None | Some f \<Rightarrow> f k)"

lemma upd_sel [simp]:
  "heap (upd x f w) y = (if y = x then f (heap w x) else heap w y)"
  "rootContainer (upd x f w) = rootContainer w"
  "topLevelComponents (upd x f w) = topLevelComponents w" "addons (upd x f w) = addons w"
  "tasks (upd x f w) = tasks w" "disk (upd x f w) = disk w" "nonces (upd x f w) = nonces w"
  "runOncePersistence (upd x f w) = runOncePersistence w" "runOnceHttp (upd x f w) = runOnceHttp w"
  "tornDown (upd x f w) = tornDown w" "slept (upd x f w) = slept w"
  by (simp_all add: upd_def)

lemma updPart_sel [simp]:
  "rootContainer (updPart x f w) = rootContainer w"
  "topLevelComponents (updPart x f w) = topLevelComponents w" "addons (updPart x f w) = addons w"
  "tasks (updPart x f w) = tasks w" "disk (updPart x f w) = disk w" "nonces (updPart x f w) = nonces w"
  "runOncePersistence (updPart x f w) = runOncePersistence w"
  "runOnceHttp (updPart x f w) = runOnceHttp w" "tornDown (updPart x f w) = tornDown w"
  "slept (updPart x f w) = slept w"
  "heap (updPart x f w) y =
     (if y = x then (heap w x)\<lparr>asContainer := map_option f (asContainer (heap w x))\<rparr> else heap w y)"
  by (simp_all add: updPart_def)

lemma addTask_sel [simp]:
  "heap (addTask t w) = heap w" "rootContainer (addTask t w) = rootContainer w"
  "topLevelComponents (addTask t w) = topLevelComponents w" "addons (addTask t w) = addons w"
  "tasks (addTask t w) = tasks w @ [t]" "disk (addTask t w) = disk w" "nonces (addTask t w) = nonces w"
  "runOncePersistence (addTask t w) = runOncePersistence w" "runOnceHttp (addTask t w) = runOnceHttp w"
  "tornDown (addTask t w) = tornDown w" "slept (addTask t w) = slept w"
  by (simp_all add: addTask_def)

lemma cpart_upd_other [simp]: "c \<noteq> x \<Longrightarrow> cpart (upd x f w) c = cpart w c"
  by (simp add: cpart_def)

lemma cpart_addTask [simp]: "cpart (addTask t w) = cpart w"
  by (simp add: cpart_def fun_eq_iff)

lemma cpart_upd_same: "asContainer (f (heap w x)) = asContainer (heap w x) \<Longrightarrow> cpart (upd x f w) = cpart w"
  by (simp add: cpart_def fun_eq_iff)

lemma cpart_updPart [simp]:
  "asContainer (heap w c) \<noteq> None \<Longrightarrow>
     cpart (updPart c f w) y = (if y = c then f (cpart w c) else cpart w y)"
  by (auto simp: cpart_def)

end
