(* ===== verification/Container_Registry.thy ===== *)
theory Container_Registry
  imports World
begin

text \<open>
  The tables of a \<^verbatim>\<open>Container\<close> (container.go): name validation, the components by name and in order of
  activation, the HTTP handlers by URI, and the lookup of components and handlers. The URI of a
  component is built from the names on the way to the outermost container.
\<close>

section \<open>Names\<close>

definition allowedChar :: "char \<Rightarrow> bool" where
  "allowedChar c \<longleftrightarrow>
     (65 \<le> byteOf c \<and> byteOf c \<le> 90) \<or> (97 \<le> byteOf c \<and> byteOf c \<le> 122) \<or>
     (48 \<le> byteOf c \<and> byteOf c \<le> 57) \<or> c \<in> set ''.~_-''"

definition validateName :: "world \<Rightarrow> cid option \<Rightarrow> kerror option" where
  "validateName w arg =
     (case arg of
        None \<Rightarrow> Some NilComponent
      | Some x \<Rightarrow>
          if length (Name (heap w x)) \<le> 0 then Some EmptyName
          else if list_ex (\<lambda>c. \<not> allowedChar c) (Name (heap w x)) then Some (InvalidChars (Name (heap w x)))
          else None)"

text \<open>\<^verbatim>\<open>Matches\<close> compares addresses.\<close>

definition Matches :: "cid \<Rightarrow> cid \<Rightarrow> bool" where
  "Matches c x \<longleftrightarrow> c = x"

section \<open>URIs and handlers\<close>

text \<open>The walk to the outermost container; on a cyclic chain it does not return.\<close>

partial_function (option) containerPaths :: "world \<Rightarrow> cid option \<Rightarrow> string list \<Rightarrow> string list option" where
  "containerPaths w rootC paths =
     (case rootC of
        None \<Rightarrow> Some paths
      | Some c \<Rightarrow> containerPaths w (container (heap w c)) (paths @ [toLower (Name (heap w c))]))"

declare containerPaths.simps [code]

definition componentURI :: "string list \<Rightarrow> string \<Rightarrow> string" where
  "componentURI paths name = ''/'' @ concat (map (\<lambda>p. p @ ''/'') (rev paths)) @ toLower name"

text \<open>
  The handlers of a component, one per exported method with the signature of a HTTP handler, in the
  order of the methods; the map the code builds has the last of those with the same URI.
\<close>

definition methodURI :: "string \<Rightarrow> string \<Rightarrow> string" where
  "methodURI cURI methodName =
     (if methodName = ''ServeHTTP'' then cURI else cURI @ ''/'' @ toLower methodName)"

type_synonym handlers = "(string \<times> cid \<times> string) list"

definition handlersOf :: "cid \<Rightarrow> string \<Rightarrow> string list \<Rightarrow> handlers" where
  "handlersOf x cURI methods = map (\<lambda>mth. (methodURI cURI mth, x, mth)) methods"

definition deriveHttpHandlers :: "cid \<Rightarrow> world \<Rightarrow> handlers run" where
  "deriveHttpHandlers x w =
     (if isNonRestEntity (heap w x) then Done [] w
      else case containerPaths w (container (heap w x)) [] of
        None \<Rightarrow> Stuck
      | Some paths \<Rightarrow>
          (let cURI = componentURI paths (Name (heap w x));
               methods = httpMethods (heap w x)
           in Done (handlersOf x cURI methods)
                (if ''ServeHTTP'' \<in> set methods then upd x (\<lambda>d. d\<lparr>uri := cURI\<rparr>) w else w)))"

text \<open>
  \<^verbatim>\<open>toCanonical\<close>: handlers go to the root container. Writing them panics when there is no root
  container or its table was never made.
\<close>

definition addHandlers :: "handlers \<Rightarrow> (string \<rightharpoonup> cid \<times> string) \<Rightarrow> (string \<rightharpoonup> cid \<times> string)" where
  "addHandlers hs tbl = foldl (\<lambda>m (cURI, h). m(cURI \<mapsto> h)) tbl hs"

definition dropHandlers :: "handlers \<Rightarrow> (string \<rightharpoonup> cid \<times> string) \<Rightarrow> (string \<rightharpoonup> cid \<times> string)" where
  "dropHandlers hs tbl = foldl (\<lambda>m (cURI, h). m(cURI := None)) tbl hs"

definition setContainer :: "cid \<Rightarrow> component \<Rightarrow> component" where
  "setContainer c d = d\<lparr>container := Some c\<rparr>"

definition toCanonical :: "cid \<Rightarrow> cid \<Rightarrow> world \<Rightarrow> cComponent run" where
  "toCanonical c x w =
     (let w1 = (if \<not> Matches c x then upd x (setContainer c) w
                else w\<lparr>topLevelComponents := topLevelComponents w @ [x]\<rparr>);
          cc = \<lparr>cName = Name (heap w1 x), ccomp = Some x\<rparr>
      in runBind (deriveHttpHandlers x w1) (\<lambda>handlers w2.
           if handlers = [] then Done cc w2
           else case rootContainer w2 of
             None \<Rightarrow> Crash w2
           | Some r \<Rightarrow>
               (case cHandlers (cpart w2 r) of
                  None \<Rightarrow> Crash w2
                | Some tbl \<Rightarrow> Done cc (updPart r (\<lambda>k. k\<lparr>cHandlers := Some (addHandlers handlers tbl)\<rparr>) w2))))"

lemma addHandlers_map_of: "addHandlers hs tbl = tbl ++ map_of (rev hs)"
  by (induction hs arbitrary: tbl) (auto simp: addHandlers_def map_add_assoc)

lemma dropHandlers_apply: "dropHandlers hs tbl u = (if u \<in> fst ` set hs then None else tbl u)"
  by (induction hs arbitrary: tbl) (auto simp: dropHandlers_def)

text \<open>\<^verbatim>\<open>removeHttpHandlers\<close> deletes from the table of the container it is called on.\<close>

definition removeHttpHandlers :: "cid \<Rightarrow> cid \<Rightarrow> world \<Rightarrow> unit run" where
  "removeHttpHandlers c x w =
     runBind (deriveHttpHandlers x w) (\<lambda>handlers w1.
       Done () (updPart c (\<lambda>k. k\<lparr>cHandlers := map_option (dropHandlers handlers) (cHandlers k)\<rparr>) w1))"

text \<open>
  \<^verbatim>\<open>GetHttpHandler\<close>: the longest prefix of the URI, cut at slashes, that has a handler. Without a
  slash to cut at, the slice bound is -1.
\<close>

function findHandler :: "(string \<Rightarrow> 'h option) \<Rightarrow> string \<Rightarrow> 'h option outcome" where
  "findHandler tbl URI =
     (if 0 < length URI then
        (case tbl URI of
           Some h \<Rightarrow> Ret (Some h)
         | None \<Rightarrow>
             (let lastSeparatorIndx = lastIndex URI (CHR ''/'')
              in if lastSeparatorIndx < 0 then Panics
                 else findHandler tbl (take (nat lastSeparatorIndx) URI)))
      else Ret None)"
  by pat_completeness auto
termination
  by (relation "measure (\<lambda>(tbl, URI). length URI)")
    (auto simp: lastIndex_def dest: lastPos_less split: option.splits)

declare findHandler.simps [simp del]

definition GetHttpHandler :: "world \<Rightarrow> cid \<Rightarrow> string \<Rightarrow> (cid \<times> string) option outcome" where
  "GetHttpHandler w c URI = findHandler (mapGet (cHandlers (cpart w c))) URI"

section \<open>Components by name\<close>

definition GetComponent :: "world \<Rightarrow> cid \<Rightarrow> string \<Rightarrow> kerror + cid" where
  "GetComponent w c name =
     (case mapGet (cComponents (cpart w c)) name of
        None \<Rightarrow> Inl (ComponentNotFound name (Name (heap w c)))
      | Some cComp \<Rightarrow>
          (case ccomp cComp of None \<Rightarrow> Inl NoComponentType | Some x \<Rightarrow> Inr x))"

definition GetComponentCopy :: "env \<Rightarrow> world \<Rightarrow> cid \<Rightarrow> string \<Rightarrow> world \<times> (kerror + snapshot)" where
  "GetComponentCopy E w c name =
     (case GetComponent w c name of
        Inl err \<Rightarrow> (w, Inl err)
      | Inr x \<Rightarrow> (let (d, s) = createCopy E (heap w x) in (upd x (\<lambda>_. d) w, Inr s)))"

text \<open>\<^verbatim>\<open>removeComponent\<close>: out of the map, and the last occurrence out of the slice.\<close>

definition removeName :: "string \<Rightarrow> containerPart \<Rightarrow> containerPart" where
  "removeName name k =
     (let k1 = k\<lparr>cComponents := map_option (\<lambda>m. m(name := None)) (cComponents k)\<rparr>
      in case lastPos name (components k1) of
           None \<Rightarrow> k1
         | Some indx \<Rightarrow> k1\<lparr>components := removeAt indx (components k1)\<rparr>)"

definition removeComponent :: "cid \<Rightarrow> string \<Rightarrow> world \<Rightarrow> world" where
  "removeComponent c name w = updPart c (removeName name) w"

text \<open>
  The two statements of \<^verbatim>\<open>Add\<close> that enter an initialized component, after the check for the name.
\<close>

definition enterComponent :: "string \<Rightarrow> cComponent \<Rightarrow> containerPart \<Rightarrow> containerPart \<times> kerror option" where
  "enterComponent name cc k =
     (case mapGet (cComponents k) name of
        Some _ \<Rightarrow> (k, Some (AlreadyActivated name))
      | None \<Rightarrow>
          (k\<lparr>cComponents := Some ((case cComponents k of None \<Rightarrow> Map.empty | Some m \<Rightarrow> m)(name \<mapsto> cc)),
             components := components k @ [name]\<rparr>, None))"

section \<open>Well-formed tables\<close>

text \<open>
  The map and the slice name the same components, each once, and every entry is filed under its own
  name. A container whose maps were never made lists nothing.
\<close>

definition wfPart :: "containerPart \<Rightarrow> bool" where
  "wfPart k \<longleftrightarrow>
     distinct (components k) \<and>
     set (components k) = {n. mapGet (cComponents k) n \<noteq> None} \<and>
     (\<forall>n cc. mapGet (cComponents k) n = Some cc \<longrightarrow> cName cc = n \<and> ccomp cc \<noteq> None)"

lemma wfPart_removeName: "wfPart k \<Longrightarrow> wfPart (removeName name k)"
proof -
  assume wf: "wfPart k"
  have get: "mapGet (cComponents (removeName name k)) = (mapGet (cComponents k))(name := None)"
    by (auto simp: removeName_def Let_def mapGet_def fun_eq_iff split: option.split)
  show ?thesis
  proof (cases "lastPos name (components k)")
    case None
    then have "components (removeName name k) = components k"
      by (simp add: removeName_def Let_def del: lastPos_None_iff)
    with None wf get show ?thesis by (auto simp: wfPart_def)
  next
    case (Some i)
    then have i: "i < length (components k)" "components k ! i = name"
      by (simp_all add: lastPos_Some)
    have "components (removeName name k) = removeAt i (components k)"
      using Some by (simp add: removeName_def Let_def)
    with wf get i show ?thesis
      by (auto simp: wfPart_def distinct_removeAt set_removeAt_distinct)
  qed
qed

lemma wfPart_enterComponent: 
  "wfPart k \<Longrightarrow> cName cc = name \<Longrightarrow> ccomp cc \<noteq> None \<Longrightarrow> wfPart (fst (enterComponent name cc k))"
  by (auto simp: wfPart_def enterComponent_def mapGet_def split: option.splits)

lemma wfPart_emptyPart [simp]: "wfPart emptyPart"
  by (simp add: wfPart_def emptyPart_def mapGet_def)

interpretation parts: name_table "\<lambda>k n. mapGet (cComponents k) n" enterComponent removeName
  by unfold_locales
    (auto simp: enterComponent_def removeName_def mapGet_def Let_def fun_eq_iff split: option.split)

section \<open>Properties\<close>

text \<open>
  \<^verbatim>\<open>validateName\<close> accepts a component exactly when it is not nil and its name is not empty and
  has only letters, digits and the characters \<^verbatim>\<open>. ~ _ -\<close>; in particular no slash, so a name is one
  segment of a URI and one file of the database. The names \<^verbatim>\<open>.\<close> and \<^verbatim>\<open>..\<close> pass too, and with the
  first of them the component's own collection cannot be written: it is the directory.
\<close>

theorem validateName_accepts:
  "(validateName w arg = None \<longleftrightarrow>
     (case arg of None \<Rightarrow> False
      | Some x \<Rightarrow> Name (heap w x) \<noteq> '''' \<and> (\<forall>c \<in> set (Name (heap w x)). allowedChar c))) \<and>
   (\<forall>c. allowedChar c \<longrightarrow> c \<noteq> CHR ''/'') \<and> list_all allowedChar ''.'' \<and>
   (walkPath D name = Found p DirN \<longrightarrow>
      Update (Some (name, closed)) ''.'' v D = Ret (D, Some (FileError (name @ ''/.''))))"
proof (intro conjI impI)
  show "validateName w arg = None \<longleftrightarrow>
     (case arg of None \<Rightarrow> False
      | Some x \<Rightarrow> Name (heap w x) \<noteq> '''' \<and> (\<forall>c \<in> set (Name (heap w x)). allowedChar c))"
    by (auto simp: validateName_def list_ex_iff split: option.split)
  show "\<forall>c. allowedChar c \<longrightarrow> c \<noteq> CHR ''/''" by (auto simp: allowedChar_def byteOf_def)
  show "list_all allowedChar ''.''" by (simp add: allowedChar_def)
  assume w: "walkPath D name = Found p DirN"
  then have ne: "name \<noteq> ''''" and wk: "walk D [] (splitSlash name) = Found p DirN"
    by (auto simp: walkPath_def split: if_splits)
  have "D p = Some DirN" by (rule walk_Found [OF wk])
  then have "walkPath D (collFilePath name ''.'') = Found p DirN"
    using ne walk_append [OF wk, of "[''.'']"]
    by (simp add: walkPath_def collFilePath_def splitSlash_append)
  then show "Update (Some (name, closed)) ''.'' v D = Ret (D, Some (FileError (name @ ''/.'')))"
    by (simp add: Update_def writeFile_def collFilePath_def)
qed

theorem validateName_accepts_witness:
  "validateName (worldOf (\<lambda>x. newComponent x SimpleT ''.'' [] [])) (Some 0) = None \<and>
   Update (Some (''/db'', False)) ''.'' [] sampleDisk = Ret (sampleDisk, Some (FileError ''/db/.''))"
  using validateName_accepts [of "worldOf (\<lambda>x. newComponent x SimpleT ''.'' [] [])" "Some 0"
      sampleDisk "''/db''" "[''db'']" False "[]"]
  by (simp add: worldOf_def walkPath_def sampleDisk_def)

text \<open>
  A container's table of components: entering under a free name makes \<^verbatim>\<open>GetComponent\<close> find that
  component, lists it last, and changes no other lookup; a taken name is refused and nothing changes;
  removing the name gives the lookups from before.
\<close>

theorem component_table:
  assumes "wfPart k" and "cName cc = n" and "ccomp cc = Some x"
  shows "case enterComponent n cc k of (k1, err) \<Rightarrow>
    (err = None \<longleftrightarrow> mapGet (cComponents k) n = None) \<and>
    (err \<noteq> None \<longrightarrow> k1 = k) \<and>
    (err = None \<longrightarrow>
       mapGet (cComponents k1) = (mapGet (cComponents k))(n \<mapsto> cc) \<and>
       components k1 = components k @ [n] \<and>
       mapGet (cComponents (removeName n k1)) = mapGet (cComponents k) \<and>
       components (removeName n k1) = components k) \<and>
    wfPart k1 \<and> wfPart (removeName n k1)"
proof -
  obtain k1 err where e: "enterComponent n cc k = (k1, err)" by fastforce
  have iff: "err = None \<longleftrightarrow> mapGet (cComponents k) n = None"
    using parts.enter_succeeds_iff [of n cc k] e by simp
  have taken: "k1 = k" if "err \<noteq> None"
    using e that by (auto simp: enterComponent_def split: option.splits)
  have wf: "wfPart k1" "wfPart (removeName n k1)"
    using wfPart_enterComponent [OF assms(1,2)] wfPart_removeName assms(3) e by auto
  have new: "mapGet (cComponents k1) = (mapGet (cComponents k))(n \<mapsto> cc)"
      "components k1 = components k @ [n]"
      "mapGet (cComponents (removeName n k1)) = mapGet (cComponents k)" if "err = None"
    using parts.enter_new [of k n cc] parts.enter_delete_restores [of k n cc] e iff that
    by (auto simp: enterComponent_def split: option.splits)
  have "components (removeName n k1) = components k" if "err = None"
  proof -
    have "lastPos n (components k1) = Some (length (components k))"
      using new(2) [OF that] by (simp add: lastPos_append_notin)
    then show ?thesis
      using new(2) [OF that] removeAt_append [of "components k" n "[]"] by (simp add: removeName_def Let_def)
  qed
  then show ?thesis unfolding e prod.case using iff taken wf new by blast
qed

theorem component_table_witness:
  "components (fst (enterComponent ''a'' \<lparr>cName = ''a'', ccomp = Some 1\<rparr> emptyPart)) = [''a'']"
proof -
  have "mapGet (cComponents emptyPart) ''a'' = None" "components emptyPart = []"
    by (simp_all add: emptyPart_def mapGet_def)
  then show ?thesis
    using component_table [of emptyPart "\<lparr>cName = ''a'', ccomp = Some 1\<rparr>" "''a''" 1]
    by (cases "enterComponent ''a'' \<lparr>cName = ''a'', ccomp = Some 1\<rparr> emptyPart") simp
qed

text \<open>
  Handlers are entered into the table of the root container, but removed from the table of the
  container that stops the component: when that is another one, every handler stays in the root table
  and goes on serving requests for a component that is gone.
\<close>

theorem handlers_stay_in_root:
  assumes "removeHttpHandlers c x w = Done u w1" and "r \<noteq> c"
  shows "cHandlers (cpart w1 r) = cHandlers (cpart w r) \<and> GetHttpHandler w1 r URI = GetHttpHandler w r URI"
proof -
  obtain hs w2 where "deriveHttpHandlers x w = Done hs w2"
    and w1: "w1 = updPart c (\<lambda>k. k\<lparr>cHandlers := map_option (dropHandlers hs) (cHandlers k)\<rparr>) w2"
    using assms(1) by (auto simp: removeHttpHandlers_def)
  then have "cpart w2 r = cpart w r"
    by (auto simp: deriveHttpHandlers_def Let_def cpart_def split: if_splits option.splits)
  then have "cpart w1 r = cpart w r" using assms(2) by (simp add: w1 cpart_def)
  then show ?thesis by (simp add: GetHttpHandler_def)
qed

theorem handlers_stay_in_root_witness:
  "case removeHttpHandlers 1 2
      ((worldOf (\<lambda>x. newComponent x (if x = 2 then SimpleT else ContainerT) ''a'' [''ServeHTTP''] []))
        \<lparr>rootContainer := Some 0\<rparr>) of
    Done u w1 \<Rightarrow> cHandlers (cpart w1 0) = cHandlers emptyPart | _ \<Rightarrow> False"
proof -
  let ?w = "(worldOf (\<lambda>x. newComponent x (if x = 2 then SimpleT else ContainerT) ''a'' [''ServeHTTP''] []))
        \<lparr>rootContainer := Some 0\<rparr>"
  have "containerPaths ?w None [] = Some []" by (subst containerPaths.simps) simp
  then obtain u w1 where r: "removeHttpHandlers 1 2 ?w = Done u w1"
    by (simp add: removeHttpHandlers_def deriveHttpHandlers_def worldOf_def Let_def)
  have "cHandlers (cpart w1 0) = cHandlers (cpart ?w 0)"
    using handlers_stay_in_root [OF r, of 0] by simp
  also have "\<dots> = cHandlers emptyPart" by (simp add: cpart_def worldOf_def newComponent_def)
  finally show ?thesis unfolding r by simp
qed

text \<open>
  URIs are lower case while names are not: two components of a container whose names differ in case
  only get the same URI, and the one activated later takes the other's handlers over.
\<close>

theorem case_collision_takes_over:
  assumes "toLower n = toLower m" and "mth \<in> set ms"
  shows "componentURI paths n = componentURI paths m \<and>
    (\<exists>mth2. addHandlers (handlersOf y (componentURI paths m) ms)
        (addHandlers (handlersOf x (componentURI paths n) ns) tbl)
        (methodURI (componentURI paths n) mth) = Some (y, mth2))"
proof -
  let ?hs = "handlersOf y (componentURI paths m) ms"
  let ?u = "methodURI (componentURI paths m) mth"
  have eq: "componentURI paths n = componentURI paths m" using assms(1) by (simp add: componentURI_def)
  have "?u \<in> fst ` set (rev ?hs)" using assms(2) by (force simp: handlersOf_def)
  then obtain v where v: "map_of (rev ?hs) ?u = Some v"
    by (metis map_of_eq_None_iff not_None_eq)
  then have "(?u, v) \<in> set ?hs" by (metis map_of_SomeD set_rev)
  then obtain mth2 where "v = (y, mth2)" by (auto simp: handlersOf_def)
  with v eq show ?thesis by (simp add: addHandlers_map_of map_add_def)
qed

theorem case_collision_takes_over_witness:
  "addHandlers (handlersOf 2 (componentURI [''app''] ''Svc'') [''ServeHTTP''])
     (addHandlers (handlersOf 1 (componentURI [''app''] ''svc'') [''ServeHTTP'']) Map.empty) ''/app/svc''
   \<noteq> Some (1, ''ServeHTTP'')"
proof -
  have "toLower ''svc'' = toLower ''Svc''" "componentURI [''app''] ''svc'' = ''/app/svc''"
    by code_simp+
  then show ?thesis
    using case_collision_takes_over [of "''svc''" "''Svc''" "''ServeHTTP''" "[''ServeHTTP'']" "[''app'']" 2 1
        "[''ServeHTTP'']" Map.empty]
    by (auto simp: methodURI_def)
qed

end
