(* ===== verification/Component_Methods.thy ===== *)
theory Component_Methods
  imports Container_Registry
begin

text \<open>
  The overridable methods of a component (\<^verbatim>\<open>Init\<close>, \<^verbatim>\<open>PostInit\<close>, \<^verbatim>\<open>Stop\<close>, ...), dispatched on its
  concrete type: the ones in the repository (\<^verbatim>\<open>Container\<close>, \<^verbatim>\<open>App\<close>, \<^verbatim>\<open>Persistence\<close>,
  \<^verbatim>\<open>HttpServer\<close>) are translated, an application's own are given by the environment; and the
  container's \<^verbatim>\<open>persist\<close> and \<^verbatim>\<open>load\<close>, which every lifecycle step calls.
\<close>

section \<open>Persisting and loading a component\<close>

definition persistenceOf :: "world \<Rightarrow> cid \<Rightarrow> persistencePart" where
  "persistenceOf w p =
     (case asPersistence (heap w p) of
        None \<Rightarrow> \<lparr>dbHandle = None, symmetricEncryptKey = None\<rparr> | Some k \<Rightarrow> k)"

text \<open>
  \<^verbatim>\<open>persistable\<close> collects the tagged fields. \<^verbatim>\<open>persist\<close>: nothing is written when nothing is tagged or when the encoded fields equal the cached
  ones; the cache is set before the database is asked to write. The type assertion on the key panics
  when it was never set.
\<close>

definition persistable :: "env \<Rightarrow> string \<Rightarrow> component \<Rightarrow> nat \<Rightarrow> nat \<times> ptype list" where
  "persistable E encryptKey d n = marshalType E encryptKey (typeName (gotype d)) (userFields d) (n, [])"

definition persist :: "env \<Rightarrow> cid \<Rightarrow> cid \<Rightarrow> world \<Rightarrow> kerror option run" where
  "persist E c x w =
     (case persistence (cpart w c) of
        None \<Rightarrow> Done (Some (NoPersistence (Name (heap w c)))) w
      | Some p \<Rightarrow>
          (case symmetricEncryptKey (persistenceOf w p) of
             None \<Rightarrow> Crash w
           | Some key \<Rightarrow>
               (let (n, pTypes) = persistable E key (heap w x) (nonces w);
                    w1 = w\<lparr>nonces := n\<rparr>;
                    pTypesBytes = marshalPTypes pTypes
                in if pTypes = [] then Done None w1
                   else if persistanceCache (heap w1 x) = Some pTypesBytes then Done None w1
                   else let w2 = upd x (\<lambda>d. d\<lparr>persistanceCache := Some pTypesBytes\<rparr>) w1
                        in case Update (dbHandle (persistenceOf w2 p)) (Name (heap w2 x)) pTypes (disk w2) of
                             Ret (D, err) \<Rightarrow> Done err (w2\<lparr>disk := D\<rparr>)
                           | _ \<Rightarrow> Crash w2)))"

definition load :: "env \<Rightarrow> cid \<Rightarrow> cid \<Rightarrow> world \<Rightarrow> kerror option run" where
  "load E c x w =
     (case persistence (cpart w c) of
        None \<Rightarrow> Done (Some (NoPersistence (Name (heap w c)))) w
      | Some p \<Rightarrow>
          (case FindOne (dbHandle (persistenceOf w p)) (Name (heap w x)) (disk w) of
             Ret (pTypes, err) \<Rightarrow>
               if err \<noteq> None then Done err w
               else if pTypes = [] then Done None w
               else (case symmetricEncryptKey (persistenceOf w p) of
                       None \<Rightarrow> Crash w
                     | Some key \<Rightarrow>
                         (case unmarshalToType E key False (typeName (gotype (heap w x)))
                                 (pTypeMap pTypes) (userFields (heap w x)) of
                            (fs, panicked) \<Rightarrow>
                              (let w1 = upd x (\<lambda>d. d\<lparr>userFields := fs\<rparr>) w
                               in if panicked then Crash w1 else Done None w1)))
           | _ \<Rightarrow> Crash w))"

text \<open>The guard around both calls: a root container with the persistence add-on. Errors are logged only.\<close>

definition withPersistence :: "(cid \<Rightarrow> world \<Rightarrow> kerror option run) \<Rightarrow> world \<Rightarrow> kerror option run" where
  "withPersistence f w =
     (case rootContainer w of
        None \<Rightarrow> Done None w
      | Some r \<Rightarrow> (case persistence (cpart w r) of None \<Rightarrow> Done None w | Some _ \<Rightarrow> f r w))"

section \<open>Init\<close>

definition containerInit :: "cid \<Rightarrow> world \<Rightarrow> world" where
  "containerInit c w = updPart c (\<lambda>k. k\<lparr>cComponents := Some Map.empty, cHandlers := Some Map.empty\<rparr>) w"

text \<open>
  \<^verbatim>\<open>Persistence.Init\<close>: only the first call in the process goes on; a missing environment variable ends
  the process.
\<close>

definition persistenceInit :: "env \<Rightarrow> cid \<Rightarrow> world \<Rightarrow> kerror option run" where
  "persistenceInit E x w =
     (if runOncePersistence w then Done (Some (AlreadyInitialized (Name (heap w x)))) w
      else
        (let w1 = w\<lparr>runOncePersistence := True\<rparr>;
             dbConnStr = getenv E ''KINESIS_DB_CONNECTION'';
             encryptKey = getenv E ''KINESIS_DB_SYMMETRIC_ENCRYPT_KEY''
         in if length dbConnStr \<le> 0 then Exited
            else if length encryptKey \<le> 0 then Exited
            else
              (let cipherKey = deriveKey E encryptKey;
                   w2 = upd x (\<lambda>d. d\<lparr>asPersistence := map_option
                          (\<lambda>k. k\<lparr>symmetricEncryptKey := Some (hexEncode cipherKey)\<rparr>) (asPersistence d)\<rparr>) w1;
                   ((db, D), connErr) = Connect [StringI dbConnStr] (dbHandle (persistenceOf w2 x), disk w2)
               in Done connErr
                    ((upd x (\<lambda>d. d\<lparr>asPersistence := map_option (\<lambda>k. k\<lparr>dbHandle := db\<rparr>) (asPersistence d)\<rparr>) w2)
                     \<lparr>disk := D\<rparr>))))"

definition httpServerInit :: "cid \<Rightarrow> world \<Rightarrow> kerror option run" where
  "httpServerInit x w =
     (if runOnceHttp w then Done (Some (AlreadyInitialized (Name (heap w x)))) w
      else Done None (w\<lparr>runOnceHttp := True\<rparr>))"

text \<open>
  A method of the application: it leaves new values in the component's own fields, and returns an error
  or panics. The panic goes on in the caller.
\<close>

definition runHook :: "(string \<Rightarrow> gofield list \<Rightarrow> hookResult) \<Rightarrow> string \<Rightarrow> cid \<Rightarrow> world \<Rightarrow> kerror option run" where
  "runHook hook ty x w =
     (case hook ty (userFields (heap w x)) of
        HookRet fs err \<Rightarrow> Done err (upd x (\<lambda>d. d\<lparr>userFields := fs\<rparr>) w)
      | HookPanic fs \<Rightarrow> Crash (upd x (\<lambda>d. d\<lparr>userFields := fs\<rparr>) w))"

text \<open>A method that, whatever the fields, returns the given error, or none.\<close>

definition returns :: "kerror option \<Rightarrow> (gofield list \<Rightarrow> hookResult) \<Rightarrow> bool" where
  "returns err hook \<longleftrightarrow> (\<forall>fs. \<exists>fs'. hook fs = HookRet fs' err)"

lemma returns_HookRet [simp]: "returns err (\<lambda>fs. HookRet (f fs) err') \<longleftrightarrow> err' = err"
  by (auto simp: returns_def)

lemma returns_plainEnv [simp]:
  "returns err (initHook plainEnv ty) \<longleftrightarrow> err = None" "returns err (postInitHook plainEnv ty) \<longleftrightarrow> err = None"
  "returns err (preStartHook plainEnv ty) \<longleftrightarrow> err = None" "returns err (stopHook plainEnv ty) \<longleftrightarrow> err = None"
  by (auto simp: returns_def)

lemma runHook_returns:
  "returns err (hook ty) \<Longrightarrow>
   \<exists>fs. runHook hook ty x w = Done err (upd x (\<lambda>d. d\<lparr>userFields := fs\<rparr>) w)"
proof -
  assume "returns err (hook ty)"
  then obtain fs where "hook ty (userFields (heap w x)) = HookRet fs err" unfolding returns_def by blast
  then show ?thesis by (auto simp: runHook_def)
qed

definition virtualInit :: "env \<Rightarrow> cid \<Rightarrow> world \<Rightarrow> kerror option run" where
  "virtualInit E x w =
     (case gotype (heap w x) of
        SimpleT \<Rightarrow> Done None w
      | ContainerT \<Rightarrow> Done None (containerInit x w)
      | AppT \<Rightarrow> Done None (containerInit x w)
      | UserContainerT _ \<Rightarrow> Done None (containerInit x w)
      | PersistenceT \<Rightarrow> persistenceInit E x w
      | HttpServerT \<Rightarrow> httpServerInit x w
      | UserT ty \<Rightarrow> runHook (initHook E) ty x w)"

section \<open>PostInit\<close>

text \<open>
  \<^verbatim>\<open>App.PostInit\<close> counts the execution and notes its time; \<^verbatim>\<open>PreviousExecutions\<close> is a Go \<^verbatim>\<open>int\<close>.
\<close>

fun appField :: "env \<Rightarrow> gofield \<Rightarrow> gofield" where
  "appField E (Field name ty tag exported v) =
     (if name = ''PreviousExecutions''
      then (case v of VInt b i \<Rightarrow> Field name ty tag exported (VInt b (signed_take_bit 63 (i + 1)))
            | _ \<Rightarrow> Field name ty tag exported v)
      else if name = ''LastExecutedDateTime'' then Field name ty tag exported (VString (nowText E))
      else Field name ty tag exported v)"
| "appField E (StructField name ty exported embedded gs) = StructField name ty exported embedded gs"

definition appPostInit :: "env \<Rightarrow> cid \<Rightarrow> world \<Rightarrow> world" where
  "appPostInit E x w = upd x (\<lambda>d. d\<lparr>userFields := map (appField E) (userFields d)\<rparr>) w"

definition virtualPostInit :: "env \<Rightarrow> cid \<Rightarrow> world \<Rightarrow> kerror option run" where
  "virtualPostInit E x w =
     (case gotype (heap w x) of
        AppT \<Rightarrow> Done None (appPostInit E x w)
      | UserContainerT ty \<Rightarrow> runHook (postInitHook E) ty x w
      | UserT ty \<Rightarrow> runHook (postInitHook E) ty x w
      | _ \<Rightarrow> Done None w)"

section \<open>Stop\<close>

definition persistenceStop :: "cid \<Rightarrow> world \<Rightarrow> kerror option run" where
  "persistenceStop x w =
     (let (db, err) = Disconnect (dbHandle (persistenceOf w x))
      in Done err (upd x (\<lambda>d. d\<lparr>asPersistence := map_option (\<lambda>k. k\<lparr>dbHandle := db\<rparr>) (asPersistence d)\<rparr>) w))"

text \<open>
  \<open>stopContainer\<close> is the inherited \<^verbatim>\<open>Container.Stop\<close>, which sends messages; it is defined after the
  message multiplexer. Shutting the HTTP listener down is left to the environment.
\<close>

definition virtualStop ::
    "env \<Rightarrow> (cid \<Rightarrow> world \<Rightarrow> kerror option run) \<Rightarrow> cid \<Rightarrow> world \<Rightarrow> kerror option run" where
  "virtualStop E stopContainer x w =
     (case gotype (heap w x) of
        SimpleT \<Rightarrow> Done None w
      | ContainerT \<Rightarrow> stopContainer x w
      | AppT \<Rightarrow> stopContainer x w
      | UserContainerT _ \<Rightarrow> stopContainer x w
      | PersistenceT \<Rightarrow> persistenceStop x w
      | HttpServerT \<Rightarrow> runHook (stopHook E) ''HttpServer'' x w
      | UserT ty \<Rightarrow> runHook (stopHook E) ty x w)"

section \<open>Messages of the application\<close>

text \<open>
  A message handler runs on the component's fields; a panic keeps what it had changed. The default
  handler of the framework does nothing, a type of the application may override it.
\<close>

definition runHandler :: "env \<Rightarrow> handler \<Rightarrow> iface \<Rightarrow> cid \<Rightarrow> world \<Rightarrow> kerror option run" where
  "runHandler E h msg x w =
     (let d = heap w x;
          result = (case h of
             UserHandler k \<Rightarrow> userHandler E k msg (userFields d)
           | DefaultHandler \<Rightarrow>
               (case gotype d of
                  UserT ty \<Rightarrow> defaultHandler E ty msg (userFields d)
                | UserContainerT ty \<Rightarrow> defaultHandler E ty msg (userFields d)
                | _ \<Rightarrow> HookRet (userFields d) None))
      in case result of
           HookRet fs err \<Rightarrow> Done err (upd x (\<lambda>d. d\<lparr>userFields := fs\<rparr>) w)
         | HookPanic fs \<Rightarrow> Crash (upd x (\<lambda>d. d\<lparr>userFields := fs\<rparr>) w))"

section \<open>Properties\<close>

lemma persist_step:
  assumes "persistence (cpart w c) = Some p" and "symmetricEncryptKey (persistenceOf w p) = Some key"
    and "marshalType E key (typeName (gotype (heap w x))) (userFields (heap w x)) (nonces w, []) = (n, ps)"
  shows "persist E c x w =
    (if ps = [] \<or> persistanceCache (heap w x) = Some (marshalPTypes ps) then Done None (w\<lparr>nonces := n\<rparr>)
     else let w2 = upd x (\<lambda>d. d\<lparr>persistanceCache := Some (marshalPTypes ps)\<rparr>) (w\<lparr>nonces := n\<rparr>)
          in case Update (dbHandle (persistenceOf w p)) (Name (heap w x)) ps (disk w) of
               Ret (D, err) \<Rightarrow> Done err (w2\<lparr>disk := D\<rparr>)
             | _ \<Rightarrow> Crash w2)"
proof -
  have "persistenceOf (upd x (\<lambda>d. d\<lparr>persistanceCache := b\<rparr>) (w\<lparr>nonces := n\<rparr>)) p = persistenceOf w p" for b
    by (simp add: persistenceOf_def)
  then show ?thesis using assms by (auto simp: persist_def persistable_def Let_def)
qed

lemma length_marshal_leaves:
  assumes "marshalType E key h fs (n, []) = (m, ps)"
  shows "ps = [] \<longleftrightarrow> leaves h fs = []"
proof -
  have "list_all2 (encodedAs E key) (leaves h fs) ps"
    using marshalType_leaves [of E key h fs "(n, [])"] assms by auto
  then show ?thesis by (auto dest: list_all2_lengthD)
qed

text \<open>
  C8: the fields a component has when \<^verbatim>\<open>persist\<close> succeeds are the fields \<^verbatim>\<open>load\<close> puts into a component
  of the same type and name, in a later process that opens the same database with the same key: through
  encryption, the JSON text and the file. The fields must be settable, have distinct names, and hold
  values that are not empty where they are encrypted.
\<close>

theorem persist_load_round_trip:
  assumes "aeadCorrect E" and "persistence (cpart w c) = Some p"
    and "symmetricEncryptKey (persistenceOf w p) = Some key"
    and "storeReady (dbHandle (persistenceOf w p), disk w)"
    and "plainName (Name (heap w x))" and "persistanceCache (heap w x) = None"
    and "settableFields False (userFields (heap w x))"
    and "\<forall>l \<in> set (leaves (typeName (gotype (heap w x))) (userFields (heap w x))). restorableLeaf l \<and> utf8Leaf l"
    and "distinct (map leafName (leaves (typeName (gotype (heap w x))) (userFields (heap w x))))"
    and "leaves (typeName (gotype (heap w x))) (userFields (heap w x)) \<noteq> []"
    and "persistence (cpart v b) = Some q" and "symmetricEncryptKey (persistenceOf v q) = Some key"
    and "dbHandle (persistenceOf v q) = dbHandle (persistenceOf w p)"
    and "Name (heap v y) = Name (heap w x)" and "gotype (heap v y) = gotype (heap w x)"
    and "agreeUnpersisted (userFields (heap w x)) (userFields (heap v y))"
  shows "\<exists>w1. persist E c x w = Done None w1 \<and>
    (disk v = disk w1 \<longrightarrow>
       load E b y v = Done None (upd y (\<lambda>d. d\<lparr>userFields := userFields (heap w x)\<rparr>) v))"
proof -
  let ?h = "typeName (gotype (heap w x))"
  let ?fs = "userFields (heap w x)"
  obtain n ps where m: "marshalType E key ?h ?fs (nonces w, []) = (n, ps)" by fastforce
  have ne: "ps \<noteq> []" using length_marshal_leaves [OF m] assms(10) by simp
  have doc: "textualDoc ps" using textualDoc_marshal [OF m] assms(8) by (simp add: textualDoc_def)
  obtain d1 where up: "storeUpdate (Name (heap w x)) ps (dbHandle (persistenceOf w p), disk w) = Ret (d1, None)"
    using fileStore.update_ready [OF assms(4,5)] by blast
  have fd: "storeFind (Name (heap w x)) d1 = Ret (ps, None)"
    by (rule fileStore.find_updated [OF assms(4,5) doc up])
  obtain D where D: "Update (dbHandle (persistenceOf w p)) (Name (heap w x)) ps (disk w) = Ret (D, None)"
    and d1: "d1 = (dbHandle (persistenceOf w p), D)"
    using up by (auto simp: storeUpdate_def)
  let ?w1 = "(upd x (\<lambda>d. d\<lparr>persistanceCache := Some (marshalPTypes ps)\<rparr>) (w\<lparr>nonces := n\<rparr>))\<lparr>disk := D\<rparr>"
  have "persist E c x w = Done None ?w1"
    using persist_step [OF assms(2,3) m] assms(6) ne D by (simp add: Let_def)
  moreover have "load E b y v = Done None (upd y (\<lambda>d. d\<lparr>userFields := ?fs\<rparr>) v)" if "disk v = disk ?w1"
  proof -
    have "FindOne (dbHandle (persistenceOf v q)) (Name (heap v y)) (disk v) = Ret (ps, None)"
      using fd that assms(13,14) by (simp add: d1 storeFind_def)
    moreover have "unmarshalToType E key False ?h (pTypeMap ps) (userFields (heap v y)) = (?fs, False)"
      using assms(8) by (intro unmarshal_marshal_fields [OF assms(1,16,7) _ assms(9) m]) blast
    ultimately show ?thesis using assms(11,12,15) ne by (simp add: load_def)
  qed
  ultimately show ?thesis by blast
qed

definition sampleApp :: component where
  "sampleApp = newComponent 2 (UserT ''Job'') ''job'' [] [Field ''Runs'' ''int'' (Some ''native'') True (VInt 64 3)]"

definition sampleRoot :: component where
  "sampleRoot = (newComponent 0 ContainerT ''root'' [] [])\<lparr>asContainer := Some (emptyPart\<lparr>persistence := Some 5\<rparr>)\<rparr>"

definition sampleDb :: component where
  "sampleDb = (newComponent 5 PersistenceT ''db'' [] [])\<lparr>asPersistence :=
     Some \<lparr>dbHandle = Some (''/db'', False), symmetricEncryptKey = Some (hexEncode (replicate 16 (CHR ''k'')))\<rparr>\<rparr>"

definition samplePersisting :: world where
  "samplePersisting =
     (worldOf (\<lambda>x. if x = 0 then sampleRoot else if x = 5 then sampleDb else sampleApp))
       \<lparr>rootContainer := Some 0, disk := sampleDisk\<rparr>"

lemma samplePersisting_sel [simp]:
  "heap samplePersisting x = (if x = 0 then sampleRoot else if x = 5 then sampleDb else sampleApp)"
  "persistence (cpart samplePersisting 0) = Some 5" "disk samplePersisting = sampleDisk"
  "dbHandle (persistenceOf samplePersisting 5) = Some (''/db'', False)"
  "symmetricEncryptKey (persistenceOf samplePersisting 5) = Some (hexEncode (replicate 16 (CHR ''k'')))"
  "rootContainer samplePersisting = Some 0" "nonces samplePersisting = 0"
  by (simp_all add: samplePersisting_def worldOf_def cpart_def persistenceOf_def sampleRoot_def sampleDb_def)

lemma sampleApp_sel [simp]:
  "Name sampleApp = ''job''" "gotype sampleApp = UserT ''Job''" "persistanceCache sampleApp = None"
  "userFields sampleApp = [Field ''Runs'' ''int'' (Some ''native'') True (VInt 64 3)]"
  by (simp_all add: sampleApp_def)

lemma formatInt_3: "formatInt 3 = ''3''"
  by code_simp

theorem persist_load_round_trip_witness:
  "\<exists>w1. persist plainEnv 0 2 samplePersisting = Done None w1 \<and>
     load plainEnv 0 2 (samplePersisting\<lparr>disk := disk w1\<rparr>) =
     Done None (upd 2 (\<lambda>d. d\<lparr>userFields := userFields (heap samplePersisting 2)\<rparr>) (samplePersisting\<lparr>disk := disk w1\<rparr>))"
proof -
  have rt: "\<exists>w1. persist plainEnv 0 2 samplePersisting = Done None w1 \<and>
    (disk (samplePersisting\<lparr>disk := D\<rparr>) = disk w1 \<longrightarrow>
       load plainEnv 0 2 (samplePersisting\<lparr>disk := D\<rparr>) =
       Done None (upd 2 (\<lambda>d. d\<lparr>userFields := userFields (heap samplePersisting 2)\<rparr>) (samplePersisting\<lparr>disk := D\<rparr>)))" for D
  proof (rule persist_load_round_trip [where p = 5 and q = 5 and key = "hexEncode (replicate 16 (CHR ''k''))"])
    show "storeReady (dbHandle (persistenceOf samplePersisting 5), disk samplePersisting)"
      by (simp add: sample_ready)
    have "validUtf8 ''3''" "validUtf8 ''Job''" "validUtf8 ''Runs''"
      by (intro validUtf8_ascii, simp add: ascii_def byteOf_def)+
    then show "\<forall>l \<in> set (leaves (typeName (gotype (heap samplePersisting 2))) (userFields (heap samplePersisting 2))).
        restorableLeaf l \<and> utf8Leaf l"
      by (simp add: restorableLeaf_def utf8Leaf_def formatInt_3)
    show "persistence (cpart (samplePersisting\<lparr>disk := D\<rparr>) 0) = Some 5"
      using samplePersisting_sel(2) by (simp add: cpart_def)
    show "symmetricEncryptKey (persistenceOf (samplePersisting\<lparr>disk := D\<rparr>) 5) = Some (hexEncode (replicate 16 (CHR ''k'')))"
      "dbHandle (persistenceOf (samplePersisting\<lparr>disk := D\<rparr>) 5) = dbHandle (persistenceOf samplePersisting 5)"
      using samplePersisting_sel(5) by (simp_all add: persistenceOf_def)
  qed (simp_all add: plainName_def)
  from rt [of Map.empty] obtain w1 where w1: "persist plainEnv 0 2 samplePersisting = Done None w1" by blast
  with rt [of "disk w1"] show ?thesis by (intro exI [of _ w1]) simp
qed

text \<open>
  C39: \<^verbatim>\<open>persist\<close> sets the cache of what was stored before it writes. When the database refuses the write,
  the call reports that, but the next one compares with the cache, reports success and writes nothing:
  the change is not stored until another one follows. (The fields carry no encryption, whose random
  nonces would change the text.)
\<close>

theorem failed_write_not_retried:
  assumes "persist E c x w = Done (Some err) w1"
    and "persistence (cpart w c) = Some p" and "symmetricEncryptKey (persistenceOf w p) = Some key"
    and "\<forall>m. marshalType E key (typeName (gotype (heap w x))) (userFields (heap w x)) (m, []) = (m, ps)"
  shows "disk w1 = disk w \<and> persist E c x w1 = Done None w1"
proof -
  let ?b = "marshalPTypes ps"
  have "marshalType E key (typeName (gotype (heap w x))) (userFields (heap w x)) (nonces w, []) = (nonces w, ps)"
    using assms(4) by blast
  note step = persist_step [OF assms(2,3) this]
  have ne: "ps \<noteq> []" and nc: "persistanceCache (heap w x) \<noteq> Some ?b"
    using assms(1) unfolding step by (auto split: if_splits)
  let ?w2 = "upd x (\<lambda>d. d\<lparr>persistanceCache := Some ?b\<rparr>) (w\<lparr>nonces := nonces w\<rparr>)"
  have po: "persistenceOf ?w2 p = persistenceOf w p" by (simp add: persistenceOf_def)
  obtain D where u: "Update (dbHandle (persistenceOf w p)) (Name (heap w x)) ps (disk w) = Ret (D, Some err)"
    and w1: "w1 = ?w2\<lparr>disk := D\<rparr>"
    using assms(1) ne nc unfolding step by (auto simp: Let_def split: outcome.splits)
  have "D = disk w"
    using u by (auto simp: Update_def writeFile_def split: option.splits walkResult.splits fnode.splits)
  then have same: "w1 = ?w2" by (simp add: w1 upd_def)
  have "persistenceOf w1 p = persistenceOf w p" unfolding same by (rule po)
  moreover have "cpart w1 c = cpart w c" unfolding same by (simp add: cpart_def)
  moreover have "persistanceCache (heap w1 x) = Some ?b" "gotype (heap w1 x) = gotype (heap w x)"
    "userFields (heap w1 x) = userFields (heap w x)"
    by (simp_all add: same)
  moreover have "marshalType E key (typeName (gotype (heap w1 x))) (userFields (heap w1 x)) (nonces w1, []) = (nonces w1, ps)"
    using assms(4) calculation by simp
  ultimately have "persist E c x w1 = Done None (w1\<lparr>nonces := nonces w1\<rparr>)"
    using assms(2,3) ne persist_step [of w1 c p key E x "nonces w1" ps] by simp
  then show ?thesis using \<open>D = disk w\<close> by (simp add: w1)
qed

theorem failed_write_not_retried_witness:
  "case persist plainEnv 0 2 (samplePersisting\<lparr>disk := Map.empty\<rparr>) of
     Done (Some err) w1 \<Rightarrow> persist plainEnv 0 2 w1 = Done None w1 | _ \<Rightarrow> False"
proof -
  let ?w = "samplePersisting\<lparr>disk := Map.empty\<rparr>"
  let ?key = "hexEncode (replicate 16 (CHR ''k''))"
  let ?p = "\<lparr>pName = ''Runs'', pTypeHierarchy = ''Job'', pValue = PText ''3'', pIsEncrypted = False\<rparr>"
  have part: "persistence (cpart ?w 0) = Some 5" "symmetricEncryptKey (persistenceOf ?w 5) = Some ?key"
    "dbHandle (persistenceOf ?w 5) = Some (''/db'', False)"
    using samplePersisting_sel(2,4,5) by (simp_all add: cpart_def persistenceOf_def)
  have m: "\<forall>m. marshalType plainEnv ?key (typeName (gotype (heap ?w 2))) (userFields (heap ?w 2)) (m, []) = (m, [?p])"
    by (simp add: marshalField_def Let_def formatInt_3)
  have "walkPath Map.empty s = NoEntry" for s
    by (cases "splitSlash s") (auto simp: walkPath_def)
  then have u: "Update (Some (''/db'', False)) n v Map.empty = Ret (Map.empty, Some (FileError (collFilePath ''/db'' n)))" for n v
    by (simp add: Update_def writeFile_def)
  have "\<exists>err w1. persist plainEnv 0 2 ?w = Done (Some err) w1"
    using persist_step [OF part(1,2), of plainEnv 2 0 "[?p]"] m part(3) u by (simp add: Let_def)
  then obtain err w1 where r: "persist plainEnv 0 2 ?w = Done (Some err) w1" by blast
  from failed_write_not_retried [OF r part(1,2) m] show ?thesis unfolding r by simp
qed

end
