(* ===== verification/Lifecycle.thy ===== *)
theory Lifecycle
  imports Component_Methods
begin

text \<open>
  The lifecycle state machine \<^verbatim>\<open>componentLifecycleFSM\<close>, the message multiplexer \<^verbatim>\<open>startMmux\<close>,
  \<^verbatim>\<open>SendSyncMessage\<close> as seen by a caller inside the process, \<^verbatim>\<open>Container.Stop\<close>, and \<^verbatim>\<open>Add\<close>
  (container.go, component.go). A call of the state machine holds the mutating lock of its component
  from its begin to its end, a delay it sleeps included, so it is one step here. The \<^verbatim>\<open>switch\<close> is one definition per group of stages; falling through
  is a call of the next group.
\<close>

section \<open>The state machine\<close>

definition tearDownComponent :: "env \<Rightarrow> cid \<Rightarrow> cid \<Rightarrow> world \<Rightarrow> kerror option run" where
  "tearDownComponent E c x w =
     (let w1 = upd x tearDown w;
          w2 = upd x (setStage E Teareddown) (w1\<lparr>tornDown := tornDown w1 @ [x]\<rparr>)
      in Done None (removeComponent c (Name (heap w2 x)) w2))"

definition stopComponent ::
    "env \<Rightarrow> (cid \<Rightarrow> world \<Rightarrow> kerror option run) \<Rightarrow> cid \<Rightarrow> cid \<Rightarrow> world \<Rightarrow> kerror option run" where
  "stopComponent E stopContainer c x w =
     runBind (virtualStop E stopContainer x w) (\<lambda>err w1.
       if err \<noteq> None then Done err w1
       else runBind (removeHttpHandlers c x w1) (\<lambda>_ w2.
              tearDownComponent E c x (upd x (setStage E Stopped) w2)))"

text \<open>Durations are in nanoseconds; five seconds is the default delay of a restart.\<close>

definition defaultDelay :: int where "defaultDelay = 5 * 10 ^ 9"

definition controlComponent :: "env \<Rightarrow> cid \<Rightarrow> goctx \<Rightarrow> cid \<Rightarrow> world \<Rightarrow> kerror option run" where
  "controlComponent E c ctx x w =
     (case ctx ControlMsgType of
        ControlI RestartMmux \<Rightarrow> Done None (addTask (MmuxTask c x) w)
      | ControlI RestartAfter \<Rightarrow>
          (let w1 = upd x (setStage E Restarting) w;
               delay = (case ctx (ControlI RestartAfter) of DurationI t \<Rightarrow> t | _ \<Rightarrow> defaultDelay)
           in Done None (w1\<lparr>slept := slept w1 @ [delay]\<rparr>))
      | ControlI Shutdown \<Rightarrow> Done None (upd x (setStage E Stopping) w)
      | _ \<Rightarrow> Done None w)"

definition runComponent :: "env \<Rightarrow> cid \<Rightarrow> cid \<Rightarrow> world \<Rightarrow> kerror option run" where
  "runComponent E c x w =
     (let w1 = upd x (setStage E Starting) (addTask (PreStartTask x) w)
      in Done None (upd x (setStage E Started) (addTask (StartTask c x) w1)))"

definition initComponent :: "env \<Rightarrow> cid \<Rightarrow> world \<Rightarrow> kerror option run" where
  "initComponent E x w =
     runBind (withPersistence (\<lambda>r. load E r x) (upd x (setStage E Initializing) w)) (\<lambda>_ w1.
     runBind (virtualInit E x w1) (\<lambda>err w2.
       if err \<noteq> None
       then Done err (upd x (setStage E Tearingdown) (upd x (setStage E Aborting) w2))
       else runBind (virtualPostInit E x w2) (\<lambda>err w3.
              if err \<noteq> None
              then Done err (upd x (setStage E Tearingdown) (upd x (setStage E Aborting) w3))
              else Done None (upd x (setStage E Initialized) w3))))"

definition preinitComponent :: "env \<Rightarrow> cid \<Rightarrow> cid \<Rightarrow> world \<Rightarrow> kerror option run" where
  "preinitComponent E c x w =
     (let w1 = upd x preInit w;
          w2 = upd x (\<lambda>d. fst (Callback True StateChangeCallback d)) w1;
          w3 = (if getSyncMessageHandler (heap w2 x) (StringI (Name (heap w2 x))) = None
                then upd x (SetSyncMessageHandler (StringI (Name (heap w2 x))) (Some DefaultHandler)) w2
                else w2);
          w4 = addTask (MmuxTask c x) w3
      in initComponent E x (upd x (setStage E Preinitialized) w4))"

definition stageSwitch ::
    "env \<Rightarrow> (cid \<Rightarrow> world \<Rightarrow> kerror option run) \<Rightarrow> cid \<Rightarrow> goctx \<Rightarrow> cid \<Rightarrow> world \<Rightarrow> kerror option run" where
  "stageSwitch E stopContainer c ctx x w =
     (case Stage (heap w x) of
        Submitted \<Rightarrow> preinitComponent E c x (upd x (setStage E Preinitializing) w)
      | Preinitializing \<Rightarrow> preinitComponent E c x w
      | Preinitialized \<Rightarrow> initComponent E x w
      | Initialized \<Rightarrow> runComponent E c x w
      | Restarting \<Rightarrow> runComponent E c x w
      | Started \<Rightarrow> controlComponent E c ctx x w
      | Stopping \<Rightarrow> stopComponent E stopContainer c x w
      | Stopped \<Rightarrow> tearDownComponent E c x w
      | Tearingdown \<Rightarrow> tearDownComponent E c x w
      | Initializing \<Rightarrow> Done None w
      | Starting \<Rightarrow> Done None w
      | Teareddown \<Rightarrow> Done None w
      | Aborting \<Rightarrow> Done None w)"

text \<open>
  The deferred function persists the component whatever the outcome; its error is logged. A panic in
  the body goes on after it.
\<close>

definition deferPersist :: "env \<Rightarrow> cid \<Rightarrow> kerror option run \<Rightarrow> kerror option run" where
  "deferPersist E x result =
     (case result of
        Done err w \<Rightarrow> runBind (withPersistence (\<lambda>r. persist E r x) w) (\<lambda>_ w1. Done err w1)
      | Crash w \<Rightarrow> runBind (withPersistence (\<lambda>r. persist E r x) w) (\<lambda>_ w1. Crash w1)
      | Exited \<Rightarrow> Exited
      | Stuck \<Rightarrow> Stuck)"

definition componentLifecycleFSM ::
    "env \<Rightarrow> (cid \<Rightarrow> world \<Rightarrow> kerror option run) \<Rightarrow> cid \<Rightarrow> goctx \<Rightarrow> cid \<Rightarrow> world \<Rightarrow> kerror option run" where
  "componentLifecycleFSM E stopContainer c ctx x w =
     deferPersist E x (stageSwitch E stopContainer c ctx x w)"

section \<open>The message multiplexer\<close>

text \<open>
  Serving a message yields the reply sent, if any, and whether the multiplexer goes on. A reply on a
  channel that its sender has closed after a timeout is a panic, one on a nil channel blocks.
\<close>

type_synonym served = "kerror option option \<times> bool"

definition reply :: "replyChan \<Rightarrow> kerror option \<Rightarrow> bool \<Rightarrow> world \<Rightarrow> served run" where
  "reply ch err again w =
     (case ch of LiveChan \<Rightarrow> Done (Some err, again) w | ClosedChan \<Rightarrow> Crash w | NilChan \<Rightarrow> Stuck)"

definition rejectMessage :: "replyChan \<Rightarrow> kerror \<Rightarrow> world \<Rightarrow> served run" where
  "rejectMessage ch err w = (if ch \<noteq> NilChan then reply ch (Some err) True w else Done (None, True) w)"

definition notifyListeners :: "env \<Rightarrow> cid \<Rightarrow> replyChan \<Rightarrow> world \<Rightarrow> served run" where
  "notifyListeners E x ch w =
     (let (d, cCopy) = createCopy E (heap w x);
          prevCompObj = (case componentCache d of None \<Rightarrow> cCopy | Some s \<Rightarrow> s);
          changeObj = ComponentChangeObject \<lparr>prevObj = prevCompObj, currObj = cCopy\<rparr>;
          d1 = d\<lparr>componentCache := Some cCopy\<rparr>;
          d2 = notifySubscribers changeObj (invokeCallbacks E changeObj d1)
      in reply ch None True (upd x (\<lambda>_. d2) w))"

definition persistComponent :: "env \<Rightarrow> cid \<Rightarrow> replyChan \<Rightarrow> world \<Rightarrow> served run" where
  "persistComponent E x ch w =
     runBind (withPersistence (\<lambda>r. persist E r x) w) (\<lambda>err w1.
       if err \<noteq> None then reply ch err True w1 else notifyListeners E x ch w1)"

definition handleMessage :: "env \<Rightarrow> cid \<Rightarrow> iface \<Rightarrow> iface \<Rightarrow> replyChan \<Rightarrow> world \<Rightarrow> served run" where
  "handleMessage E x mtype msg ch w =
     (let handler = (case getSyncMessageHandler (heap w x) mtype of
                       Some h \<Rightarrow> Some h
                     | None \<Rightarrow> getSyncMessageHandler (heap w x) (StringI (Name (heap w x))))
      in case handler of
           None \<Rightarrow> Crash w
         | Some h \<Rightarrow>
             runBind (runHandler E h msg x w) (\<lambda>err w1.
               if err \<noteq> None then reply ch err True w1 else persistComponent E x ch w1))"

text \<open>The \<^verbatim>\<open>Shutdown\<close> case runs the state machine, and once more if that reached \<^verbatim>\<open>Stopping\<close>.\<close>

definition shutdownMessage ::
    "env \<Rightarrow> (cid \<Rightarrow> world \<Rightarrow> kerror option run) \<Rightarrow> cid \<Rightarrow> cid \<Rightarrow> goctx \<Rightarrow> replyChan \<Rightarrow> world \<Rightarrow> served run" where
  "shutdownMessage E stopContainer c x ctx ch w =
     runBind (componentLifecycleFSM E stopContainer c ctx x w) (\<lambda>_ w1.
       if Stage (heap w1 x) = Stopping
       then runBind (componentLifecycleFSM E stopContainer c ctx x w1) (\<lambda>err w2.
              if err \<noteq> None then reply ch err True w2 else reply ch None False w2)
       else reply ch None False w1)"

definition serveMessage ::
    "env \<Rightarrow> (cid \<Rightarrow> world \<Rightarrow> kerror option run) \<Rightarrow> cid \<Rightarrow> cid \<Rightarrow> message \<Rightarrow> world \<Rightarrow> served run" where
  "serveMessage E stopContainer c x m w =
     (let d = heap w x; ch = errCh m
      in if msgType m = NilI then rejectMessage ch (NilMsgType (Name d)) w
         else case msgsLookup m of
           None \<Rightarrow> rejectMessage ch (NilMsgsLookup (Name d)) w
         | Some lookup \<Rightarrow>
             (let msg = lookup (msgType m)
              in if msgType m = ControlMsgType
                 then (case msg of
                         ControlI Shutdown \<Rightarrow>
                           shutdownMessage E stopContainer c x (withValue (msgCtx m) ControlMsgType msg) ch w
                       | ControlI Persist \<Rightarrow> persistComponent E x ch w
                       | ControlI NotifyPeers \<Rightarrow> notifyListeners E x ch w
                       | _ \<Rightarrow> handleMessage E x (msgType m) msg ch w)
                 else if msgType m = ComponentMsgType
                 then (case msg of
                         CompI s \<Rightarrow>
                           if sName s = Name d \<and> sType s = gotype d \<and> Etag d \<noteq> sEtag s
                           then reply ch (Some EtagMismatch) True w
                           else handleMessage E x (msgType m) msg ch w
                       | _ \<Rightarrow> Crash w)
                 else handleMessage E x (msgType m) msg ch w))"

text \<open>
  One round of the multiplexer's goroutine. When the loop is left, by \<^verbatim>\<open>return\<close> or by a panic that the
  deferred function recovers, the goroutine ends and the restart of the multiplexer is scheduled.
\<close>

definition endMmux :: "cid \<Rightarrow> cid \<Rightarrow> world \<Rightarrow> world" where
  "endMmux c x w = w\<lparr>tasks := remove1 (MmuxTask c x) (tasks w) @ [RestartMmuxTask c x]\<rparr>"

definition mmuxRound ::
    "env \<Rightarrow> (cid \<Rightarrow> world \<Rightarrow> kerror option run) \<Rightarrow> cid \<Rightarrow> cid \<Rightarrow> message \<Rightarrow> world \<Rightarrow> kerror option option run" where
  "mmuxRound E stopContainer c x m w =
     (case serveMessage E stopContainer c x m w of
        Done (r, again) w1 \<Rightarrow> Done r (if again then w1 else endMmux c x w1)
      | Crash w1 \<Rightarrow> Done None (endMmux c x w1)
      | Exited \<Rightarrow> Exited
      | Stuck \<Rightarrow> Stuck)"

section \<open>Sending a message\<close>

text \<open>
  The channel of the multiplexer holds one message. The send puts it there, and blocks outside any
  \<^verbatim>\<open>select\<close> when the channel is nil or full; the multiplexer's goroutine takes it out; a sender that
  gives up closes its reply channel and leaves the message where it is.
\<close>

definition putMessage :: "cid \<Rightarrow> message option \<Rightarrow> world \<Rightarrow> world" where
  "putMessage x m w = upd x (\<lambda>d. d\<lparr>mmuxBuffer := m\<rparr>) w"

definition postMessage :: "cid \<Rightarrow> message \<Rightarrow> world \<Rightarrow> unit run" where
  "postMessage x m w =
     (if \<not> mmux (heap w x) \<or> mmuxBuffer (heap w x) \<noteq> None then Stuck else Done () (putMessage x (Some m) w))"

definition abandonMessage :: "cid \<Rightarrow> world \<Rightarrow> world" where
  "abandonMessage x w =
     putMessage x (map_option (\<lambda>m. m\<lparr>errCh := ClosedChan\<rparr>) (mmuxBuffer (heap w x))) w"

definition takeMessage ::
    "env \<Rightarrow> (cid \<Rightarrow> world \<Rightarrow> kerror option run) \<Rightarrow> cid \<Rightarrow> cid \<Rightarrow> world \<Rightarrow> kerror option option run" where
  "takeMessage E stopContainer c x w =
     (case mmuxBuffer (heap w x) of
        None \<Rightarrow> Done None w
      | Some m \<Rightarrow> mmuxRound E stopContainer c x m (putMessage x None w))"

text \<open>The container whose goroutine serves the multiplexer of a component, if one does.\<close>

fun mmuxServer :: "cid \<Rightarrow> task list \<Rightarrow> cid option" where
  "mmuxServer x [] = None"
| "mmuxServer x (MmuxTask c y # ts) = (if y = x then Some c else mmuxServer x ts)"
| "mmuxServer x (t # ts) = mmuxServer x ts"

text \<open>
  The wait of a sender whose message is in the channel: the goroutine that serves the multiplexer
  takes it and answers in time; without such a goroutine, or without an answer, the sender times out.
\<close>

definition awaitServed ::
    "env \<Rightarrow> (cid \<Rightarrow> world \<Rightarrow> kerror option run) \<Rightarrow> cid \<Rightarrow> world \<Rightarrow> kerror option run" where
  "awaitServed E stopContainer x w =
     (case mmuxServer x (tasks w) of
        None \<Rightarrow> Done (Some DeadlineExceeded) (abandonMessage x w)
      | Some c \<Rightarrow>
          runBind (takeMessage E stopContainer c x w)
            (\<lambda>r w1. Done (case r of None \<Rightarrow> Some DeadlineExceeded | Some err \<Rightarrow> err) w1))"

text \<open>
  \<^verbatim>\<open>SendSyncMessage\<close>: refused once the component is stopping, stuck on a nil multiplexer, and stuck on
  a full one that nobody serves. A goroutine that serves a full one takes the message that waits there,
  ours follows into the channel, and is served next if that goroutine, or another one, still serves it.
  A run in which serving a message never ends is stuck and not followed further, although the sender
  would time out.
\<close>

definition SendSyncMessage ::
    "env \<Rightarrow> (cid \<Rightarrow> world \<Rightarrow> kerror option run) \<Rightarrow> cid \<Rightarrow> iface \<Rightarrow> (iface \<Rightarrow> iface) option \<Rightarrow> world
      \<Rightarrow> kerror option run" where
  "SendSyncMessage E stopContainer x mtype lookup w =
     (let d = heap w x;
          m = \<lparr>msgCtx = background, msgType = mtype, msgsLookup = lookup, errCh = LiveChan\<rparr>
      in if Stopping \<le> Stage d then Done (Some (CannotProcess (Name d) (Stage d))) w
         else case (mmuxBuffer d, mmuxServer x (tasks w)) of
           (Some waiting, Some c) \<Rightarrow>
             if mmux d
             then runBind (mmuxRound E stopContainer c x waiting (putMessage x (Some m) w))
                    (\<lambda>_ w1. awaitServed E stopContainer x w1)
             else Stuck
         | _ \<Rightarrow> runBind (postMessage x m w) (\<lambda>_ w1. awaitServed E stopContainer x w1))"

lemma putMessage_sel [simp]:
  "heap (putMessage x m w) y = (if y = x then (heap w x)\<lparr>mmuxBuffer := m\<rparr> else heap w y)"
  "rootContainer (putMessage x m w) = rootContainer w" "tasks (putMessage x m w) = tasks w"
  "topLevelComponents (putMessage x m w) = topLevelComponents w" "addons (putMessage x m w) = addons w"
  "disk (putMessage x m w) = disk w" "nonces (putMessage x m w) = nonces w"
  "runOncePersistence (putMessage x m w) = runOncePersistence w" "runOnceHttp (putMessage x m w) = runOnceHttp w"
  "tornDown (putMessage x m w) = tornDown w" "slept (putMessage x m w) = slept w"
  "cpart (putMessage x m w) = cpart w"
  by (simp_all add: putMessage_def cpart_upd_same)

lemma putMessage_putMessage [simp]: "putMessage x m (putMessage x n w) = putMessage x m w"
  by (simp add: putMessage_def upd_def)

lemma putMessage_same [simp]: "mmuxBuffer (heap w x) = m \<Longrightarrow> putMessage x m w = w"
  by (auto simp: putMessage_def upd_def)

text \<open>A channel that is there, and empty; and what a send does then, or without a goroutine that serves it.\<close>

abbreviation openMmux :: "component \<Rightarrow> bool" where
  "openMmux d \<equiv> mmux d \<and> mmuxBuffer d = None"

lemma SendSyncMessage_idle:
  assumes "Stage (heap w x) < Stopping" and "mmux (heap w x)" and "mmuxBuffer (heap w x) = None"
    and "mmuxServer x (tasks w) = Some c"
  shows "SendSyncMessage E halt x mtype lookup w =
     runBind (mmuxRound E halt c x
        \<lparr>msgCtx = background, msgType = mtype, msgsLookup = lookup, errCh = LiveChan\<rparr> w)
       (\<lambda>r w1. Done (case r of None \<Rightarrow> Some DeadlineExceeded | Some err \<Rightarrow> err) w1)"
  using assms
  by (simp add: SendSyncMessage_def postMessage_def awaitServed_def takeMessage_def not_le [symmetric])

lemma SendSyncMessage_unserved:
  assumes "Stage (heap w x) < Stopping" and "mmux (heap w x)" and "mmuxServer x (tasks w) = None"
  shows "SendSyncMessage E halt x mtype lookup w =
     (if mmuxBuffer (heap w x) = None
      then Done (Some DeadlineExceeded)
             (putMessage x (Some \<lparr>msgCtx = background, msgType = mtype, msgsLookup = lookup, errCh = ClosedChan\<rparr>) w)
      else Stuck)"
  using assms
  by (auto simp: SendSyncMessage_def postMessage_def awaitServed_def abandonMessage_def not_le [symmetric]
      split: option.split)

lemma unserved_sends:
  assumes "Stage (heap w x) < Stopping" and "mmuxServer x (tasks w) = None" and "openMmux (heap w x)"
  shows "\<exists>w1. SendSyncMessage E halt x mtype lookup w = Done (Some DeadlineExceeded) w1 \<and>
    (\<forall>mtype' lookup'. SendSyncMessage E halt x mtype' lookup' w1 = Stuck)"
proof -
  let ?w1 = "putMessage x (Some \<lparr>msgCtx = background, msgType = mtype, msgsLookup = lookup, errCh = ClosedChan\<rparr>) w"
  have "SendSyncMessage E halt x mtype' lookup' ?w1 = Stuck" for mtype' lookup'
    using assms by (simp add: SendSyncMessage_unserved)
  then show ?thesis using assms by (intro exI [of _ ?w1]) (simp add: SendSyncMessage_unserved)
qed

definition controlLookup :: "controlMsg \<Rightarrow> (iface \<Rightarrow> iface) option" where
  "controlLookup k = Some ((\<lambda>_. NilI)(ControlMsgType := ControlI k))"

section \<open>Stopping a container\<close>

text \<open>
  \<^verbatim>\<open>Container.Stop\<close>: shut the last component of the slice down, and look again. Each round of the
  loop and each nested container uses one unit of fuel.
\<close>

primrec containerStop :: "env \<Rightarrow> nat \<Rightarrow> cid \<Rightarrow> world \<Rightarrow> kerror option run" where
  "containerStop E 0 = (\<lambda>c w. Stuck)"
| "containerStop E (Suc n) = (\<lambda>c w.
     (case components (cpart w c) of
        [] \<Rightarrow> Done None w
      | _ # rest \<Rightarrow>
          (let cName = last (components (cpart w c));
               child = Option.bind (mapGet (cComponents (cpart w c)) cName) ccomp
           in runBind
                (case child of
                   None \<Rightarrow> Done None w
                 | Some y \<Rightarrow>
                     if Matches c y then Done None w
                     else SendSyncMessage E (containerStop E n) y ControlMsgType (controlLookup Shutdown) w)
                (\<lambda>_ w1. if rest = [] \<and> child = Some c then Done None w1
                        else containerStop E n c w1))))"

section \<open>Adding a component\<close>

text \<open>
  The activation goroutine's work on one component: initialize, enter into the tables, start. Nothing
  recovers a panic there.
\<close>

definition registerAddon :: "cid \<Rightarrow> cid \<Rightarrow> world \<Rightarrow> world" where
  "registerAddon c x w =
     (if gotype (heap w x) = PersistenceT then updPart c (\<lambda>k. k\<lparr>persistence := Some x\<rparr>) w else w)"

definition activateComponent ::
    "env \<Rightarrow> (cid \<Rightarrow> world \<Rightarrow> kerror option run) \<Rightarrow> cid \<Rightarrow> cid \<Rightarrow> world \<Rightarrow> kerror option run" where
  "activateComponent E stopContainer c x w =
     runBind (componentLifecycleFSM E stopContainer c background x w) (\<lambda>err w1.
       if err \<noteq> None then Done err w1
       else runBind (toCanonical c x w1) (\<lambda>cComm w2.
         (let (k, taken) = enterComponent (Name (heap w2 x)) cComm (cpart w2 c)
          in if taken \<noteq> None then Done taken w2
             else if cComponents (cpart w2 c) = None then Crash w2
             else runBind (componentLifecycleFSM E stopContainer c background x (updPart c (\<lambda>_. k) w2))
                    (\<lambda>err w3.
                      if err \<noteq> None then Done err w3
                      else Done None (if rootContainer w3 = Some c then registerAddon c x w3 else w3)))))"

text \<open>
  \<^verbatim>\<open>Add\<close> up to the reply of the activation goroutine. Without a queue, and with a container that is
  already stopping, the send is on a nil channel.
\<close>

definition addComponent ::
    "env \<Rightarrow> (cid \<Rightarrow> world \<Rightarrow> kerror option run) \<Rightarrow> cid \<Rightarrow> cid option \<Rightarrow> world \<Rightarrow> kerror option run" where
  "addComponent E stopContainer c arg w =
     (case validateName w arg of
        Some err \<Rightarrow> Done (Some err) w
      | None \<Rightarrow>
          (let x = the arg
           in if \<not> Matches c x \<and> Name (heap w x) = Name (heap w c) then Done (Some SameNameAsContainer) w
              else
                (let w1 = (if \<not> compActivationQueue (cpart w c) \<and> Stage (heap w c) < Stopping
                           then updPart c (\<lambda>k. k\<lparr>compActivationQueue := True\<rparr>) w else w)
                 in if \<not> compActivationQueue (cpart w1 c) then Stuck
                    else activateComponent E stopContainer c x w1)))"

text \<open>
  The whole of \<^verbatim>\<open>Add\<close>: afterwards the root container takes the deferred add-ons, one after the
  other; a failure ends the process.
\<close>

fun addDeferred :: "env \<Rightarrow> (cid \<Rightarrow> world \<Rightarrow> kerror option run) \<Rightarrow> cid \<Rightarrow> cid list \<Rightarrow> world \<Rightarrow> kerror option run" where
  "addDeferred E stopContainer r [] w = Done None w"
| "addDeferred E stopContainer r (a # as) w =
     runBind (addComponent E stopContainer r (Some a) w) (\<lambda>err w1.
       if err \<noteq> None then Exited else addDeferred E stopContainer r as w1)"

definition Add ::
    "env \<Rightarrow> (cid \<Rightarrow> world \<Rightarrow> kerror option run) \<Rightarrow> cid \<Rightarrow> cid option \<Rightarrow> world \<Rightarrow> kerror option run" where
  "Add E stopContainer c arg w =
     runBind (addComponent E stopContainer c arg w) (\<lambda>err w1.
       if err \<noteq> None then Done err w1
       else case rootContainer w1 of
         None \<Rightarrow> Done None w1
       | Some r \<Rightarrow>
           if addons w1 = [] then Done None w1
           else addDeferred E stopContainer r (addons w1) (w1\<lparr>addons := []\<rparr>))"

end
