(* ===== verification/Start_Restart.thy ===== *)
theory Start_Restart
  imports Lifecycle
begin

text \<open>
  The goroutines the state machine starts: \<^verbatim>\<open>startComponent\<close> with its deferred restart, the
  \<^verbatim>\<open>PreStart\<close> of a component, and the restart of a multiplexer that has ended (container.go), with
  the \<^verbatim>\<open>Start\<close>, \<^verbatim>\<open>PreStart\<close> and \<^verbatim>\<open>IsRestartableWithDelay\<close> methods they call. A restart is two calls
  of the state machine. The first sleeps the delay with the mutating lock held, so nothing comes between
  its begin and the end of the sleep; between the two calls the lock is free, and another call that has
  been waiting for it may get it. The second call is therefore a task of its own, \<open>ResumeTask\<close>.
\<close>

section \<open>Overridable methods\<close>

text \<open>\<^verbatim>\<open>HttpServer.Start\<close> sets the port it was not given, then serves; serving is the environment's.\<close>

fun defaultPort :: "gofield \<Rightarrow> gofield" where
  "defaultPort (Field name ty tag exported v) =
     (if name = ''HttpPort'' \<and> v = VString '''' then Field name ty tag exported (VString ''8080'')
      else Field name ty tag exported v)"
| "defaultPort (StructField name ty exported embedded gs) = StructField name ty exported embedded gs"

text \<open>The value of the field \<^verbatim>\<open>HttpPort\<close>, and the server that is made of it.\<close>

fun httpPort :: "gofield list \<Rightarrow> string" where
  "httpPort (Field name ty tag exported (VString s) # fs) = (if name = ''HttpPort'' then s else httpPort fs)"
| "httpPort (f # fs) = httpPort fs"
| "httpPort [] = ''''"

definition goSecond :: "64 word" where
  "goSecond = 1000000000"

definition httpServerStart :: "env \<Rightarrow> gofield list \<Rightarrow> hookResult" where
  "httpServerStart E fs =
     (let fs1 = map defaultPort fs;
          server = \<lparr>Addr = ''0.0.0.0:'' @ httpPort fs1, WriteTimeout = goSecond * 15,
                    ReadTimeout = goSecond * 15, IdleTimeout = goSecond * 60\<rparr>
      in HookRet fs1 (listenAndServe E server))"

definition startResult :: "env \<Rightarrow> component \<Rightarrow> hookResult" where
  "startResult E d =
     (case gotype d of
        UserT ty \<Rightarrow> startHook E ty (userFields d)
      | UserContainerT ty \<Rightarrow> startHook E ty (userFields d)
      | HttpServerT \<Rightarrow> httpServerStart E (userFields d)
      | _ \<Rightarrow> HookRet (userFields d) None)"

definition virtualStart :: "env \<Rightarrow> cid \<Rightarrow> world \<Rightarrow> kerror option run" where
  "virtualStart E x w =
     (case startResult E (heap w x) of
        HookRet fs err \<Rightarrow> Done err (upd x (\<lambda>d. d\<lparr>userFields := fs\<rparr>) w)
      | HookPanic fs \<Rightarrow> Crash (upd x (\<lambda>d. d\<lparr>userFields := fs\<rparr>) w))"

definition virtualPreStart :: "env \<Rightarrow> cid \<Rightarrow> world \<Rightarrow> kerror option run" where
  "virtualPreStart E x w =
     (case gotype (heap w x) of
        UserT ty \<Rightarrow> runHook (preStartHook E) ty x w
      | UserContainerT ty \<Rightarrow> runHook (preStartHook E) ty x w
      | _ \<Rightarrow> Done None w)"

definition virtualIsRestartable :: "env \<Rightarrow> cid \<Rightarrow> world \<Rightarrow> (bool \<times> int) \<times> world" where
  "virtualIsRestartable E x w =
     (let d = heap w x;
          (fs, restartable, delay) =
            (case gotype d of
               UserT ty \<Rightarrow> restartHook E ty (userFields d)
             | UserContainerT ty \<Rightarrow> restartHook E ty (userFields d)
             | _ \<Rightarrow> (userFields d, False, 0))
      in ((restartable, delay), upd x (\<lambda>d. d\<lparr>userFields := fs\<rparr>) w))"

section \<open>Starting and restarting\<close>

text \<open>The context of both calls of the state machine that restart a component.\<close>

definition restartCtx :: "int \<Rightarrow> goctx" where
  "restartCtx delay =
     withValue (withValue background ControlMsgType (ControlI RestartAfter))
       (ControlI RestartAfter) (DurationI delay)"

text \<open>
  The deferred function of \<^verbatim>\<open>startComponent\<close>, up to the second call of the state machine. It runs
  after \<^verbatim>\<open>Start\<close> has returned, with or without an error, and after a panic.
\<close>

definition afterStart ::
    "env \<Rightarrow> (cid \<Rightarrow> world \<Rightarrow> kerror option run) \<Rightarrow> cid \<Rightarrow> cid \<Rightarrow> world \<Rightarrow> unit run" where
  "afterStart E stopContainer c x w =
     (if Stopping \<le> Stage (heap w x) then Done () w
      else
        (let ((restartable, delay), w1) = virtualIsRestartable E x w
         in if \<not> restartable then Done () w1
            else
              (let delay1 = (if delay \<le> 0 then defaultDelay else delay)
               in runBind (componentLifecycleFSM E stopContainer c (restartCtx delay1) x w1) (\<lambda>err w2.
                    Done () (if err \<noteq> None then w2 else addTask (ResumeTask c x delay1) w2)))))"

definition startComponent ::
    "env \<Rightarrow> (cid \<Rightarrow> world \<Rightarrow> kerror option run) \<Rightarrow> cid \<Rightarrow> cid \<Rightarrow> world \<Rightarrow> unit run" where
  "startComponent E stopContainer c x w =
     (case virtualStart E x w of
        Done err w1 \<Rightarrow> afterStart E stopContainer c x w1
      | Crash w1 \<Rightarrow> afterStart E stopContainer c x w1
      | Exited \<Rightarrow> Exited
      | Stuck \<Rightarrow> Stuck)"

section \<open>Running a goroutine\<close>

text \<open>
  One step of a goroutine. That of a multiplexer takes the message that waits in the channel and serves
  it, waits on if there is none, and leaves its loop when the channel is empty and closed. Any other
  goroutine is taken off the list and run; the result of the state machine is dropped; a panic in a
  goroutine without a deferred recovery ends the process.
\<close>

definition runTask ::
    "env \<Rightarrow> (cid \<Rightarrow> world \<Rightarrow> kerror option run) \<Rightarrow> task \<Rightarrow> world \<Rightarrow> unit run" where
  "runTask E stopContainer t w =
     (let w1 = w\<lparr>tasks := remove1 t (tasks w)\<rparr>;
          forget = (\<lambda>r. runBind r (\<lambda>(err :: kerror option) w2. Done () w2))
      in case t of
           MmuxTask c x \<Rightarrow>
             if mmuxBuffer (heap w x) = None \<and> \<not> mmux (heap w x) then Done () (endMmux c x w)
             else runBind (takeMessage E stopContainer c x w) (\<lambda>_ w2. Done () w2)
         | StartTask c x \<Rightarrow> startComponent E stopContainer c x w1
         | PreStartTask x \<Rightarrow> forget (virtualPreStart E x w1)
         | RestartMmuxTask c x \<Rightarrow>
             forget (componentLifecycleFSM E stopContainer c
                       (withValue background ControlMsgType (ControlI RestartMmux)) x w1)
         | ResumeTask c x delay \<Rightarrow>
             forget (componentLifecycleFSM E stopContainer c (restartCtx delay) x w1))"

lemma restartCtx_values [simp]:
  "restartCtx d ControlMsgType = ControlI RestartAfter" "restartCtx d (ControlI RestartAfter) = DurationI d"
  by (simp_all add: restartCtx_def withValue_def)

end
