(* ===== verification/Process_Main.thy ===== *)
theory Process_Main
  imports Start_Restart
begin

text \<open>
  The process as a whole (container.go, the \<^verbatim>\<open>init\<close> functions of the add-ons, cmd/kinesis.go): the
  creation of the root container by \<^verbatim>\<open>init\<close>, \<^verbatim>\<open>AttachComponent\<close> for add-ons, the application that
  \<^verbatim>\<open>main\<close> adds, and the goroutine that shuts everything down on an interrupt: the top level components
  in reverse, the root container last.
\<close>

section \<open>Add-ons\<close>

definition AttachComponent ::
    "env \<Rightarrow> (cid \<Rightarrow> world \<Rightarrow> kerror option run) \<Rightarrow> bool \<Rightarrow> cid \<Rightarrow> world \<Rightarrow> unit run" where
  "AttachComponent E stopContainer isHead addon w =
     (case rootContainer w of
        None \<Rightarrow> Done () (w\<lparr>addons := (if isHead then addon # addons w else addons w @ [addon])\<rparr>)
      | Some r \<Rightarrow>
          runBind (Add E stopContainer r (Some addon) w) (\<lambda>err w1.
            if err \<noteq> None then Exited else Done () w1))"

text \<open>\<^verbatim>\<open>init\<close> creates the root container at an address and attaches it to itself.\<close>

definition initProcess ::
    "env \<Rightarrow> (cid \<Rightarrow> world \<Rightarrow> kerror option run) \<Rightarrow> cid \<Rightarrow> world \<Rightarrow> unit run" where
  "initProcess E stopContainer r w =
     AttachComponent E stopContainer True r
       (w\<lparr>heap := (heap w)(r := newComponent r ContainerT ''root'' [''ServeHTTP''] []),
          rootContainer := Some r\<rparr>)"

text \<open>
  The add-ons, each included by a build tag, attach themselves when their package is initialized.
\<close>

definition httpServerAddon :: "cid \<Rightarrow> component" where
  "httpServerAddon x =
     (newComponent x HttpServerT ''httpserver'' [''ServeHTTP''] [Field ''HttpPort'' ''string'' None True (VString [])])
       \<lparr>isNonRestEntity := True\<rparr>"

definition attachHttpServer ::
    "env \<Rightarrow> (cid \<Rightarrow> world \<Rightarrow> kerror option run) \<Rightarrow> cid \<Rightarrow> world \<Rightarrow> unit run" where
  "attachHttpServer E stopContainer x w =
     AttachComponent E stopContainer False x (w\<lparr>heap := (heap w)(x := httpServerAddon x)\<rparr>)"

definition fileDbAddon :: "cid \<Rightarrow> component" where
  "fileDbAddon x = newComponent x PersistenceT ''simpleFileDB'' [''ServeHTTP''] []"

definition attachFileDb ::
    "env \<Rightarrow> (cid \<Rightarrow> world \<Rightarrow> kerror option run) \<Rightarrow> cid \<Rightarrow> world \<Rightarrow> unit run" where
  "attachFileDb E stopContainer x w =
     AttachComponent E stopContainer False x (w\<lparr>heap := (heap w)(x := fileDbAddon x)\<rparr>)"

section \<open>The program\<close>

text \<open>\<^verbatim>\<open>main\<close> adds an \<^verbatim>\<open>App\<close> to itself and waits for ever; the process is left to its goroutines.\<close>

definition newApp :: "cid \<Rightarrow> component" where
  "newApp a = newComponent a AppT ''kinesis'' [''ServeHTTP'']
     [StructField ''Container'' ''Container'' True True [],
      Field ''PreviousExecutions'' ''int'' (Some ''native'') True (VInt 64 0),
      Field ''LastExecutedDateTime'' ''string'' (Some ''native'') True (VString [])]"

definition mainFunction ::
    "env \<Rightarrow> (cid \<Rightarrow> world \<Rightarrow> kerror option run) \<Rightarrow> cid \<Rightarrow> world \<Rightarrow> unit run" where
  "mainFunction E stopContainer a w =
     runBind (Add E stopContainer a (Some a) (w\<lparr>heap := (heap w)(a := newApp a)\<rparr>)) (\<lambda>err w1.
       if err \<noteq> None then Exited else Done () w1)"

text \<open>The whole start, with the add-ons the build includes.\<close>

definition startProcess ::
    "env \<Rightarrow> (cid \<Rightarrow> world \<Rightarrow> kerror option run) \<Rightarrow> cid \<Rightarrow> cid option \<Rightarrow> cid option \<Rightarrow> cid \<Rightarrow> world \<Rightarrow> unit run" where
  "startProcess E stopContainer r http db a w =
     runBind (initProcess E stopContainer r w) (\<lambda>_ w1.
     runBind (case http of None \<Rightarrow> Done () w1 | Some h \<Rightarrow> attachHttpServer E stopContainer h w1) (\<lambda>_ w2.
     runBind (case db of None \<Rightarrow> Done () w2 | Some p \<Rightarrow> attachFileDb E stopContainer p w2) (\<lambda>_ w3.
       mainFunction E stopContainer a w3)))"

section \<open>Shutdown on a signal\<close>

text \<open>
  \<open>sendShutdowns k\<close> is the loop that counts down from index \<open>k\<close> to 1. Errors are dropped; a slice
  index out of range cannot occur, as the slice never shrinks.
\<close>

fun sendShutdowns ::
    "env \<Rightarrow> (cid \<Rightarrow> world \<Rightarrow> kerror option run) \<Rightarrow> nat \<Rightarrow> world \<Rightarrow> unit run" where
  "sendShutdowns E stopContainer 0 w = Done () w"
| "sendShutdowns E stopContainer (Suc i) w =
     runBind (SendSyncMessage E stopContainer (topLevelComponents w ! Suc i) ControlMsgType
                (controlLookup Shutdown) w)
       (\<lambda>_ w1. sendShutdowns E stopContainer i w1)"

text \<open>
  The whole goroutine. The process exits when the subscription shows the root container stopped,
  unless the signal was \<^verbatim>\<open>SIGUSR1\<close>; otherwise the goroutine goes on waiting for notifications.
\<close>

definition rootStopped :: "chan \<Rightarrow> event list \<Rightarrow> bool" where
  "rootStopped ch evs \<longleftrightarrow>
     list_ex (\<lambda>e. case e of SentTo s c (StageChangeObject g) \<Rightarrow> s = ''root.init'' \<and> c = ch \<and> currObj g = Stopped
                  | _ \<Rightarrow> False) evs"

definition signalShutdown ::
    "env \<Rightarrow> (cid \<Rightarrow> world \<Rightarrow> kerror option run) \<Rightarrow> chan \<Rightarrow> bool \<Rightarrow> cid \<Rightarrow> world \<Rightarrow> unit run" where
  "signalShutdown E stopContainer ch sigusr1 r w =
     (let w1 = upd r (\<lambda>d. fst (Subscribe ''root.init'' ch d)) w;
          seen = length (trace (heap w1 r))
      in runBind (sendShutdowns E stopContainer (length (topLevelComponents w1) - 1) w1) (\<lambda>_ w2.
         case topLevelComponents w2 of
           [] \<Rightarrow> Crash w2
         | first # _ \<Rightarrow>
             runBind (SendSyncMessage E stopContainer first ControlMsgType (controlLookup Shutdown) w2) (\<lambda>_ w3.
               if rootStopped ch (drop seen (trace (heap w3 r))) \<and> \<not> sigusr1 then Exited else Done () w3)))"

end
