(* ===== verification/Lifecycle_Relation.thy ===== *)
theory Lifecycle_Relation
  imports Process_Main "HOL-Library.Sublist"
begin

text \<open>
  What every operation of the framework does to the world, stated once. A \<open>lifecycle_relation\<close> is a
  preorder on worlds that the primitive updates respect; then the state machine, the multiplexer,
  \<^verbatim>\<open>Container.Stop\<close>, \<^verbatim>\<open>Add\<close> and the goroutines respect it too. The set in it names components
  that are stopping already and that nested calls therefore do not touch. Safety properties are
  instances.
\<close>

section \<open>The edges of the state machine\<close>

inductive edge :: "stage \<Rightarrow> stage \<Rightarrow> bool" where
  submit: "edge Submitted Preinitializing"
| preinit: "edge Preinitializing Preinitialized"
| init: "edge Preinitialized Initializing"
| initialized: "edge Initializing Initialized"
| abort: "edge Initializing Aborting"
| aborted: "edge Aborting Tearingdown"
| start: "edge Initialized Starting"
| restart: "edge Restarting Starting"
| started: "edge Starting Started"
| restarting: "edge Started Restarting"
| stopping: "edge Started Stopping"
| stopped: "edge Stopping Stopped"
| stop_tear: "edge Stopped Teareddown"
| abort_tear: "edge Tearingdown Teareddown"

code_pred edge .

lemmas edges [simp, intro] = edge.intros

inductive_simps edge_from [simp]:
  "edge Submitted t" "edge Preinitializing t" "edge Preinitialized t" "edge Initializing t"
  "edge Initialized t" "edge Starting t" "edge Restarting t" "edge Started t" "edge Stopping t"
  "edge Stopped t" "edge Tearingdown t" "edge Teareddown t" "edge Aborting t"

inductive_cases edge_to_init: "edge s Initializing"

section \<open>Results of a run\<close>

text \<open>The world a run ends in satisfies \<open>P\<close>, after a panic too.\<close>

definition safely :: "(world \<Rightarrow> bool) \<Rightarrow> 'a run \<Rightarrow> bool" where
  "safely P r \<longleftrightarrow> (case r of Done x w \<Rightarrow> P w | Crash w \<Rightarrow> P w | Exited \<Rightarrow> True | Stuck \<Rightarrow> True)"

lemma safely_simps [simp]:
  "safely P (Done x w) = P w" "safely P (Crash w) = P w" "safely P Exited" "safely P Stuck"
  by (simp_all add: safely_def)

lemma safely_mono: "safely P r \<Longrightarrow> (\<And>w. P w \<Longrightarrow> Q w) \<Longrightarrow> safely Q r"
  by (cases r) simp_all

lemma safely_runBind:
  "safely P r \<Longrightarrow> (\<And>w. P w \<Longrightarrow> Q w) \<Longrightarrow> (\<And>x w. r = Done x w \<Longrightarrow> P w \<Longrightarrow> safely Q (f x w)) \<Longrightarrow>
   safely Q (runBind r f)"
  by (cases r) simp_all

lemma safely_Done: "safely P r \<Longrightarrow> r = Done x w \<Longrightarrow> P w"
  by simp

section \<open>Primitive updates\<close>

text \<open>What identifies a component and says where in its life it is.\<close>

definition sameLife :: "component \<Rightarrow> component \<Rightarrow> bool" where
  "sameLife d d' \<longleftrightarrow>
     Stage d' = Stage d \<and> State d' = State d \<and> Name d' = Name d \<and> self d' = self d \<and>
     gotype d' = gotype d \<and> httpMethods d' = httpMethods d \<and>
     isNonRestEntity d' = isNonRestEntity d \<and> asContainer d' = asContainer d"

lemma sameLife_core: "core d' = core d \<Longrightarrow> sameLife d d'"
  using core_eqD [of d' d] by (simp add: sameLife_def)

lemma sameLife_upds [simp]:
  "sameLife d (d\<lparr>persistanceCache := pc\<rparr>)" "sameLife d (d\<lparr>userFields := fs\<rparr>)"
  "sameLife d (d\<lparr>asPersistence := q\<rparr>)" "sameLife d (d\<lparr>uri := u\<rparr>)" "sameLife d (preInit d)"
  "sameLife d (d\<lparr>mmuxBuffer := m'\<rparr>)"
  "sameLife d (setContainer c d)" "sameLife d (SetSyncMessageHandler m h d)"
  by (simp_all add: sameLife_def preInit_def setContainer_def SetSyncMessageHandler_def)

lemma sameLife_methods [simp]:
  "sameLife d (fst (Callback b cb d))" "sameLife d (fst (Subscribe s ch d))"
  "sameLife d (fst (Unsubscribe s d))" "sameLife d (fst (removeCallbackAt i d))"
  "sameLife d (d\<lparr>hash := h', Etag := t', drawn := n'\<rparr>)" "sameLife d (fst (createCopy E d))"
  by (simp_all add: sameLife_core)

text \<open>Everything outside the components that only grows.\<close>

definition sameCore :: "world \<Rightarrow> world \<Rightarrow> bool" where
  "sameCore w w' \<longleftrightarrow>
     heap w' = heap w \<and> rootContainer w' = rootContainer w \<and> tornDown w' = tornDown w \<and>
     prefix (topLevelComponents w) (topLevelComponents w') \<and>
     (runOncePersistence w \<longrightarrow> runOncePersistence w') \<and> (runOnceHttp w \<longrightarrow> runOnceHttp w')"

lemma sameCore_upds [simp]:
  "sameCore w (w\<lparr>nonces := n\<rparr>)" "sameCore w (w\<lparr>disk := D\<rparr>)" "sameCore w (w\<lparr>tasks := ts\<rparr>)"
  "sameCore w (w\<lparr>slept := sl\<rparr>)" "sameCore w (w\<lparr>addons := as\<rparr>)" "sameCore w (addTask t w)"
  "sameCore w (w\<lparr>runOncePersistence := True\<rparr>)" "sameCore w (w\<lparr>runOnceHttp := True\<rparr>)"
  "sameCore w (w\<lparr>topLevelComponents := topLevelComponents w @ xs\<rparr>)" "sameCore w (endMmux c x w)"
  by (simp_all add: sameCore_def endMmux_def)

text \<open>The step from the last stage before to \<^verbatim>\<open>Teareddown\<close>, with its ghost note.\<close>

definition tearStep :: "env \<Rightarrow> cid \<Rightarrow> world \<Rightarrow> world" where
  "tearStep E x w =
     upd x (setStage E Teareddown) ((upd x tearDown w)\<lparr>tornDown := tornDown w @ [x]\<rparr>)"

definition keepsNames :: "(containerPart \<Rightarrow> containerPart) \<Rightarrow> bool" where
  "keepsNames f \<longleftrightarrow> (\<forall>k. components (f k) = components k \<and> cComponents (f k) = cComponents k)"

lemma keepsNames_upds [simp]:
  "keepsNames (\<lambda>k. k\<lparr>cHandlers := g k\<rparr>)" "keepsNames (\<lambda>k. k\<lparr>persistence := q\<rparr>)"
  "keepsNames (\<lambda>k. k\<lparr>compActivationQueue := b\<rparr>)"
  by (simp_all add: keepsNames_def)

text \<open>Loading touches nothing but the fields of the component and leaves containers alone.\<close>

lemma load_asContainer: "load E r x w = Done e w' \<Longrightarrow> asContainer (heap w' y) = asContainer (heap w y)"
  by (auto simp: load_def Let_def split: option.splits outcome.splits prod.splits if_splits)

lemma withPersistence_load_asContainer: 
  "withPersistence (\<lambda>r. load E r x) w = Done e w' \<Longrightarrow> asContainer (heap w' y) = asContainer (heap w y)"
  by (auto simp: withPersistence_def load_asContainer split: option.splits)

section \<open>Relations every operation respects\<close>

locale lifecycle_relation =
  fixes R :: "cid set \<Rightarrow> world \<Rightarrow> world \<Rightarrow> bool"
  assumes R_refl: "R S w w"
    and R_trans: "R S w w1 \<Longrightarrow> R S w1 w2 \<Longrightarrow> R S w w2"
    and R_mono: "R T w w1 \<Longrightarrow> S \<subseteq> T \<Longrightarrow> R S w w1"
    and R_frozen: "R S w w1 \<Longrightarrow> y \<in> S \<Longrightarrow> Stage (heap w1 y) = Stage (heap w y)"
    and R_frame: "sameLife (heap w x) (f (heap w x)) \<Longrightarrow> R S w (upd x f w)"
    and R_core: "sameCore w w1 \<Longrightarrow> R S w w1"
    and R_part: "keepsNames g \<Longrightarrow> R S w (updPart c g w)"
    and R_enter: "enterComponent n cc (cpart w c) = (k, None) \<Longrightarrow> cComponents (cpart w c) \<noteq> None \<Longrightarrow>
      cName cc = n \<Longrightarrow> ccomp cc \<noteq> None \<Longrightarrow> R S w (updPart c (\<lambda>_. k) w)"
    and R_remove: "R S w (removeComponent c n w)"
    and R_init: "R S w w1 \<Longrightarrow> Stage (heap w x) < Initializing \<Longrightarrow> Stage (heap w1 x) = Initializing \<Longrightarrow>
      asContainer (heap w1 x) = asContainer (heap w x) \<Longrightarrow> R S w (containerInit x w1)"
    and R_stage: "x \<notin> S \<Longrightarrow> edge (Stage (heap w x)) s \<Longrightarrow> s \<noteq> Teareddown \<Longrightarrow>
      R S w (upd x (setStage E s) w)"
    and R_tear: "x \<notin> S \<Longrightarrow> edge (Stage (heap w x)) Teareddown \<Longrightarrow> R S w (tearStep E x w)"
begin

lemma R_step: "R S w w1 \<Longrightarrow> (\<And>v. v = w1 \<Longrightarrow> R S v w2) \<Longrightarrow> R S w w2"
  using R_trans by blast

lemma safely_R_bind:
  assumes "safely (R T w) r" and "S \<subseteq> T"
    and "\<And>x w1. r = Done x w1 \<Longrightarrow> R T w w1 \<Longrightarrow> safely (R S w1) (f x w1)"
  shows "safely (R S w) (runBind r f)"
proof (rule safely_runBind [OF assms(1)])
  show "R S w w1" if "R T w w1" for w1 using R_mono [OF that assms(2)] .
  show "safely (R S w) (f x w1)" if "r = Done x w1" "R T w w1" for x w1
    using safely_mono [OF assms(3) [OF that]] R_trans [OF R_mono [OF that(2) assms(2)]] by blast
qed

lemma safely_R_trans: "R S w w1 \<Longrightarrow> safely (R S w1) r \<Longrightarrow> safely (R S w) r"
  using safely_mono R_trans by blast

lemma R_persist_Done: "R S w w1 \<Longrightarrow> R S w (w1\<lparr>disk := D\<rparr>)"
  by (rule R_trans [OF _ R_core], assumption) simp

lemma persist_R: "safely (R S w) (persist E r x w)"
proof -
  have n: "R S w (w\<lparr>nonces := m\<rparr>)" for m by (simp add: R_core)
  moreover have "R S w (upd x (\<lambda>d. d\<lparr>persistanceCache := b\<rparr>) (w\<lparr>nonces := m\<rparr>))" for m b
    using R_trans [OF n R_frame] sameLife_upds(1) by blast
  ultimately show ?thesis
    by (auto simp: persist_def Let_def R_refl intro: R_persist_Done
        split: option.split prod.split outcome.split)
qed

lemma load_R: "safely (R S w) (load E r x w)"
  by (auto simp: load_def Let_def R_refl R_frame split: option.split prod.split outcome.split)

lemma withPersistence_R:
  "(\<And>r. safely (R S w) (f r w)) \<Longrightarrow> safely (R S w) (withPersistence f w)"
  by (auto simp: withPersistence_def R_refl split: option.split)

lemma runHook_R: "safely (R S w) (runHook h ty x w)"
  by (simp add: runHook_def R_frame split: hookResult.split)

lemma persistenceInit_R: "safely (R S w) (persistenceInit E x w)"
proof (cases "runOncePersistence w")
  case False
  let ?w1 = "w\<lparr>runOncePersistence := True\<rparr>"
  let ?f = "\<lambda>d. d\<lparr>asPersistence := map_option (\<lambda>k. k\<lparr>symmetricEncryptKey :=
      Some (hexEncode (deriveKey E (getenv E ''KINESIS_DB_SYMMETRIC_ENCRYPT_KEY'')))\<rparr>) (asPersistence d)\<rparr>"
  have 1: "R S w (upd x ?f ?w1)"
    by (rule R_trans [OF R_core [OF sameCore_upds(7)] R_frame]) simp
  have 2: "R S (upd x ?f ?w1) (upd x g (upd x ?f ?w1))" if "\<forall>d. sameLife d (g d)" for g
    using that R_frame by blast
  have "R S w ((upd x (\<lambda>d. d\<lparr>asPersistence := map_option (\<lambda>k. k\<lparr>dbHandle := db\<rparr>) (asPersistence d)\<rparr>)
      (upd x ?f ?w1))\<lparr>disk := D\<rparr>)" for db D
    by (rule R_persist_Done, rule R_trans [OF 1 2]) simp
  then show ?thesis
    using False by (simp add: persistenceInit_def Let_def split: prod.split)
qed (simp add: persistenceInit_def R_refl)

lemma virtualPostInit_R: "safely (R S w) (virtualPostInit E x w)"
  by (simp add: virtualPostInit_def appPostInit_def R_refl R_frame runHook_R split: gotype.split)

lemma virtualInit_R:
  assumes "R S w w1" and "Stage (heap w x) < Initializing" and "Stage (heap w1 x) = Initializing"
    and "asContainer (heap w1 x) = asContainer (heap w x)"
  shows "safely (\<lambda>w2. R S w w2 \<and> Stage (heap w2 x) = Initializing) (virtualInit E x w1)"
proof -
  have other: "safely (\<lambda>w2. R S w w2 \<and> Stage (heap w2 x) = Initializing) r"
    if "safely (R (insert x S) w1) r" for r :: "kerror option run"
    using that R_mono [of "insert x S" w1 _ S] R_trans [OF assms(1)] R_frozen [of "insert x S" w1 _ x] assms(3)
    by (auto intro!: safely_mono [OF that])
  have cont: "R S w (containerInit x w1) \<and> Stage (heap (containerInit x w1) x) = Initializing"
    using R_init [OF assms] assms(3) by (simp add: containerInit_def)
  show ?thesis
    unfolding virtualInit_def
    using cont other [OF persistenceInit_R] other [OF runHook_R] other [of "Done None w1"]
      other [of "httpServerInit x w1"] assms(1,3)
    by (simp add: R_refl R_core httpServerInit_def split: gotype.split)
qed

end

section \<open>The state machine and the multiplexer respect them\<close>

text \<open>
  What nested calls may assume of \<^verbatim>\<open>Container.Stop\<close>: it respects the relation for every set of
  components that are stopping.
\<close>

definition stopping :: "cid set \<Rightarrow> world \<Rightarrow> bool" where
  "stopping S w \<longleftrightarrow> (\<forall>y \<in> S. Stopping \<le> Stage (heap w y))"

lemma stopping_empty [simp]: "stopping {} w"
  by (simp add: stopping_def)

context lifecycle_relation
begin

definition well_behaved :: "(cid \<Rightarrow> world \<Rightarrow> kerror option run) \<Rightarrow> bool" where
  "well_behaved halt \<longleftrightarrow> (\<forall>S c w. stopping S w \<longrightarrow> safely (R S w) (halt c w))"

lemma stopping_R: "stopping S w \<Longrightarrow> R S w w1 \<Longrightarrow> stopping S w1"
  using R_frozen by (simp add: stopping_def)

lemma R_insert: 
  assumes "R S w w1" and "R (insert x S) w1 w2"
  shows "R S w w2" and "Stage (heap w2 x) = Stage (heap w1 x)"
  using R_trans [OF assms(1) R_mono [OF assms(2)]] R_frozen [OF assms(2), of x] by auto

text \<open>The end of an initialization, from a world in which the component is \<^verbatim>\<open>Initializing\<close>.\<close>

lemma initEnd_R:
  assumes "x \<notin> S" and "R S w w1" and "Stage (heap w1 x) = Initializing"
  shows "R S w (upd x (setStage E Tearingdown) (upd x (setStage E Aborting) w1))"
    and "R S w (upd x (setStage E Initialized) w1)"
proof -
  have "R S w (upd x (setStage E Aborting) w1)"
    using assms(1,3) by (intro R_trans [OF assms(2) R_stage]) simp_all
  then show "R S w (upd x (setStage E Tearingdown) (upd x (setStage E Aborting) w1))"
    using assms(1) by (elim R_trans) (intro R_stage, simp_all)
  show "R S w (upd x (setStage E Initialized) w1)"
    using assms(1,3) by (intro R_trans [OF assms(2) R_stage]) simp_all
qed

lemma postInit_R:
  assumes "x \<notin> S" and "R S w w2" and "Stage (heap w2 x) = Initializing"
  shows "safely (R S w) (runBind (virtualPostInit E x w2) (\<lambda>err w3.
              if err \<noteq> None
              then Done err (upd x (setStage E Tearingdown) (upd x (setStage E Aborting) w3))
              else Done None (upd x (setStage E Initialized) w3)))"
proof (rule safely_runBind [OF virtualPostInit_R [where S = "insert x S"]])
  fix w3 assume w3: "R (insert x S) w2 w3"
  show "R S w w3" by (rule R_insert [OF assms(2) w3])
  fix err
  show "safely (R S w) (if err \<noteq> None
              then Done err (upd x (setStage E Tearingdown) (upd x (setStage E Aborting) w3))
              else Done None (upd x (setStage E Initialized) w3))" for err :: "kerror option"
    using initEnd_R [OF assms(1)] R_insert [OF assms(2) w3] assms(3) by simp
qed

lemma initComponent_R:
  assumes "x \<notin> S" and "Stage (heap w x) = Preinitialized"
  shows "safely (R S w) (initComponent E x w)"
  unfolding initComponent_def
proof (rule safely_runBind [OF withPersistence_R [OF load_R, where S = "insert x S"]])
  let ?wA = "upd x (setStage E Initializing) w"
  have A: "R S w ?wA" using assms by (intro R_stage) simp_all
  fix w1 assume rel: "R (insert x S) ?wA w1"
  show "R S w w1" by (rule R_insert [OF A rel])
  fix e
  assume r: "withPersistence (\<lambda>r. load E r x) ?wA = Done e w1"
  have "asContainer (heap w1 x) = asContainer (heap w x)"
    using withPersistence_load_asContainer [OF r] by simp
  moreover have "R S w w1" "Stage (heap w1 x) = Initializing" using R_insert [OF A rel] by simp_all
  ultimately have vi: "safely (\<lambda>w2. R S w w2 \<and> Stage (heap w2 x) = Initializing) (virtualInit E x w1)"
    using assms(2) by (intro virtualInit_R) (simp_all add: stage_order)
  show "safely (R S w) (runBind (virtualInit E x w1) (\<lambda>err w2.
       if err \<noteq> None
       then Done err (upd x (setStage E Tearingdown) (upd x (setStage E Aborting) w2))
       else runBind (virtualPostInit E x w2) (\<lambda>err w3.
              if err \<noteq> None
              then Done err (upd x (setStage E Tearingdown) (upd x (setStage E Aborting) w3))
              else Done None (upd x (setStage E Initialized) w3))))"
  proof (rule safely_runBind [OF vi])
    fix err w2
    assume "R S w w2 \<and> Stage (heap w2 x) = Initializing"
    then show "safely (R S w) (if err \<noteq> None
       then Done err (upd x (setStage E Tearingdown) (upd x (setStage E Aborting) w2))
       else runBind (virtualPostInit E x w2) (\<lambda>err w3.
              if err \<noteq> None
              then Done err (upd x (setStage E Tearingdown) (upd x (setStage E Aborting) w3))
              else Done None (upd x (setStage E Initialized) w3)))"
      using initEnd_R(1) [OF assms(1)] postInit_R [OF assms(1)]
      by (cases "err = None") (simp_all only: safely_simps if_True if_False simp_thms)
  qed simp
qed

end

context lifecycle_relation
begin

lemma R_frames:
  assumes "R S w w1" and "sameLife (heap w1 x) (f (heap w1 x))"
  shows "R S w (upd x f w1)"
  by (rule R_trans [OF assms(1)], rule R_frame, rule assms(2))

lemma R_cores: "R S w w1 \<Longrightarrow> sameCore w1 w2 \<Longrightarrow> R S w w2"
  using R_trans R_core by blast

lemma R_stages: "R S w w1 \<Longrightarrow> x \<notin> S \<Longrightarrow> edge (Stage (heap w1 x)) s \<Longrightarrow> s \<noteq> Teareddown \<Longrightarrow>
    R S w (upd x (setStage E s) w1)"
  using R_trans R_stage by blast

lemma preinitComponent_R:
  assumes "x \<notin> S" and "Stage (heap w x) = Preinitializing"
  shows "safely (R S w) (preinitComponent E c x w)"
proof -
  let ?cb = "\<lambda>d. fst (Callback True StateChangeCallback d)"
  let ?w2 = "upd x ?cb (upd x preInit w)"
  let ?h = "SetSyncMessageHandler (StringI (Name (heap ?w2 x))) (Some DefaultHandler)"
  let ?w3 = "if getSyncMessageHandler (heap ?w2 x) (StringI (Name (heap ?w2 x))) = None
                then upd x ?h ?w2 else ?w2"
  let ?w4 = "addTask (MmuxTask c x) ?w3"
  have 2: "R S w ?w2"
    by (intro R_frames R_refl sameLife_upds sameLife_methods)
  have "R S w (upd x ?h ?w2)" by (rule R_frames [OF 2]) simp
  with 2 have "R S w ?w3" by simp
  then have 4: "R S w ?w4" by (rule R_cores) simp
  have "Stage (?cb (preInit (heap w x))) = Stage (heap w x)"
    using sameLife_methods(1) [of "preInit (heap w x)"] by (simp add: sameLife_def preInit_def)
  then have st: "Stage (heap ?w4 x) = Preinitializing"
    using assms(2) by (simp add: SetSyncMessageHandler_def)
  have 5: "R S w (upd x (setStage E Preinitialized) ?w4)"
    using 4 assms(1) st by (intro R_stages) simp_all
  have "safely (R S (upd x (setStage E Preinitialized) ?w4)) (initComponent E x (upd x (setStage E Preinitialized) ?w4))"
    using assms(1) by (intro initComponent_R) simp_all
  with 5 show ?thesis
    unfolding preinitComponent_def Let_def by (rule safely_R_trans)
qed

lemma runComponent_R:
  assumes "x \<notin> S" and "Stage (heap w x) = Initialized \<or> Stage (heap w x) = Restarting"
  shows "safely (R S w) (runComponent E c x w)"
proof -
  let ?w1 = "upd x (setStage E Starting) (addTask (PreStartTask x) w)"
  have 1: "R S w ?w1"
    using assms by (intro R_stages R_core) auto
  then have "R S w (addTask (StartTask c x) ?w1)" by (rule R_cores) simp
  then have "R S w (upd x (setStage E Started) (addTask (StartTask c x) ?w1))"
    using assms(1) by (rule R_stages) simp_all
  then show ?thesis by (simp add: runComponent_def)
qed

lemma controlComponent_R:
  assumes "x \<notin> S" and "Stage (heap w x) = Started"
  shows "safely (R S w) (controlComponent E c ctx x w)"
proof -
  have "R S w (upd x (setStage E s) w)" if "s \<in> {Restarting, Stopping}" for s
    using assms that by (intro R_stage) auto
  moreover have "R S w ((upd x (setStage E Restarting) w)\<lparr>slept := sl\<rparr>)" for sl
    by (rule R_cores [OF calculation [of Restarting]]) simp_all
  ultimately show ?thesis
    by (simp add: controlComponent_def Let_def R_refl R_core split: iface.split controlMsg.split)
qed

lemma tearDownComponent_R:
  assumes "x \<notin> S" and "Stage (heap w x) = Stopped \<or> Stage (heap w x) = Tearingdown"
  shows "safely (R S w) (tearDownComponent E c x w)"
proof -
  have "tearDownComponent E c x w = Done None (removeComponent c (Name (heap (tearStep E x w) x)) (tearStep E x w))"
    by (simp add: tearDownComponent_def tearStep_def Let_def)
  moreover have "R S w (tearStep E x w)"
    using assms by (intro R_tear) auto
  ultimately show ?thesis using R_trans R_remove by simp
qed

lemma deriveHttpHandlers_R: "safely (R S w) (deriveHttpHandlers x w)"
  by (simp add: deriveHttpHandlers_def Let_def R_refl R_frame split: option.split)

lemma removeHttpHandlers_R: "safely (R S w) (removeHttpHandlers c x w)"
  unfolding removeHttpHandlers_def
  by (rule safely_R_bind [OF deriveHttpHandlers_R order_refl]) (simp add: R_part)

lemma virtualStop_R:
  assumes "well_behaved stop" and "stopping S w"
  shows "safely (R S w) (virtualStop E stop x w)"
proof -
  have "safely (R S w) (stop x w)" using assms by (simp add: well_behaved_def)
  moreover have "safely (R S w) (persistenceStop x w)"
    by (simp add: persistenceStop_def Disconnect_def R_frame split: option.split prod.split)
  ultimately show ?thesis
    by (simp add: virtualStop_def R_refl runHook_R split: gotype.split)
qed

lemma stopComponent_R:
  assumes "well_behaved stop" and "stopping S w" and "x \<notin> S" and "Stage (heap w x) = Stopping"
  shows "safely (R S w) (stopComponent E stop c x w)"
  unfolding stopComponent_def
proof (rule safely_runBind [OF virtualStop_R [OF assms(1), of "insert x S"]])
  show "stopping (insert x S) w" using assms(2,4) by (simp add: stopping_def)
  fix w1 assume r1: "R (insert x S) w w1"
  note 1 = R_insert [OF R_refl r1]
  show "R S w w1" by (rule 1)
  fix err :: "kerror option"
  have "safely (R S w) (runBind (removeHttpHandlers c x w1) (\<lambda>_ w2.
              tearDownComponent E c x (upd x (setStage E Stopped) w2)))"
  proof (rule safely_runBind [OF removeHttpHandlers_R [of "insert x S"]])
    fix w2 assume r2: "R (insert x S) w1 w2"
    note 2 = R_insert [OF 1(1) r2]
    show "R S w w2" by (rule 2)
    have "R S w (upd x (setStage E Stopped) w2)"
      using 1 2 assms(3,4) by (intro R_stages) simp_all
    moreover have "safely (R S (upd x (setStage E Stopped) w2)) (tearDownComponent E c x (upd x (setStage E Stopped) w2))"
      using assms(3) by (intro tearDownComponent_R) simp_all
    ultimately show "safely (R S w) (tearDownComponent E c x (upd x (setStage E Stopped) w2))"
      by (rule safely_R_trans)
  qed
  with 1 show "safely (R S w) (if err \<noteq> None then Done err w1 else runBind (removeHttpHandlers c x w1) (\<lambda>_ w2.
              tearDownComponent E c x (upd x (setStage E Stopped) w2)))"
    by simp
qed

lemma stageSwitch_R:
  assumes "well_behaved stop" and "stopping S w" and "x \<notin> S"
  shows "safely (R S w) (stageSwitch E stop c ctx x w)"
proof (cases "Stage (heap w x)")
  case Submitted
  let ?w = "upd x (setStage E Preinitializing) w"
  have "R S w ?w" using assms(3) Submitted by (intro R_stage) simp_all
  moreover have "safely (R S ?w) (preinitComponent E c x ?w)"
    using assms(3) by (intro preinitComponent_R) simp_all
  ultimately show ?thesis by (simp add: stageSwitch_def Submitted safely_R_trans)
qed (simp_all add: stageSwitch_def R_refl assms preinitComponent_R initComponent_R runComponent_R
       controlComponent_R stopComponent_R tearDownComponent_R)

lemma componentLifecycleFSM_R:
  assumes "well_behaved stop" and "stopping S w" and "x \<notin> S"
  shows "safely (R S w) (componentLifecycleFSM E stop c ctx x w)"
proof -
  have p: "safely (R S w1) (withPersistence (\<lambda>r. persist E r x) w1)" for w1
    by (intro withPersistence_R persist_R)
  have "safely (R S w) (stageSwitch E stop c ctx x w)" using assms by (rule stageSwitch_R)
  then show ?thesis
    unfolding componentLifecycleFSM_def deferPersist_def
    by (cases "stageSwitch E stop c ctx x w")
      (auto intro!: safely_R_trans [OF _ safely_R_bind [OF p order_refl]] simp: R_refl)
qed

end

section \<open>Messages, stopping, adding\<close>

lemma deriveHttpHandlers_Name: "deriveHttpHandlers x w = Done hs w1 \<Longrightarrow> Name (heap w1 y) = Name (heap w y)"
  by (auto simp: deriveHttpHandlers_def Let_def split: option.splits if_splits)

lemma toCanonical_entry:
  assumes "toCanonical c x w = Done cc w1"
  shows "cName cc = Name (heap w1 x) \<and> ccomp cc = Some x"
proof -
  define w0 where "w0 = (if \<not> Matches c x then upd x (setContainer c) w
             else w\<lparr>topLevelComponents := topLevelComponents w @ [x]\<rparr>)"
  obtain hs w2 where d: "deriveHttpHandlers x w0 = Done hs w2"
    and r: "(if hs = [] then Done \<lparr>cName = Name (heap w0 x), ccomp = Some x\<rparr> w2
           else case rootContainer w2 of
             None \<Rightarrow> Crash w2
           | Some r \<Rightarrow>
               (case cHandlers (cpart w2 r) of
                  None \<Rightarrow> Crash w2
                | Some tbl \<Rightarrow> Done \<lparr>cName = Name (heap w0 x), ccomp = Some x\<rparr>
                    (updPart r (\<lambda>k. k\<lparr>cHandlers := Some (addHandlers hs tbl)\<rparr>) w2))) = Done cc w1"
    using assms unfolding toCanonical_def w0_def [symmetric] Let_def by auto
  have "Name (heap w2 x) = Name (heap w0 x)" by (rule deriveHttpHandlers_Name [OF d])
  with r show ?thesis by (auto split: if_splits option.splits)
qed

context lifecycle_relation
begin

lemma reply_R: "safely (R S w) (reply ch err again w)"
  by (simp add: reply_def R_refl split: replyChan.split)

lemma rejectMessage_R: "safely (R S w) (rejectMessage ch err w)"
  by (simp add: rejectMessage_def reply_R R_refl)

lemma notifyListeners_R: "safely (R S w) (notifyListeners E x ch w)"
proof -
  obtain d s where c: "createCopy E (heap w x) = (d, s)" by fastforce
  let ?d1 = "d\<lparr>componentCache := Some s\<rparr>"
  have "sameLife (heap w x) d" using sameLife_methods(6) [of "heap w x" E] c by simp
  then have 1: "sameLife (heap w x) ?d1" by (simp add: sameLife_def)
  have "sameLife ?d1 (notifySubscribers ch' (invokeCallbacks E ch' ?d1))" for ch'
    by (rule sameLife_core) simp
  with 1 have "sameLife (heap w x) (notifySubscribers ch' (invokeCallbacks E ch' ?d1))" for ch'
    by (simp add: sameLife_def)
  then have "safely (R S w) (reply ch None True (upd x (\<lambda>_. notifySubscribers ch' (invokeCallbacks E ch' ?d1)) w))" for ch'
    by (intro safely_R_trans [OF R_frame reply_R])
  then show ?thesis by (simp add: notifyListeners_def c Let_def)
qed

lemma persistComponent_R: "safely (R S w) (persistComponent E x ch w)"
  unfolding persistComponent_def
  by (rule safely_R_bind [OF withPersistence_R [OF persist_R] order_refl])
    (simp add: reply_R notifyListeners_R)

lemma runHandler_R: "safely (R S w) (runHandler E h msg x w)"
  by (simp add: runHandler_def Let_def R_frame split: hookResult.split)

lemma handleMessage_R: "safely (R S w) (handleMessage E x mtype msg ch w)"
proof -
  have "safely (R S w) (runBind (runHandler E h msg x w) (\<lambda>err w1.
               if err \<noteq> None then reply ch err True w1 else persistComponent E x ch w1))" for h
    by (rule safely_R_bind [OF runHandler_R order_refl]) (simp add: reply_R persistComponent_R)
  then show ?thesis
    by (simp add: handleMessage_def Let_def R_refl split: option.split)
qed

lemma shutdownMessage_R:
  assumes "well_behaved stop" and "stopping S w" and "x \<notin> S"
  shows "safely (R S w) (shutdownMessage E stop c x ctx ch w)"
  unfolding shutdownMessage_def
proof (rule safely_R_bind [OF componentLifecycleFSM_R [OF assms] order_refl])
  fix err w1 assume "R S w w1"
  then have s: "stopping S w1" using assms(2) stopping_R by blast
  have "safely (R S w1) (runBind (componentLifecycleFSM E stop c ctx x w1) (\<lambda>err w2.
              if err \<noteq> None then reply ch err True w2 else reply ch None False w2))"
    by (rule safely_R_bind [OF componentLifecycleFSM_R [OF assms(1) s assms(3)] order_refl])
      (simp add: reply_R)
  then show "safely (R S w1) (if Stage (heap w1 x) = Stopping
       then runBind (componentLifecycleFSM E stop c ctx x w1) (\<lambda>err w2.
              if err \<noteq> None then reply ch err True w2 else reply ch None False w2)
       else reply ch None False w1)"
    by (simp add: reply_R)
qed

lemma serveMessage_R:
  assumes "well_behaved stop" and "stopping S w" and "x \<notin> S"
  shows "safely (R S w) (serveMessage E stop c x m w)"
  by (simp add: serveMessage_def Let_def rejectMessage_R shutdownMessage_R [OF assms]
      persistComponent_R notifyListeners_R handleMessage_R reply_R R_refl
      split: option.split iface.split controlMsg.split)

lemma mmuxRound_R:
  assumes "well_behaved stop" and "stopping S w" and "x \<notin> S"
  shows "safely (R S w) (mmuxRound E stop c x m w)"
proof -
  have "R S w (endMmux c x w1)" if "R S w w1" for w1 by (rule R_cores [OF that]) simp
  then show ?thesis
    using serveMessage_R [OF assms, of E c m]
    by (cases "serveMessage E stop c x m w") (auto simp: mmuxRound_def split: prod.split)
qed

lemma putMessage_R: "R S w (putMessage x m w)"
  by (simp add: putMessage_def R_frame)

lemma takeMessage_R:
  assumes "well_behaved stop" and "stopping S w" and "x \<notin> S"
  shows "safely (R S w) (takeMessage E stop c x w)"
proof -
  have "stopping S (putMessage x None w)" using stopping_R [OF assms(2) putMessage_R] .
  from safely_R_trans [OF putMessage_R mmuxRound_R [OF assms(1) this assms(3)]] show ?thesis
    by (simp add: takeMessage_def R_refl split: option.split)
qed

lemma awaitServed_R:
  assumes "well_behaved stop" and "stopping S w" and "x \<notin> S"
  shows "safely (R S w) (awaitServed E stop x w)"
proof -
  have "safely (R S w) (runBind (takeMessage E stop c x w)
      (\<lambda>r w1. Done (case r of None \<Rightarrow> Some DeadlineExceeded | Some err \<Rightarrow> err) w1))" for c
    by (rule safely_R_bind [OF takeMessage_R [OF assms] order_refl]) (simp add: R_refl)
  then show ?thesis by (simp add: awaitServed_def abandonMessage_def putMessage_R split: option.split)
qed

lemma SendSyncMessage_R:
  assumes "well_behaved stop" and "stopping S w"
  shows "safely (R S w) (SendSyncMessage E stop x mtype lookup w)"
proof (cases "Stopping \<le> Stage (heap w x)")
  case False
  then have x: "x \<notin> S" using assms(2) by (auto simp: stopping_def)
  have post: "safely (R S w) (runBind (postMessage x m w) (\<lambda>_ w1. awaitServed E stop x w1))" for m
  proof (rule safely_R_bind [OF _ order_refl])
    show "safely (R S w) (postMessage x m w)" by (simp add: postMessage_def putMessage_R)
  qed (use awaitServed_R [OF assms(1) _ x] stopping_R [OF assms(2)] in blast)
  have "safely (R S w) (runBind (mmuxRound E stop c x p (putMessage x m w)) (\<lambda>_ w1. awaitServed E stop x w1))" for c p m
  proof (rule safely_R_trans [OF putMessage_R safely_R_bind [OF mmuxRound_R order_refl]])
    show st: "stopping S (putMessage x m w)" using stopping_R [OF assms(2) putMessage_R] .
    show "safely (R S w1) (awaitServed E stop x w1)" if "R S (putMessage x m w) w1" for w1
      using awaitServed_R [OF assms(1) _ x] stopping_R [OF st that] by blast
  qed (use assms(1) x in simp_all)
  with post show ?thesis
    using False by (simp add: SendSyncMessage_def Let_def R_refl split: option.split)
qed (simp add: SendSyncMessage_def Let_def R_refl)

lemma containerStop_well_behaved: "well_behaved (containerStop E n)"
proof (induction n)
  case (Suc n)
  have "safely (R S w) (containerStop E (Suc n) c w)" if st: "stopping S w" for S c w
  proof (cases "components (cpart w c)")
    case (Cons name rest)
    let ?child = "Option.bind (mapGet (cComponents (cpart w c)) (last (components (cpart w c)))) ccomp"
    let ?first = "case ?child of
                   None \<Rightarrow> Done None w
                 | Some y \<Rightarrow>
                     if Matches c y then Done None w
                     else SendSyncMessage E (containerStop E n) y ControlMsgType (controlLookup Shutdown) w"
    have f: "safely (R S w) ?first"
      using SendSyncMessage_R [OF Suc st] by (simp add: R_refl split: option.split)
    have "safely (R S w) (runBind ?first (\<lambda>_ w1. if rest = [] \<and> ?child = Some c then Done None w1
                        else containerStop E n c w1))"
    proof (rule safely_R_bind [OF f order_refl])
      fix e w1 assume "R S w w1"
      then have "safely (R S w1) (containerStop E n c w1)"
        using Suc stopping_R [OF st] by (simp add: well_behaved_def)
      then show "safely (R S w1) (if rest = [] \<and> ?child = Some c then Done None w1 else containerStop E n c w1)"
        by (simp add: R_refl)
    qed
    then show ?thesis using Cons by (simp add: Let_def)
  qed (simp add: R_refl)
  then show ?case by (simp add: well_behaved_def)
qed (simp add: well_behaved_def)

lemma toCanonical_R: "safely (R S w) (toCanonical c x w)"
proof -
  let ?w1 = "if \<not> Matches c x then upd x (setContainer c) w
             else w\<lparr>topLevelComponents := topLevelComponents w @ [x]\<rparr>"
  let ?cc = "\<lparr>cName = Name (heap ?w1 x), ccomp = Some x\<rparr>"
  have 1: "R S w ?w1" by (simp add: R_frame R_core)
  have "safely (R S ?w1) (runBind (deriveHttpHandlers x ?w1) (\<lambda>handlers w2.
           if handlers = [] then Done ?cc w2
           else case rootContainer w2 of
             None \<Rightarrow> Crash w2
           | Some r \<Rightarrow>
               (case cHandlers (cpart w2 r) of
                  None \<Rightarrow> Crash w2
                | Some tbl \<Rightarrow> Done ?cc (updPart r (\<lambda>k. k\<lparr>cHandlers := Some (addHandlers handlers tbl)\<rparr>) w2))))"
    by (rule safely_R_bind [OF deriveHttpHandlers_R order_refl]) (simp add: R_refl R_part split: option.split)
  then show ?thesis
    unfolding toCanonical_def Let_def by (rule safely_R_trans [OF 1])
qed

lemma activateComponent_R:
  assumes "well_behaved stop"
  shows "safely (R {} w) (activateComponent E stop c x w)"
  unfolding activateComponent_def
proof (rule safely_R_bind [OF componentLifecycleFSM_R [OF assms] order_refl])
  fix err w1
  have "safely (R {} w1) (runBind (toCanonical c x w1) (\<lambda>cComm w2.
         (let (k, taken) = enterComponent (Name (heap w2 x)) cComm (cpart w2 c)
          in if taken \<noteq> None then Done taken w2
             else if cComponents (cpart w2 c) = None then Crash w2
             else runBind (componentLifecycleFSM E stop c background x (updPart c (\<lambda>_. k) w2))
                    (\<lambda>err w3.
                      if err \<noteq> None then Done err w3
                      else Done None (if rootContainer w3 = Some c then registerAddon c x w3 else w3)))))"
  proof (rule safely_R_bind [OF toCanonical_R order_refl])
    fix cComm w2
    assume t: "toCanonical c x w1 = Done cComm w2"
    obtain k taken where k: "enterComponent (Name (heap w2 x)) cComm (cpart w2 c) = (k, taken)" by fastforce
    have reg: "R {} w3 (registerAddon c x w3)" for w3 by (simp add: registerAddon_def R_part R_refl)
    have "safely (R {} w2) (runBind (componentLifecycleFSM E stop c background x (updPart c (\<lambda>_. k) w2))
                    (\<lambda>err w3.
                      if err \<noteq> None then Done err w3
                      else Done None (if rootContainer w3 = Some c then registerAddon c x w3 else w3)))"
      if "taken = None" "cComponents (cpart w2 c) \<noteq> None"
    proof -
      have "R {} w2 (updPart c (\<lambda>_. k) w2)"
        using toCanonical_entry [OF t] k that by (intro R_enter [of "Name (heap w2 x)" cComm]) simp_all
      moreover have "safely (R {} v) (runBind (componentLifecycleFSM E stop c background x v)
                    (\<lambda>err w3.
                      if err \<noteq> None then Done err w3
                      else Done None (if rootContainer w3 = Some c then registerAddon c x w3 else w3)))" for v
        by (rule safely_R_bind [OF componentLifecycleFSM_R [OF assms] order_refl]) (simp_all add: R_refl reg)
      ultimately show ?thesis by (rule safely_R_trans)
    qed
    with k show "safely (R {} w2) (let (k, taken) = enterComponent (Name (heap w2 x)) cComm (cpart w2 c)
          in if taken \<noteq> None then Done taken w2
             else if cComponents (cpart w2 c) = None then Crash w2
             else runBind (componentLifecycleFSM E stop c background x (updPart c (\<lambda>_. k) w2))
                    (\<lambda>err w3.
                      if err \<noteq> None then Done err w3
                      else Done None (if rootContainer w3 = Some c then registerAddon c x w3 else w3)))"
      by (simp add: R_refl)
  qed
  then show "safely (R {} w1) (if err \<noteq> None then Done err w1 else
       runBind (toCanonical c x w1) (\<lambda>cComm w2.
         (let (k, taken) = enterComponent (Name (heap w2 x)) cComm (cpart w2 c)
          in if taken \<noteq> None then Done taken w2
             else if cComponents (cpart w2 c) = None then Crash w2
             else runBind (componentLifecycleFSM E stop c background x (updPart c (\<lambda>_. k) w2))
                    (\<lambda>err w3.
                      if err \<noteq> None then Done err w3
                      else Done None (if rootContainer w3 = Some c then registerAddon c x w3 else w3)))))"
    by (simp add: R_refl)
qed simp_all

lemma addComponent_R: "well_behaved stop \<Longrightarrow> safely (R {} w) (addComponent E stop c arg w)"
proof -
  assume stop: "well_behaved stop"
  have "R {} w (updPart c (\<lambda>k. k\<lparr>compActivationQueue := True\<rparr>) w)" by (simp add: R_part)
  from safely_R_trans [OF this activateComponent_R [OF stop]] show ?thesis
    by (simp add: addComponent_def Let_def R_refl activateComponent_R [OF stop] split: option.split)
qed

lemma addDeferred_R: "well_behaved stop \<Longrightarrow> safely (R {} w) (addDeferred E stop r as w)"
proof (induction "as" arbitrary: w)
  case (Cons a as')
  show ?case
    unfolding addDeferred.simps
    by (rule safely_R_bind [OF addComponent_R [OF Cons.prems] order_refl]) (simp add: Cons)
qed (simp add: R_refl)

lemma Add_R:
  assumes "well_behaved stop"
  shows "safely (R {} w) (Add E stop c arg w)"
  unfolding Add_def
proof (rule safely_R_bind [OF addComponent_R [OF assms] order_refl])
  fix err w1
  have "R {} w1 (w1\<lparr>addons := []\<rparr>)" by (simp add: R_core)
  from safely_R_trans [OF this addDeferred_R [OF assms]]
  show "safely (R {} w1) (if err \<noteq> None then Done err w1
       else case rootContainer w1 of
         None \<Rightarrow> Done None w1
       | Some r \<Rightarrow>
           if addons w1 = [] then Done None w1
           else addDeferred E stop r (addons w1) (w1\<lparr>addons := []\<rparr>))"
    by (simp add: R_refl split: option.split)
qed

end

end
