(* ===== verification/Http_Server.thy ===== *)
theory Http_Server
  imports Container_Registry
begin

text \<open>
  Serving HTTP: the dispatch of addons/httpServer.go with its trace middleware, and the default
  handler of a component (\<^verbatim>\<open>ServeHTTP\<close> and \<^verbatim>\<open>MarshallToHttpResponseWriter\<close> of component.go).
  A request and a response are records; header tables are keyed by the canonical form of the name, as
  net/http keeps them. The text \<^verbatim>\<open>json.MarshalIndent\<close> makes of a component, whose fields may have
  types with methods of their own, and handlers an application wrote, are parameters (\<open>httpEnv\<close>).
\<close>

section \<open>Headers, requests, responses\<close>

text \<open>\<^verbatim>\<open>CanonicalMIMEHeaderKey\<close>: unchanged if a byte is not allowed in a header name.\<close>

definition upperChar :: "char \<Rightarrow> char" where
  "upperChar c = (if 97 \<le> byteOf c \<and> byteOf c \<le> 122 then chr (byteOf c - 32) else c)"

definition tokenChar :: "char \<Rightarrow> bool" where
  "tokenChar c \<longleftrightarrow>
     (65 \<le> byteOf c \<and> byteOf c \<le> 90) \<or> (97 \<le> byteOf c \<and> byteOf c \<le> 122) \<or>
     (48 \<le> byteOf c \<and> byteOf c \<le> 57) \<or> c = CHR 0x27 \<or> c = CHR 0x60 \<or> c \<in> set ''!#$%&*+-.^_|~''"

fun canonFrom :: "bool \<Rightarrow> string \<Rightarrow> string" where
  "canonFrom upper [] = []"
| "canonFrom upper (c # cs) =
     (if upper then upperChar c else lowerChar c) # canonFrom (c = CHR ''-'') cs"

definition canonicalHeader :: "string \<Rightarrow> string" where
  "canonicalHeader k = (if list_all tokenChar k then canonFrom True k else k)"

type_synonym headers = "string \<rightharpoonup> string"

definition headerGet :: "headers \<Rightarrow> string \<Rightarrow> string" where
  "headerGet h k = (case h (canonicalHeader k) of None \<Rightarrow> '''' | Some v \<Rightarrow> v)"

definition headerSet :: "string \<Rightarrow> string \<Rightarrow> headers \<Rightarrow> headers" where
  "headerSet k v h = h(canonicalHeader k \<mapsto> v)"

record request =
  path :: string
  reqHeaders :: headers
  traceValue :: "string option"

record response =
  status :: nat
  respHeaders :: headers
  respBody :: string

record httpEnv =
  marshalIndent :: "snapshot \<Rightarrow> string option"
  overridesServeHTTP :: "gotype \<Rightarrow> bool"
  userMethod :: "cid \<Rightarrow> string \<Rightarrow> request \<Rightarrow> headers \<Rightarrow> world \<Rightarrow> response \<times> world"

definition notFound :: "headers \<Rightarrow> response" where
  "notFound h =
     \<lparr>status = 404,
      respHeaders = headerSet ''X-Content-Type-Options'' ''nosniff''
                      (headerSet ''Content-Type'' ''text/plain; charset=utf-8'' h),
      respBody = ''404 page not found'' @ [CHR 0x0A]\<rparr>"

section \<open>The default handler of a component\<close>

definition undefinedBody :: string where
  "undefinedBody =
     CHR ''{'' # CHR 0x22 # ''status'' @ CHR 0x22 # CHR '':'' # CHR 0x22 # ''undefined'' @
     CHR 0x22 # CHR ''}'' # [CHR 0x22]"

definition MarshallToHttpResponseWriter :: "httpEnv \<Rightarrow> headers \<Rightarrow> snapshot option \<Rightarrow> response" where
  "MarshallToHttpResponseWriter H h arg =
     (case arg of
        None \<Rightarrow> \<lparr>status = 404, respHeaders = h, respBody = ''''\<rparr>
      | Some s \<Rightarrow>
          \<lparr>status = 200,
           respHeaders = headerSet ''ETag'' (sEtag s) (headerSet ''Content-Type'' ''application/json'' h),
           respBody = (case marshalIndent H s of None \<Rightarrow> undefinedBody | Some t \<Rightarrow> t)\<rparr>)"

text \<open>The exported view of a live component, and of the \<^verbatim>\<open>SimpleComponent\<close> embedded in it.\<close>

definition viewOf :: "component \<Rightarrow> snapshot" where
  "viewOf d =
     \<lparr>sType = gotype d, sName = Name d, sEtag = Etag d, sStage = Stage d, sState = State d,
      sFields = userFields d\<rparr>"

definition embeddedSimple :: "component \<Rightarrow> component" where
  "embeddedSimple d = d\<lparr>gotype := SimpleT, userFields := []\<rparr>"

text \<open>
  \<^verbatim>\<open>ServeHTTP\<close> is a method of the embedded \<^verbatim>\<open>SimpleComponent\<close>: without a container it copies that
  part only, which renews the hash and the ETag the component shares with it.
\<close>

definition ServeHTTP :: "env \<Rightarrow> httpEnv \<Rightarrow> cid \<Rightarrow> request \<Rightarrow> headers \<Rightarrow> world \<Rightarrow> response \<times> world" where
  "ServeHTTP E H x r h w =
     (let d = heap w x
      in if path r \<noteq> uri d then (notFound h, w)
         else case container d of
           Some c \<Rightarrow>
             (MarshallToHttpResponseWriter H h
                (case GetComponent w c (Name d) of Inl err \<Rightarrow> None | Inr y \<Rightarrow> Some (viewOf (heap w y))), w)
         | None \<Rightarrow>
             (let (d1, cCopy) = createCopy E (embeddedSimple d)
              in (MarshallToHttpResponseWriter H h (Some cCopy),
                  upd x (\<lambda>d. d\<lparr>hash := hash d1, Etag := Etag d1, drawn := drawn d1\<rparr>) w)))"

definition callHandler ::
    "env \<Rightarrow> httpEnv \<Rightarrow> cid \<times> string \<Rightarrow> request \<Rightarrow> headers \<Rightarrow> world \<Rightarrow> response \<times> world" where
  "callHandler E H handler r h w =
     (case handler of (x, mth) \<Rightarrow>
        if mth = ''ServeHTTP'' \<and> \<not> overridesServeHTTP H (gotype (heap w x)) then ServeHTTP E H x r h w
        else userMethod H x mth r h w)"

section \<open>Trace middleware and dispatch\<close>

text \<open>\<open>fresh\<close> is the identifier \<^verbatim>\<open>uuid.New\<close> would give.\<close>

fun firstHeader :: "headers \<Rightarrow> string list \<Rightarrow> string" where
  "firstHeader h [] = ''''"
| "firstHeader h [k] = headerGet h k"
| "firstHeader h (k # ks) = (if 0 < length (headerGet h k) then headerGet h k else firstHeader h ks)"

definition traceIdFor :: "string \<Rightarrow> headers \<Rightarrow> string" where
  "traceIdFor fresh h =
     (let traceID = firstHeader h [''TraceID'', ''Trace-ID'']
      in if traceID = '''' then fresh else traceID)"

definition traceMiddleware ::
    "string \<Rightarrow> (request \<Rightarrow> headers \<Rightarrow> world \<Rightarrow> response \<times> world) \<Rightarrow> request \<Rightarrow> headers \<Rightarrow> world
      \<Rightarrow> response \<times> world" where
  "traceMiddleware fresh nxt r h w =
     (let traceID = traceIdFor fresh (reqHeaders r)
      in nxt (r\<lparr>traceValue := Some traceID\<rparr>) (headerSet ''traceId'' traceID h) w)"

text \<open>
  The handler of the server. A nil container, which is only logged when the server starts, panics at
  the first lookup.
\<close>

definition httpHandlerFunc ::
    "env \<Rightarrow> httpEnv \<Rightarrow> string \<Rightarrow> cid option \<Rightarrow> request \<Rightarrow> world \<Rightarrow> (response \<times> world) outcome" where
  "httpHandlerFunc E H fresh c r w =
     bindO (case c of None \<Rightarrow> (if path r = '''' then Ret None else Panics)
                    | Some c \<Rightarrow> GetHttpHandler w c (path r))
       (\<lambda>httpHandler.
         case httpHandler of
           None \<Rightarrow> Ret (notFound Map.empty, w)
         | Some hdl \<Rightarrow> Ret (traceMiddleware fresh (callHandler E H hdl) r Map.empty w))"

section \<open>Lookup of a handler\<close>

text \<open>The prefixes of a path at which it can be cut: before a slash, and the whole path.\<close>

lemma lastIndex_cut:
  assumes "lastIndex URI (CHR ''/'') = int i"
  shows "i < length URI \<and> URI ! i = CHR ''/'' \<and> CHR ''/'' \<notin> set (drop (Suc i) URI)"
  using assms lastPos_Some by (fastforce simp: lastIndex_def split: option.splits)

definition cutPoint :: "string \<Rightarrow> string \<Rightarrow> bool" where
  "cutPoint p URI \<longleftrightarrow> p = URI \<or> (\<exists>q. URI = p @ CHR ''/'' # q)"

lemma hd_take: "0 < n \<Longrightarrow> hd (take n xs) = hd xs"
  by (cases xs; cases n) simp_all

text \<open>A path that begins with a slash always has one to cut at.\<close>

lemma lastIndex_slash_first:
  "URI \<noteq> [] \<Longrightarrow> hd URI = CHR ''/'' \<Longrightarrow> 0 \<le> lastIndex URI (CHR ''/'')"
proof -
  assume "URI \<noteq> []" "hd URI = CHR ''/''"
  then have "CHR ''/'' \<in> set URI" by (cases URI) auto
  then have "lastPos (CHR ''/'') URI \<noteq> None" by simp
  then show ?thesis by (auto simp: lastIndex_def simp del: lastPos_None_iff)
qed

text \<open>\<open>r\<close> is the handler of the longest cut of the path that has one.\<close>

definition longestMatch :: "(string \<Rightarrow> 'h option) \<Rightarrow> string \<Rightarrow> 'h option \<Rightarrow> bool" where
  "longestMatch tbl URI r \<longleftrightarrow>
     (case r of
        None \<Rightarrow> \<forall>p. p \<noteq> [] \<longrightarrow> cutPoint p URI \<longrightarrow> tbl p = None
      | Some h \<Rightarrow> \<exists>p. p \<noteq> [] \<and> cutPoint p URI \<and> tbl p = Some h \<and>
          (\<forall>q. cutPoint q URI \<longrightarrow> length p < length q \<longrightarrow> tbl q = None))"

lemma cutPoint_length: "cutPoint q URI \<Longrightarrow> length q \<le> length URI"
  by (auto simp: cutPoint_def)

lemma cutPoint_last:
  assumes "i < length URI" and "URI ! i = CHR ''/''" and "CHR ''/'' \<notin> set (drop (Suc i) URI)"
  shows "cutPoint q URI \<longleftrightarrow> q = URI \<or> cutPoint q (take i URI)"
proof
  assume "cutPoint q URI"
  then consider "q = URI" | r where "URI = q @ CHR ''/'' # r" by (auto simp: cutPoint_def)
  then show "q = URI \<or> cutPoint q (take i URI)"
  proof cases
    case (2 r)
    have le: "length q \<le> i"
    proof (rule ccontr)
      assume "\<not> length q \<le> i"
      then have "drop (Suc i) URI ! (length q - Suc i) = CHR ''/''"
        "length q - Suc i < length (drop (Suc i) URI)"
        using 2 by (simp_all add: nth_append)
      then show False using assms(3) by (metis nth_mem)
    qed
    have "take i URI = q @ take (i - length q) (CHR ''/'' # r)" using le by (subst 2) simp
    then show ?thesis by (cases "i - length q") (auto simp: cutPoint_def)
  qed simp
next
  have dec: "URI = take i URI @ CHR ''/'' # drop (Suc i) URI"
    using assms by (metis id_take_nth_drop)
  assume "q = URI \<or> cutPoint q (take i URI)"
  then show "cutPoint q URI"
    using dec unfolding cutPoint_def by (metis append_Cons append_assoc)
qed

lemma longestMatch_cut:
  assumes "i < length URI" and "URI ! i = CHR ''/''" and "CHR ''/'' \<notin> set (drop (Suc i) URI)"
    and "tbl URI = None" and "longestMatch tbl (take i URI) r"
  shows "longestMatch tbl URI r"
  using assms(4,5) unfolding longestMatch_def cutPoint_last [OF assms(1-3)]
  by (cases r) auto

lemma longestMatch_whole: "tbl URI \<noteq> None \<Longrightarrow> URI \<noteq> [] \<Longrightarrow> longestMatch tbl URI (tbl URI)"
  using cutPoint_length [of _ URI] by (fastforce simp: longestMatch_def cutPoint_def)

lemma findHandler_longest:
  assumes "URI = [] \<or> hd URI = CHR ''/''"
  shows "\<exists>r. findHandler tbl URI = Ret r \<and> longestMatch tbl URI r"
  using assms
proof (induction tbl URI rule: findHandler.induct)
  case (1 tbl URI)
  show ?case
  proof (cases "URI = [] \<or> tbl URI \<noteq> None")
    case True
    then show ?thesis
    proof
      assume "URI = []"
      then show ?thesis by (simp add: findHandler.simps longestMatch_def cutPoint_def)
    next
      assume hit: "tbl URI \<noteq> None"
      show ?thesis
      proof (cases "URI = []")
        case False
        with hit have "findHandler tbl URI = Ret (tbl URI)" by (subst findHandler.simps) auto
        then show ?thesis using longestMatch_whole [of tbl URI, OF hit False] by blast
      qed (simp add: findHandler.simps longestMatch_def cutPoint_def)
    qed
  next
    case False
    then have ne: "URI \<noteq> []" and no: "tbl URI = None" by auto
    obtain i where i: "lastIndex URI (CHR ''/'') = int i"
      using lastIndex_slash_first 1(2) ne nonneg_int_cases by blast
    note cut = lastIndex_cut [OF i]
    have U: "take i URI = [] \<or> hd (take i URI) = CHR ''/''"
      using 1(2) ne hd_take [of i URI] by (cases i) auto
    obtain r where r: "findHandler tbl (take i URI) = Ret r" and m: "longestMatch tbl (take i URI) r"
      using 1(1) [OF _ no refl] ne U unfolding i by auto
    have "findHandler tbl URI = Ret r"
      using ne no i r by (subst findHandler.simps) simp
    then show ?thesis using longestMatch_cut [OF _ _ _ no m] cut by blast
  qed
qed

section \<open>Properties\<close>

text \<open>
  C24: for a path that begins with a slash, as every path of a request does, \<^verbatim>\<open>GetHttpHandler\<close> returns
  the handler of the longest prefix of the path, cut at a slash, that has one, and nil only if none has.
\<close>

theorem GetHttpHandler_longest_prefix:
  assumes "URI \<noteq> ''''" and "hd URI = CHR ''/''"
  shows "\<exists>r. GetHttpHandler w c URI = Ret r \<and> longestMatch (mapGet (cHandlers (cpart w c))) URI r"
  using findHandler_longest [of URI "mapGet (cHandlers (cpart w c))"] assms by (simp add: GetHttpHandler_def)

theorem GetHttpHandler_longest_prefix_witness:
  "\<exists>r. GetHttpHandler (worldOf (\<lambda>x. newComponent x ContainerT ''root'' [] [])) 0 ''/a/b'' = Ret r"
  using GetHttpHandler_longest_prefix [of "''/a/b''" "worldOf (\<lambda>x. newComponent x ContainerT ''root'' [] [])" 0]
  by auto

text \<open>
  On a path without a slash that has no handler itself, \<^verbatim>\<open>GetHttpHandler\<close> panics: it cuts the path
  at index -1.
\<close>

theorem GetHttpHandler_panics_without_slash:
  assumes "URI \<noteq> ''''" and "CHR ''/'' \<notin> set URI" and "mapGet (cHandlers (cpart w c)) URI = None"
  shows "GetHttpHandler w c URI = Panics"
proof -
  have "lastPos (CHR ''/'') URI = None" using assms(2) by simp
  then have "lastIndex URI (CHR ''/'') < 0" by (simp add: lastIndex_def del: lastPos_None_iff)
  then show ?thesis
    using assms(1,3) by (subst GetHttpHandler_def, subst findHandler.simps) simp
qed

theorem GetHttpHandler_panics_without_slash_witness:
  "GetHttpHandler (worldOf (\<lambda>x. newComponent x ContainerT ''root'' [] [])) 0 ''health'' = Panics"
  by (rule GetHttpHandler_panics_without_slash)
    (simp_all add: worldOf_def cpart_def newComponent_def emptyPart_def mapGet_def)

text \<open>
  \<^verbatim>\<open>traceMiddleware\<close> takes the identifier from the header \<^verbatim>\<open>TraceID\<close>, in any spelling of its case,
  else from \<^verbatim>\<open>Trace-ID\<close>, else a fresh one; the next handler sees it in the request and in the headers
  of the response.
\<close>

theorem traceMiddleware_propagates:
  "traceMiddleware fresh nxt r h w =
     (let given = (\<lambda>k. case reqHeaders r k of None \<Rightarrow> '''' | Some v \<Rightarrow> v);
          t = (if given ''Traceid'' \<noteq> '''' then given ''Traceid''
               else if given ''Trace-Id'' \<noteq> '''' then given ''Trace-Id'' else fresh)
      in nxt (r\<lparr>traceValue := Some t\<rparr>) (h(''Traceid'' \<mapsto> t)) w)"
proof -
  have "canonicalHeader ''TraceID'' = ''Traceid''" "canonicalHeader ''traceId'' = ''Traceid''"
    "canonicalHeader ''Trace-ID'' = ''Trace-Id''"
    by code_simp+
  then show ?thesis
    by (simp add: traceMiddleware_def traceIdFor_def headerGet_def headerSet_def Let_def)
qed

text \<open>
  A GET on a component that has no container hashes the embedded \<^verbatim>\<open>SimpleComponent\<close> alone. When
  that differs from the hash the component carries, which is over all of its fields, the request draws a
  new ETag although nothing has changed, and a copy taken before is rejected as stale from then on.
\<close>

theorem get_renews_etag_of_top_level:
  assumes "container (heap w x) = None" and "path r = uri (heap w x)"
    and "hashFn E (hashView (embeddedSimple (heap w x))) = Some h" and "h \<noteq> hash (heap w x)"
  shows "let (resp, w1) = ServeHTTP E H x r hs w
    in Etag (heap w1 x) = uuidAt E (self (heap w x)) (drawn (heap w x)) \<and>
       userFields (heap w1 x) = userFields (heap w x) \<and> Stage (heap w1 x) = Stage (heap w x) \<and>
       respHeaders resp (''Etag'') = Some (Etag (heap w1 x)) \<and> status resp = 200"
proof -
  have "canonicalHeader ''ETag'' = ''Etag''" by code_simp
  then show ?thesis
    using assms
    by (simp add: ServeHTTP_def createCopy_def UpdateComponentEtag_def Let_def snapshotOf_def
        MarshallToHttpResponseWriter_def headerSet_def embeddedSimple_def)
qed

theorem get_renews_etag_of_top_level_witness:
  "let d = (newComponent 0 AppT ''app'' [''ServeHTTP''] [Field ''Runs'' ''int'' None True (VInt 64 3)])
         \<lparr>uri := ''/app'', hash := 49, Etag := ''e0'', drawn := 1\<rparr>;
       (resp, w1) = ServeHTTP plainEnv \<lparr>marshalIndent = (\<lambda>s. None), overridesServeHTTP = (\<lambda>t. False),
           userMethod = (\<lambda>x m r h w. (notFound h, w))\<rparr> 0 \<lparr>path = ''/app'', reqHeaders = Map.empty, traceValue = None\<rparr>
           Map.empty (worldOf (\<lambda>x. d))
   in Etag (fst (UpdateComponentEtag plainEnv d)) = ''e0'' \<and> Etag (heap w1 0) = ''idi''"
proof -
  let ?d = "(newComponent 0 AppT ''app'' [''ServeHTTP''] [Field ''Runs'' ''int'' None True (VInt 64 3)])
         \<lparr>uri := ''/app'', hash := 49, Etag := ''e0'', drawn := 1\<rparr>"
  show ?thesis
    using get_renews_etag_of_top_level [of "worldOf (\<lambda>x. ?d)" 0
        "\<lparr>path = ''/app'', reqHeaders = Map.empty, traceValue = None\<rparr>" plainEnv 1
        "\<lparr>marshalIndent = (\<lambda>s. None), overridesServeHTTP = (\<lambda>t. False),
           userMethod = (\<lambda>x m r h w. (notFound h, w))\<rparr>" Map.empty]
    by (simp add: worldOf_def hashView_def embeddedSimple_def UpdateComponentEtag_def Let_def split: prod.splits)
qed

end
