(* ===== verification/Reachability.thy ===== *)
theory Reachability
  imports Lifecycle_Relation Http_Server
begin

text \<open>
  The program as a transition system: a step is an \<^verbatim>\<open>Add\<close>, a message that is sent, served by a
  multiplexer or given up by its sender, a goroutine that runs, or a call of the client interface. Every step respects every
  \<open>lifecycle_relation\<close>; an invariant of the primitive updates is an invariant of the reachable worlds.
\<close>

section \<open>Steps\<close>

inductive step :: "env \<Rightarrow> world \<Rightarrow> world \<Rightarrow> bool" for E where
  add: "Add E (containerStop E n) c arg w = Done err w1 \<Longrightarrow> step E w w1"
| message: "MmuxTask c x \<in> set (tasks w) \<Longrightarrow> mmux (heap w x) \<Longrightarrow>
    mmuxRound E (containerStop E n) c x m w = Done r w1 \<Longrightarrow> step E w w1"
| post: "postMessage x m w = Done u w1 \<Longrightarrow> step E w w1"
| abandon: "step E w (abandonMessage x w)"
| task: "t \<in> set (tasks w) \<Longrightarrow> runTask E (containerStop E n) t w = Done u w1 \<Longrightarrow> step E w w1"
| subscribe: "step E w (upd x (\<lambda>d. fst (Subscribe s ch d)) w)"
| unsubscribe: "step E w (upd x (\<lambda>d. fst (Unsubscribe s d)) w)"
| callback: "step E w (upd x (\<lambda>d. fst (Callback isHead cb d)) w)"
| removeCallback: "step E w (upd x (\<lambda>d. fst (removeCallbackAt i d)) w)"
| handler: "step E w (upd x (SetSyncMessageHandler mtype h) w)"
| get: "ServeHTTP E H x r h w = (resp, w1) \<Longrightarrow> step E w w1"
| copied: "GetComponentCopy E w c name = (w1, result) \<Longrightarrow> step E w w1"

inductive reachable :: "env \<Rightarrow> world \<Rightarrow> world \<Rightarrow> bool" for E w0 where
  initial: "reachable E w0 w0"
| steps: "reachable E w0 w \<Longrightarrow> step E w w1 \<Longrightarrow> reachable E w0 w1"

lemma sameLife_embedded_copy:
  "createCopy E (embeddedSimple d) = (d1, s) \<Longrightarrow>
   sameLife d' (d'\<lparr>hash := hash d1, Etag := Etag d1, drawn := drawn d1\<rparr>)"
  by (simp add: sameLife_def)

context lifecycle_relation
begin

lemma afterStart_R:
  assumes "well_behaved halt"
  shows "safely (R {} w) (afterStart E halt c x w)"
proof -
  obtain restartable delay w1 where v: "virtualIsRestartable E x w = ((restartable, delay), w1)"
    by (metis prod.exhaust)
  have 1: "R {} w w1"
    using v by (auto simp: virtualIsRestartable_def R_frame Let_def split: prod.splits)
  have "safely (R {} w1) (runBind (componentLifecycleFSM E halt c (restartCtx dl) x w1) (\<lambda>err w2.
                    Done () (if err \<noteq> None then w2 else addTask (ResumeTask c x dl) w2)))" for dl
    by (rule safely_R_bind [OF componentLifecycleFSM_R [OF assms] order_refl])
      (simp_all add: R_refl R_core)
  from safely_R_trans [OF 1 this] show ?thesis
    using 1 by (simp add: afterStart_def v Let_def R_refl)
qed

lemma startComponent_R:
  assumes "well_behaved halt"
  shows "safely (R {} w) (startComponent E halt c x w)"
proof -
  have "R {} w (upd x (\<lambda>d. d\<lparr>userFields := fs\<rparr>) w)" for fs by (simp add: R_frame)
  from safely_R_trans [OF this afterStart_R [OF assms]] show ?thesis
    by (simp add: startComponent_def virtualStart_def split: hookResult.split)
qed

lemma runTask_R:
  assumes "well_behaved halt"
  shows "safely (R {} w) (runTask E halt t w)"
proof -
  let ?w1 = "w\<lparr>tasks := remove1 t (tasks w)\<rparr>"
  have 1: "R {} w ?w1" by (simp add: R_core)
  have forget: "safely (R {} w) (runBind r (\<lambda>err w2. Done () w2))"
    if "safely (R {} ?w1) r" for r :: "kerror option run"
    by (rule safely_R_trans [OF 1], rule safely_R_bind [OF that order_refl]) (simp add: R_refl)
  have pre: "safely (R {} ?w1) (virtualPreStart E x ?w1)" for x
    by (simp add: virtualPreStart_def R_refl runHook_R split: gotype.split)
  have mmux: "safely (R {} w) (if mmuxBuffer (heap w x) = None \<and> \<not> mmux (heap w x) then Done () (endMmux c x w)
             else runBind (takeMessage E halt c x w) (\<lambda>_ w2. Done () w2))" for c x
    using safely_R_bind [OF takeMessage_R [OF assms, of "{}" w x E c] order_refl, of "\<lambda>_ w2. Done () w2"]
    by (simp add: R_refl R_core)
  show ?thesis
    using forget [OF pre] forget [OF componentLifecycleFSM_R [OF assms]]
      safely_R_trans [OF 1 startComponent_R [OF assms]]
    by (cases t) (simp_all add: runTask_def R_refl mmux)
qed

lemma ServeHTTP_R: "ServeHTTP E H x r h w = (resp, w1) \<Longrightarrow> R {} w w1"
  by (auto simp: ServeHTTP_def Let_def R_refl R_frame sameLife_embedded_copy split: if_splits option.splits prod.splits)

lemma step_R: "step E w w1 \<Longrightarrow> R {} w w1"
proof (induction rule: step.induct)
  case (add n c arg w err w1)
  then show ?case using safely_Done [OF Add_R [OF containerStop_well_behaved]] by blast
next
  case (message c x w n m r w1)
  then show ?case
    using safely_Done [OF mmuxRound_R [OF containerStop_well_behaved stopping_empty, of x]] by blast
next
  case (task t w n u w1)
  then show ?case using safely_Done [OF runTask_R [OF containerStop_well_behaved]] by blast
next
  case (copied w c name w1 result)
  have "sameLife (heap w x) d" if "createCopy E (heap w x) = (d, s)" for x d s
    using sameLife_methods(6) [of "heap w x" E] that by simp
  with copied show ?case
    by (auto simp: GetComponentCopy_def R_refl R_frame split: sum.splits prod.splits)
next
  case (post x m w u w1)
  then show ?case by (auto simp: postMessage_def putMessage_R split: if_splits)
qed (simp_all add: R_frame ServeHTTP_R abandonMessage_def putMessage_R)

lemma reachable_R: "reachable E w0 w \<Longrightarrow> R {} w0 w"
  by (induction rule: reachable.induct) (auto intro: R_refl R_trans step_R)

end

section \<open>Invariants\<close>

text \<open>A property of worlds that the primitive updates keep is kept by everything.\<close>

locale lifecycle_invariant =
  fixes I :: "world \<Rightarrow> bool"
  assumes I_frame: "I w \<Longrightarrow> sameLife (heap w x) (f (heap w x)) \<Longrightarrow> I (upd x f w)"
    and I_core: "I w \<Longrightarrow> sameCore w w1 \<Longrightarrow> I w1"
    and I_part: "I w \<Longrightarrow> keepsNames g \<Longrightarrow> I (updPart c g w)"
    and I_enter: "I w \<Longrightarrow> enterComponent n cc (cpart w c) = (k, None) \<Longrightarrow> cComponents (cpart w c) \<noteq> None \<Longrightarrow>
      cName cc = n \<Longrightarrow> ccomp cc \<noteq> None \<Longrightarrow> I (updPart c (\<lambda>_. k) w)"
    and I_remove: "I w \<Longrightarrow> I (removeComponent c n w)"
    and I_init: "I w \<Longrightarrow> I w1 \<Longrightarrow> Stage (heap w x) < Initializing \<Longrightarrow> Stage (heap w1 x) = Initializing \<Longrightarrow>
      asContainer (heap w1 x) = asContainer (heap w x) \<Longrightarrow> I (containerInit x w1)"
    and I_stage: "I w \<Longrightarrow> edge (Stage (heap w x)) s \<Longrightarrow> s \<noteq> Teareddown \<Longrightarrow> I (upd x (setStage E s) w)"
    and I_tear: "I w \<Longrightarrow> edge (Stage (heap w x)) Teareddown \<Longrightarrow> I (tearStep E x w)"

definition frozen :: "cid set \<Rightarrow> world \<Rightarrow> world \<Rightarrow> bool" where
  "frozen S w w1 \<longleftrightarrow> (\<forall>y \<in> S. Stage (heap w1 y) = Stage (heap w y))"

lemma containerInit_heap: "heap (containerInit x w) y = (if y = x then
    (heap w x)\<lparr>asContainer := map_option (\<lambda>k. k\<lparr>cComponents := Some Map.empty, cHandlers := Some Map.empty\<rparr>)
       (asContainer (heap w x))\<rparr> else heap w y)"
  by (simp add: containerInit_def)

lemma tearStep_Stage [simp]: "Stage (heap (tearStep E x w) y) = (if y = x then Teareddown else Stage (heap w y))"
  by (simp add: tearStep_def)

lemma tearStep_sel [simp]:
  "rootContainer (tearStep E x w) = rootContainer w" "tornDown (tearStep E x w) = tornDown w @ [x]"
  "topLevelComponents (tearStep E x w) = topLevelComponents w"
  "runOncePersistence (tearStep E x w) = runOncePersistence w" "runOnceHttp (tearStep E x w) = runOnceHttp w"
  by (simp_all add: tearStep_def)

text \<open>Every primitive leaves the stage of the components alone that it is not about.\<close>

lemma frozen_primitives:
  "sameLife (heap w x) (f (heap w x)) \<Longrightarrow> frozen S w (upd x f w)"
  "sameCore w w1 \<Longrightarrow> frozen S w w1" "frozen S w (updPart c g w)"
  "frozen S w (removeComponent c n w)" "frozen S w w1 \<Longrightarrow> frozen S w (containerInit x w1)"
  "x \<notin> S \<Longrightarrow> frozen S w (upd x (setStage E s) w)" "x \<notin> S \<Longrightarrow> frozen S w (tearStep E x w)"
  by (auto simp: frozen_def sameLife_def sameCore_def removeComponent_def containerInit_heap)

lemma frozenD: "frozen S w w1 \<Longrightarrow> y \<in> S \<Longrightarrow> Stage (heap w1 y) = Stage (heap w y)"
  by (simp add: frozen_def)

lemma frozen_order:
  "frozen S w w" "frozen S w w1 \<Longrightarrow> frozen S w1 w2 \<Longrightarrow> frozen S w w2"
  "frozen T w w1 \<Longrightarrow> S \<subseteq> T \<Longrightarrow> frozen S w w1"
  by (auto simp: frozen_def)

sublocale lifecycle_invariant \<subseteq> inv: lifecycle_relation "\<lambda>S w w1. frozen S w w1 \<and> (I w \<longrightarrow> I w1)"
  by unfold_locales
    (auto simp: frozen_primitives frozen_order(1) I_frame I_core I_part I_enter I_remove I_stage I_tear
      intro: I_init frozen_order(2,3) dest: frozenD)

context lifecycle_invariant
begin

lemma invariant_reachable: "reachable E w0 w \<Longrightarrow> I w0 \<Longrightarrow> I w"
  using inv.reachable_R by blast

end

end
