(* ===== verification/Safety.thy ===== *)
theory Safety
  imports Reachability
begin

text \<open>
  Safety of the whole program, as instances of the two interfaces: every change of stage follows the
  edges of the state machine, components keep their identity, the state agrees with the stage, the
  tables of every container are well formed, and no component is torn down twice.
\<close>

section \<open>Relations\<close>

definition stagesFollow :: "world \<Rightarrow> world \<Rightarrow> bool" where
  "stagesFollow w w1 \<longleftrightarrow> (\<forall>x. edge\<^sup>*\<^sup>* (Stage (heap w x)) (Stage (heap w1 x)))"

lemma stagesFollow_primitives:
  "sameLife (heap w x) (f (heap w x)) \<Longrightarrow> stagesFollow w (upd x f w)"
  "sameCore w w1 \<Longrightarrow> stagesFollow w w1" "stagesFollow w (updPart c g w)"
  "stagesFollow w (removeComponent c n w)" "stagesFollow w w1 \<Longrightarrow> stagesFollow w (containerInit x w1)"
  "edge (Stage (heap w x)) s \<Longrightarrow> stagesFollow w (upd x (setStage E s) w)"
  "edge (Stage (heap w x)) Teareddown \<Longrightarrow> stagesFollow w (tearStep E x w)"
  by (auto simp: stagesFollow_def sameLife_def sameCore_def removeComponent_def containerInit_heap)

lemma stagesFollow_order:
  "stagesFollow w w" "stagesFollow w w1 \<Longrightarrow> stagesFollow w1 w2 \<Longrightarrow> stagesFollow w w2"
  by (auto simp: stagesFollow_def intro: rtranclp_trans)

interpretation follow: lifecycle_relation "\<lambda>S w w1. frozen S w w1 \<and> stagesFollow w w1"
  by unfold_locales
    (auto simp: frozen_primitives frozen_order(1) stagesFollow_primitives stagesFollow_order(1)
      intro: frozen_order(2,3) stagesFollow_order(2) dest: frozenD)

text \<open>What never changes, and what only grows.\<close>

definition sameIdentity :: "world \<Rightarrow> world \<Rightarrow> bool" where
  "sameIdentity w w1 \<longleftrightarrow>
     (\<forall>x. Name (heap w1 x) = Name (heap w x) \<and> self (heap w1 x) = self (heap w x) \<and>
          gotype (heap w1 x) = gotype (heap w x) \<and> httpMethods (heap w1 x) = httpMethods (heap w x) \<and>
          isNonRestEntity (heap w1 x) = isNonRestEntity (heap w x)) \<and>
     rootContainer w1 = rootContainer w \<and> prefix (tornDown w) (tornDown w1) \<and>
     prefix (topLevelComponents w) (topLevelComponents w1) \<and>
     (runOncePersistence w \<longrightarrow> runOncePersistence w1) \<and> (runOnceHttp w \<longrightarrow> runOnceHttp w1)"

lemma tearDown_fields [simp]:
  "Name (tearDown d) = Name d" "self (tearDown d) = self d" "gotype (tearDown d) = gotype d"
  "httpMethods (tearDown d) = httpMethods d" "isNonRestEntity (tearDown d) = isNonRestEntity d"
  "asContainer (tearDown d) = asContainer d" "Stage (tearDown d) = Stage d" "mmux (tearDown d) = False"
  "container (tearDown d) = container d"
proof -
  have c: "core (tearDown d) = core (d\<lparr>mmux := False\<rparr>)" by simp
  show "Name (tearDown d) = Name d" "self (tearDown d) = self d" "gotype (tearDown d) = gotype d"
    "httpMethods (tearDown d) = httpMethods d" "isNonRestEntity (tearDown d) = isNonRestEntity d"
    "asContainer (tearDown d) = asContainer d" "Stage (tearDown d) = Stage d" "mmux (tearDown d) = False"
    "container (tearDown d) = container d"
    using core_eqD [OF c] by simp_all
qed

lemma tearStep_heap_other: "y \<noteq> x \<Longrightarrow> heap (tearStep E x w) y = heap w y"
  by (simp add: tearStep_def)

lemma tearStep_heap_same: "heap (tearStep E x w) x = setStage E Teareddown (tearDown (heap w x))"
  by (simp add: tearStep_def)

lemma sameIdentity_primitives:
  "sameLife (heap w x) (f (heap w x)) \<Longrightarrow> sameIdentity w (upd x f w)"
  "sameCore w w1 \<Longrightarrow> sameIdentity w w1" "sameIdentity w (updPart c g w)"
  "sameIdentity w (removeComponent c n w)" "sameIdentity w w1 \<Longrightarrow> sameIdentity w (containerInit x w1)"
  "sameIdentity w (upd x (setStage E s) w)" "sameIdentity w (tearStep E x w)"
  by (auto simp: sameIdentity_def sameLife_def sameCore_def removeComponent_def containerInit_def
      tearStep_def)

lemma sameIdentity_order:
  "sameIdentity w w" "sameIdentity w w1 \<Longrightarrow> sameIdentity w1 w2 \<Longrightarrow> sameIdentity w w2"
  by (auto simp: sameIdentity_def intro: prefix_order.trans)

interpretation identity: lifecycle_relation "\<lambda>S w w1. frozen S w w1 \<and> sameIdentity w w1"
  by unfold_locales
    (auto simp: frozen_primitives frozen_order(1) sameIdentity_primitives sameIdentity_order(1)
      intro: frozen_order(2,3) sameIdentity_order(2) dest: frozenD)

section \<open>Invariants\<close>

definition coherent :: "world \<Rightarrow> bool" where
  "coherent w \<longleftrightarrow> (\<forall>x. State (heap w x) = stateOf (Stage (heap w x)))"

interpretation coherence: lifecycle_invariant coherent
  by unfold_locales
    (auto simp: coherent_def sameLife_def sameCore_def removeComponent_def containerInit_def tearStep_def)

definition tornOnce :: "world \<Rightarrow> bool" where
  "tornOnce w \<longleftrightarrow> distinct (tornDown w) \<and> (\<forall>x \<in> set (tornDown w). Stage (heap w x) = Teareddown)"

interpretation tearing: lifecycle_invariant tornOnce
  by unfold_locales
    (auto simp: tornOnce_def sameLife_def sameCore_def removeComponent_def containerInit_def tearStep_def)

text \<open>
  A container without its maps lists nothing, and the maps are made in \<^verbatim>\<open>Initializing\<close> only, once.
\<close>

definition tablesOk :: "world \<Rightarrow> bool" where
  "tablesOk w \<longleftrightarrow>
     (\<forall>c. wfPart (cpart w c) \<and> (cComponents (cpart w c) \<noteq> None \<longrightarrow> Initializing \<le> Stage (heap w c)))"

lemma wfPart_nil: "wfPart k \<Longrightarrow> cComponents k = None \<Longrightarrow> components k = []"
  by (simp add: wfPart_def mapGet_def)

lemma wfPart_keepsNames: "keepsNames g \<Longrightarrow> wfPart (g k) = wfPart k"
  by (simp add: keepsNames_def wfPart_def)

lemma cpart_updPart_cases:
  "cpart (updPart c g w) y = (if y = c \<and> asContainer (heap w c) \<noteq> None then g (cpart w c) else cpart w y)"
  by (auto simp: cpart_def)

lemma cpart_by_container: "asContainer (heap w1 y) = asContainer (heap w y) \<Longrightarrow> cpart w1 y = cpart w y"
  by (simp add: cpart_def)

lemma edge_not_before: "edge s t \<Longrightarrow> Initializing \<le> s \<Longrightarrow> Initializing \<le> t"
  by (cases s) (auto simp: stage_order)

lemma tablesOk_same:
  assumes "tablesOk w" and "\<And>y. asContainer (heap w1 y) = asContainer (heap w y)"
    and "\<And>y. Initializing \<le> Stage (heap w y) \<Longrightarrow> Initializing \<le> Stage (heap w1 y)"
  shows "tablesOk w1"
  using assms cpart_by_container [OF assms(2)] by (simp add: tablesOk_def)

lemma tablesOk_part:
  assumes "tablesOk w" and "wfPart (g (cpart w c))"
    and "cComponents (g (cpart w c)) \<noteq> None \<Longrightarrow> cComponents (cpart w c) \<noteq> None"
  shows "tablesOk (updPart c g w)"
  using assms by (auto simp: tablesOk_def cpart_updPart_cases)

interpretation tables: lifecycle_invariant tablesOk
proof
  show "tablesOk (upd x f w)" if "tablesOk w" "sameLife (heap w x) (f (heap w x))" for w x f
    using that by (intro tablesOk_same [OF that(1)]) (auto simp: sameLife_def)
  show "tablesOk w1" if "tablesOk w" "sameCore w w1" for w w1
    using that by (intro tablesOk_same [OF that(1)]) (auto simp: sameCore_def)
  show "tablesOk (updPart c g w)" if "tablesOk w" "keepsNames g" for w g c
    using that by (intro tablesOk_part) (auto simp: wfPart_keepsNames tablesOk_def keepsNames_def)
  show "tablesOk (updPart c (\<lambda>_. k) w)"
    if "tablesOk w" "enterComponent n cc (cpart w c) = (k, None)" "cComponents (cpart w c) \<noteq> None"
      "cName cc = n" "ccomp cc \<noteq> None" for w n cc c k
    using that wfPart_enterComponent [of "cpart w c" cc n] by (intro tablesOk_part) (auto simp: tablesOk_def)
  show "tablesOk (removeComponent c n w)" if "tablesOk w" for w c n
    unfolding removeComponent_def
    using that by (intro tablesOk_part wfPart_removeName)
      (auto simp: tablesOk_def removeName_def Let_def split: option.splits)
  show "tablesOk (containerInit x w1)"
    if "tablesOk w" "tablesOk w1" "Stage (heap w x) < Initializing" "Stage (heap w1 x) = Initializing"
      "asContainer (heap w1 x) = asContainer (heap w x)" for w w1 x
  proof -
    have "\<not> Initializing \<le> Stage (heap w x)" using that(3) by simp
    then have "cComponents (cpart w1 x) = None"
      using that(1) cpart_by_container [OF that(5)] by (auto simp: tablesOk_def)
    then have "components (cpart w1 x) = []" using that(2) wfPart_nil by (auto simp: tablesOk_def)
    then have "wfPart ((cpart w1 x)\<lparr>cComponents := Some Map.empty, cHandlers := Some Map.empty\<rparr>)"
      by (simp add: wfPart_def mapGet_def)
    then show ?thesis
      using that(2,4) by (auto simp: tablesOk_def containerInit_def cpart_updPart_cases)
  qed
  show "tablesOk (upd x (setStage E s) w)"
    if "tablesOk w" "edge (Stage (heap w x)) s" "s \<noteq> Teareddown" for w x E s
    using that edge_not_before by (intro tablesOk_same [OF that(1)]) auto
  show "tablesOk (tearStep E x w)" if "tablesOk w" "edge (Stage (heap w x)) Teareddown" for w E x
    using that by (intro tablesOk_same [OF that(1)]) (auto simp: tearStep_def stage_order)
qed

end
