(* ===== verification/Shutdown.thy ===== *)
theory Shutdown
  imports Safety
begin

text \<open>
  How \<^verbatim>\<open>Shutdown\<close> takes a component down that is no container itself and whose \<^verbatim>\<open>Stop\<close> succeeds, and
  one round of the loop of \<^verbatim>\<open>Container.Stop\<close>. \<open>Nested_Stop\<close> has the whole loop.
\<close>

section \<open>Composing updates\<close>

lemma upd_upd: "upd x f (upd x g w) = upd x (\<lambda>d. f (g d)) w"
  by (simp add: upd_def)

lemma upd_updPart: "x \<noteq> c \<Longrightarrow> upd x f (updPart c g w) = updPart c g (upd x f w)"
  by (simp add: upd_def updPart_def fun_upd_twist)

lemma updPart_updPart: "updPart c f (updPart c g w) = updPart c (\<lambda>k. f (g k)) w"
  by (simp add: updPart_def upd_def option.map_comp comp_def)

lemma upd_tornDown: 
  "upd x f (w\<lparr>tornDown := ts\<rparr>) = (upd x f w)\<lparr>tornDown := ts\<rparr>"
  "updPart c g (w\<lparr>tornDown := ts\<rparr>) = (updPart c g w)\<lparr>tornDown := ts\<rparr>"
  by (simp_all add: upd_def updPart_def)

lemma upd_id: "f (heap w x) = heap w x \<Longrightarrow> upd x f w = w"
  by (simp add: upd_def fun_upd_idem)

section \<open>Without persistence\<close>

definition persistOff :: "world \<Rightarrow> bool" where
  "persistOff w \<longleftrightarrow> (case rootContainer w of None \<Rightarrow> True | Some r \<Rightarrow> persistence (cpart w r) = None)"

lemma withPersistence_off [simp]: "persistOff w \<Longrightarrow> withPersistence f w = Done None w"
  by (simp add: persistOff_def withPersistence_def split: option.splits)

lemma deferPersist_off [simp]: "persistOff w \<Longrightarrow> deferPersist E x (Done err w) = Done err w"
  by (simp add: deferPersist_def)

lemma persistOff_upd [simp]:
  "(\<And>d. asContainer (f d) = asContainer d) \<Longrightarrow> persistOff (upd x f w) = persistOff w"
  by (simp add: persistOff_def cpart_def split: option.split)

lemma persistOff_upd_at:
  "asContainer (f (heap w x)) = asContainer (heap w x) \<Longrightarrow> persistOff (upd x f w) = persistOff w"
  by (simp only: persistOff_def cpart_upd_same upd_sel)

lemma persistOff_core [simp]:
  "persistOff (w\<lparr>tornDown := ts\<rparr>) = persistOff w" "persistOff (w\<lparr>tasks := tk\<rparr>) = persistOff w"
  "persistOff (addTask t w) = persistOff w" "persistOff (w\<lparr>slept := sl\<rparr>) = persistOff w"
  by (simp_all add: persistOff_def cpart_def split: option.split)

lemma persistOff_putMessage: "persistOff (putMessage x m w) = persistOff w"
  by (simp add: persistOff_def split: option.split)

lemma persistOff_updPart [simp]:
  "(\<And>k. persistence (g k) = persistence k) \<Longrightarrow> persistOff (updPart c g w) = persistOff w"
  by (auto simp: persistOff_def cpart_updPart_cases split: option.split)

lemma persistence_removeName [simp]: "persistence (removeName n k) = persistence k"
  by (simp add: removeName_def Let_def split: option.split)

section \<open>One component\<close>

text \<open>A component whose \<^verbatim>\<open>Stop\<close> succeeds and sends no messages, and whose URI can be derived.\<close>

definition stopsCleanly :: "env \<Rightarrow> component \<Rightarrow> bool" where
  "stopsCleanly E d \<longleftrightarrow>
     (case gotype d of
        SimpleT \<Rightarrow> True
      | UserT ty \<Rightarrow> returns None (stopHook E ty)
      | _ \<Rightarrow> False)"

definition derivable :: "world \<Rightarrow> cid \<Rightarrow> bool" where
  "derivable w x \<longleftrightarrow> isNonRestEntity (heap w x) \<or> containerPaths w (container (heap w x)) [] \<noteq> None"

lemma virtualStop_clean:
  "stopsCleanly E (heap w x) \<Longrightarrow>
   \<exists>fs. virtualStop E halt x w = Done None (upd x (\<lambda>d. d\<lparr>userFields := fs\<rparr>) w)"
proof (cases "gotype (heap w x)")
  case SimpleT
  have "upd x (\<lambda>d. d\<lparr>userFields := userFields (heap w x)\<rparr>) w = w" by (simp add: upd_id)
  then show ?thesis using SimpleT
    by (intro exI [of _ "userFields (heap w x)"]) (simp add: virtualStop_def)
next
  case (UserT ty)
  assume "stopsCleanly E (heap w x)"
  then have "returns None (stopHook E ty)" using UserT by (simp add: stopsCleanly_def)
  from runHook_returns [of None "stopHook E" ty, OF this] show ?thesis using UserT by (simp add: virtualStop_def)
qed (simp_all add: stopsCleanly_def)

text \<open>The walk to the outermost container depends on names and containers only.\<close>

lemma containerPaths_transfer:
  assumes "containerPaths w rc ps = Some r"
    and "\<And>y. Name (heap w1 y) = Name (heap w y) \<and> container (heap w1 y) = container (heap w y)"
  shows "containerPaths w1 rc ps = Some r"
  using assms
proof (induction w rc ps r rule: containerPaths.raw_induct)
  case (1 containerPaths' v rc ps r)
  show ?case
  proof (cases rc)
    case None
    then show ?thesis using "1.hyps" by (subst containerPaths.simps) simp
  next
    case (Some c)
    then have step: "containerPaths' v (container (heap v c)) (ps @ [toLower (Name (heap v c))]) = Some r"
      using "1.hyps" by simp
    have "containerPaths v (container (heap v c)) (ps @ [toLower (Name (heap v c))]) = Some r"
      using "1.prems"(1) Some by (subst (asm) containerPaths.simps) simp
    from "1.IH" [OF step this "1.prems"(2)] show ?thesis
      using Some "1.prems"(2) [of c] by (subst containerPaths.simps) simp
  qed
qed (rule assms(1))

lemma derivable_transfer:
  assumes "derivable w x" and "isNonRestEntity (heap w1 x) = isNonRestEntity (heap w x)"
    and "\<And>y. Name (heap w1 y) = Name (heap w y) \<and> container (heap w1 y) = container (heap w y)"
  shows "derivable w1 x"
  using assms containerPaths_transfer [OF _ assms(3)] by (auto simp: derivable_def)

text \<open>The handlers of a component, by the URI it has where it is.\<close>

definition ownHandlers :: "world \<Rightarrow> cid \<Rightarrow> handlers" where
  "ownHandlers w x =
     (if isNonRestEntity (heap w x) then []
      else case containerPaths w (container (heap w x)) [] of
        None \<Rightarrow> []
      | Some paths \<Rightarrow> handlersOf x (componentURI paths (Name (heap w x))) (httpMethods (heap w x)))"

lemma ownHandlers_transfer:
  assumes "derivable w x" and "isNonRestEntity (heap w1 x) = isNonRestEntity (heap w x)"
    and "httpMethods (heap w1 x) = httpMethods (heap w x)"
    and "\<And>y. Name (heap w1 y) = Name (heap w y) \<and> container (heap w1 y) = container (heap w y)"
  shows "ownHandlers w1 x = ownHandlers w x"
proof (cases "isNonRestEntity (heap w x)")
  case False
  then obtain ps where ps: "containerPaths w (container (heap w x)) [] = Some ps"
    using assms(1) by (auto simp: derivable_def)
  then have "containerPaths w1 (container (heap w x)) [] = Some ps" using containerPaths_transfer assms(4) by blast
  then show ?thesis using assms ps False by (simp add: ownHandlers_def)
qed (simp add: ownHandlers_def assms(2))

lemma removeHttpHandlers_Done:
  assumes "derivable w x"
  shows "\<exists>u. removeHttpHandlers c x w =
     Done () (updPart c (\<lambda>k. k\<lparr>cHandlers := map_option (dropHandlers (ownHandlers w x)) (cHandlers k)\<rparr>)
               (upd x (\<lambda>d. d\<lparr>uri := u\<rparr>) w))"
proof -
  have same: "upd x (\<lambda>d. d\<lparr>uri := uri (heap w x)\<rparr>) w = w" by (simp add: upd_id)
  have "\<exists>w1. deriveHttpHandlers x w = Done (ownHandlers w x) w1 \<and> (w1 = w \<or> (\<exists>u. w1 = upd x (\<lambda>d. d\<lparr>uri := u\<rparr>) w))"
    using assms by (auto simp: derivable_def deriveHttpHandlers_def ownHandlers_def Let_def)
  then obtain u where "deriveHttpHandlers x w = Done (ownHandlers w x) (upd x (\<lambda>d. d\<lparr>uri := u\<rparr>) w)"
    using same by metis
  then show ?thesis by (auto simp: removeHttpHandlers_def)
qed

text \<open>What is left of a component that has been torn down.\<close>

definition gone :: "component \<Rightarrow> component \<Rightarrow> bool" where
  "gone d d1 \<longleftrightarrow>
     Stage d1 = Teareddown \<and> State d1 = Inactive \<and> \<not> mmux d1 \<and> Name d1 = Name d \<and>
     container d1 = container d \<and> asContainer d1 = asContainer d"

lemma stopComponent_clean:
  assumes "stopsCleanly E (heap w x)" and "derivable w x" and "x \<noteq> c"
  shows "\<exists>F. stopComponent E halt c x w =
      Done None ((updPart c (\<lambda>k. removeName (Name (heap w x)) (k\<lparr>cHandlers := map_option (dropHandlers (ownHandlers w x)) (cHandlers k)\<rparr>)) (upd x F w))
                   \<lparr>tornDown := tornDown w @ [x]\<rparr>) \<and> gone (heap w x) (F (heap w x))"
proof -
  obtain fs where s: "virtualStop E halt x w = Done None (upd x (\<lambda>d. d\<lparr>userFields := fs\<rparr>) w)"
    using virtualStop_clean [OF assms(1)] by blast
  have d: "derivable (upd x (\<lambda>d. d\<lparr>userFields := fs\<rparr>) w) x"
    by (rule derivable_transfer [OF assms(2)]) simp_all
  have own: "ownHandlers (upd x (\<lambda>d. d\<lparr>userFields := fs\<rparr>) w) x = ownHandlers w x"
    by (rule ownHandlers_transfer [OF assms(2)]) simp_all
  obtain u where h: "removeHttpHandlers c x (upd x (\<lambda>d. d\<lparr>userFields := fs\<rparr>) w) =
     Done () (updPart c (\<lambda>k. k\<lparr>cHandlers := map_option (dropHandlers (ownHandlers w x)) (cHandlers k)\<rparr>)
               (upd x (\<lambda>d. d\<lparr>uri := u\<rparr>) (upd x (\<lambda>d. d\<lparr>userFields := fs\<rparr>) w)))"
    using removeHttpHandlers_Done [OF d, of c] unfolding own by blast
  let ?F = "\<lambda>d. setStage E Teareddown (tearDown (setStage E Stopped (d\<lparr>userFields := fs, uri := u\<rparr>)))"
  have "stopComponent E halt c x w =
      Done None ((updPart c (\<lambda>k. removeName (Name (heap w x)) (k\<lparr>cHandlers := map_option (dropHandlers (ownHandlers w x)) (cHandlers k)\<rparr>)) (upd x ?F w))
                   \<lparr>tornDown := tornDown w @ [x]\<rparr>)"
    using assms(3)
    by (simp add: stopComponent_def s h tearDownComponent_def Let_def removeComponent_def
        upd_updPart upd_upd upd_tornDown updPart_updPart)
  moreover have "gone (heap w x) (?F (heap w x))"
  proof -
    have c: "core (tearDown d) = core (d\<lparr>mmux := False\<rparr>)" for d by simp
    show ?thesis using core_eqD [OF c] by (simp add: gone_def stateOf_def running_def stage_order)
  qed
  ultimately show ?thesis by (intro exI [of _ ?F] conjI)
qed

text \<open>The whole of a \<^verbatim>\<open>Shutdown\<close> message to a started component, in whose channel no other waits.\<close>

definition runningChild :: "env \<Rightarrow> cid \<Rightarrow> world \<Rightarrow> cid \<Rightarrow> bool" where
  "runningChild E c w x \<longleftrightarrow>
     Stage (heap w x) = Started \<and> mmux (heap w x) \<and> mmuxBuffer (heap w x) = None \<and>
     mmuxServer x (tasks w) = Some c \<and> x \<noteq> c \<and>
     stopsCleanly E (heap w x) \<and> derivable w x"

lemma shutdown_started:
  assumes "runningChild E c w x" and "persistOff w"
  shows "\<exists>F. SendSyncMessage E halt x ControlMsgType (controlLookup Shutdown) w =
      Done None (endMmux c x
        ((updPart c (\<lambda>k. removeName (Name (heap w x)) (k\<lparr>cHandlers := map_option (dropHandlers (ownHandlers w x)) (cHandlers k)\<rparr>)) (upd x F w))
           \<lparr>tornDown := tornDown w @ [x]\<rparr>)) \<and> gone (heap w x) (F (heap w x))"
proof -
  let ?ctx = "withValue background ControlMsgType (ControlI Shutdown)"
  let ?w1 = "upd x (setStage E Stopping) w"
  have x: "Stage (heap w x) = Started" "mmux (heap w x)" "mmuxBuffer (heap w x) = None" "mmuxServer x (tasks w) = Some c" "x \<noteq> c"
    "stopsCleanly E (heap w x)" "derivable w x"
    using assms(1) by (auto simp: runningChild_def)
  have f1: "componentLifecycleFSM E halt c ?ctx x w = Done None ?w1"
    using x(1) assms(2)
    by (simp add: componentLifecycleFSM_def stageSwitch_def controlComponent_def withValue_def)
  have "stopsCleanly E (heap ?w1 x)" using x(6) by (simp add: stopsCleanly_def)
  moreover have "derivable ?w1 x" by (rule derivable_transfer [OF x(7)]) simp_all
  ultimately obtain F where s: "stopComponent E halt c x ?w1 =
      Done None ((updPart c (\<lambda>k. removeName (Name (heap ?w1 x)) (k\<lparr>cHandlers := map_option (dropHandlers (ownHandlers ?w1 x)) (cHandlers k)\<rparr>)) (upd x F ?w1))
                   \<lparr>tornDown := tornDown ?w1 @ [x]\<rparr>)" and g: "gone (heap ?w1 x) (F (heap ?w1 x))"
    using stopComponent_clean x(5) by blast
  have own: "ownHandlers ?w1 x = ownHandlers w x" by (rule ownHandlers_transfer [OF x(7)]) simp_all
  let ?G = "\<lambda>d. F (setStage E Stopping d)"
  let ?w2 = "(updPart c (\<lambda>k. removeName (Name (heap w x)) (k\<lparr>cHandlers := map_option (dropHandlers (ownHandlers w x)) (cHandlers k)\<rparr>)) (upd x ?G w))
           \<lparr>tornDown := tornDown w @ [x]\<rparr>"
  have po: "persistOff (upd x ?G w)"
    using g assms(2) by (simp add: persistOff_upd_at gone_def)
  have "componentLifecycleFSM E halt c ?ctx x ?w1 = Done None ?w2"
    using s x(1) po own by (simp add: componentLifecycleFSM_def stageSwitch_def upd_upd)
  then have "shutdownMessage E halt c x ?ctx LiveChan w = Done (Some None, False) ?w2"
    by (simp add: shutdownMessage_def f1 reply_def)
  then have "SendSyncMessage E halt x ControlMsgType (controlLookup Shutdown) w = Done None (endMmux c x ?w2)"
    using x by (simp add: SendSyncMessage_idle mmuxRound_def serveMessage_def controlLookup_def Let_def stage_order)
  moreover have "gone (heap w x) (?G (heap w x))" using g by (simp add: gone_def)
  ultimately show ?thesis by (intro exI [of _ ?G] conjI)
qed

text \<open>The same, where the handlers do not matter.\<close>

lemma shutdown_out:
  assumes "runningChild E c w x" and "persistOff w"
  shows "\<exists>F h. SendSyncMessage E halt x ControlMsgType (controlLookup Shutdown) w =
      Done None (endMmux c x
        ((updPart c (\<lambda>k. removeName (Name (heap w x)) (k\<lparr>cHandlers := h k\<rparr>)) (upd x F w))
           \<lparr>tornDown := tornDown w @ [x]\<rparr>)) \<and> gone (heap w x) (F (heap w x))"
proof -
  obtain F where "SendSyncMessage E halt x ControlMsgType (controlLookup Shutdown) w =
      Done None (endMmux c x
        ((updPart c (\<lambda>k. removeName (Name (heap w x))
             (k\<lparr>cHandlers := map_option (dropHandlers (ownHandlers w x)) (cHandlers k)\<rparr>)) (upd x F w))
           \<lparr>tornDown := tornDown w @ [x]\<rparr>))" "gone (heap w x) (F (heap w x))"
    using shutdown_started [OF assms] by blast
  then show ?thesis
    by (intro exI [of _ F] exI [of _ "\<lambda>k. map_option (dropHandlers (ownHandlers w x)) (cHandlers k)"] conjI)
qed

section \<open>One round of Container.Stop\<close>

lemma mmuxServer_append: "mmuxServer y (ts @ us) = (case mmuxServer y ts of None \<Rightarrow> mmuxServer y us | r \<Rightarrow> r)"
  by (induction y ts rule: mmuxServer.induct) auto

lemma mmuxServer_remove1: "y \<noteq> x \<Longrightarrow> mmuxServer y (remove1 (MmuxTask c x) ts) = mmuxServer y ts"
  by (induction y ts rule: mmuxServer.induct) auto

lemma mmuxServer_endMmux: "y \<noteq> x \<Longrightarrow> mmuxServer y (tasks (endMmux c x w)) = mmuxServer y (tasks w)"
  by (simp add: endMmux_def mmuxServer_append mmuxServer_remove1 split: option.split)

lemma endMmux_sel [simp]:
  "heap (endMmux c x w) = heap w" "cpart (endMmux c x w) = cpart w" "persistOff (endMmux c x w) = persistOff w"
  "tornDown (endMmux c x w) = tornDown w" "rootContainer (endMmux c x w) = rootContainer w"
  by (simp_all add: endMmux_def cpart_def persistOff_def fun_eq_iff split: option.split)

lemma removeName_last:
  assumes "components k = ys @ [n]" and "distinct (components k)"
  shows "components (removeName n k) = ys"
  using assms lastPos_append_notin [of n "[]" ys] removeAt_append [of ys n "[]"]
  by (simp add: removeName_def Let_def)

lemma mapGet_removeName: "mapGet (cComponents (removeName n k)) = (mapGet (cComponents k))(n := None)"
  by (auto simp: removeName_def Let_def mapGet_def fun_eq_iff split: option.split)

text \<open>What a container finds under a name, and how it lists itself, if it does.\<close>

definition childOf :: "world \<Rightarrow> cid \<Rightarrow> string \<Rightarrow> cid option" where
  "childOf w c n = Option.bind (mapGet (cComponents (cpart w c)) n) ccomp"

definition ownNames :: "bool \<Rightarrow> cid \<Rightarrow> world \<Rightarrow> string list" where
  "ownNames own c w = (if own then [Name (heap w c)] else [])"

text \<open>One round of the loop, on a container that lists something.\<close>

lemma containerStop_round:
  assumes "components (cpart w c) \<noteq> []"
  shows "containerStop E (Suc n) c w =
    (let child = childOf w c (last (components (cpart w c)))
     in runBind (case child of
                   None \<Rightarrow> Done None w
                 | Some y \<Rightarrow>
                     if c = y then Done None w
                     else SendSyncMessage E (containerStop E n) y ControlMsgType (controlLookup Shutdown) w)
          (\<lambda>_ w1. if length (components (cpart w c)) = 1 \<and> child = Some c then Done None w1
                  else containerStop E n c w1))"
  using assms unfolding containerStop.simps childOf_def Matches_def
  by (cases "components (cpart w c)") (simp_all add: Let_def)

text \<open>
  The loop shuts the last component down and looks at the last one again. A last component that is not
  removed by that is met for ever.
\<close>

lemma containerStop_hangs:
  assumes "components (cpart w c) \<noteq> []" and "childOf w c (last (components (cpart w c))) = Some y"
    and "y = c \<and> 1 < length (components (cpart w c)) \<or> y \<noteq> c \<and> Stopping \<le> Stage (heap w y)"
  shows "containerStop E n c w = Stuck"
proof (induction n)
  case (Suc n)
  show ?case
    using assms(3) Suc unfolding containerStop_round [OF assms(1)] assms(2)
    by (auto simp: Let_def SendSyncMessage_def)
qed simp

end
