(* ===== verification/Activation.thy ===== *)
theory Activation
  imports Shutdown
begin

text \<open>
  How \<^verbatim>\<open>Add\<close> brings a component up: the state machine initializes it, the container enters it into
  its tables and publishes its handlers, the state machine starts it; and what is left behind when
  \<^verbatim>\<open>Init\<close> or \<^verbatim>\<open>PostInit\<close> fails. The add-on for persistence is off.
\<close>

section \<open>The state machine up to the start\<close>

text \<open>A component of an application type whose \<^verbatim>\<open>Init\<close> and \<^verbatim>\<open>PostInit\<close> succeed.\<close>

definition initsCleanly :: "env \<Rightarrow> component \<Rightarrow> bool" where
  "initsCleanly E d \<longleftrightarrow>
     (case gotype d of
        SimpleT \<Rightarrow> True
      | UserT ty \<Rightarrow> returns None (initHook E ty) \<and> returns None (postInitHook E ty)
      | _ \<Rightarrow> False)"

text \<open>
  A component with no callbacks but the framework's keeps its subscribers through every notification.
\<close>

definition quiet :: "component \<Rightarrow> bool" where
  "quiet d \<longleftrightarrow> set (callbacks d) \<subseteq> {StateChangeCallback}"

lemma invokeFrom_framework:
  "set cbs \<subseteq> {StateChangeCallback} \<Longrightarrow>
   subscribers (invokeFrom E ch i cbs d) = subscribers d \<and>
   set (callbacks (invokeFrom E ch i cbs d)) \<subseteq> set (callbacks d) \<and>
   prefix (trace d) (trace (invokeFrom E ch i cbs d))"
proof (induction cbs arbitrary: i d)
  case (Cons cb cbs)
  let ?d = "runCallback E cb i ch (d\<lparr>trace := trace d @ [CallbackRun i cb ch]\<rparr>)"
  have d: "subscribers ?d = subscribers d" "set (callbacks ?d) \<subseteq> set (callbacks d)" "prefix (trace d) (trace ?d)"
    using Cons.prems set_removeAt_subset [of i "callbacks d"]
    by (auto simp: stateChangeCallbacker_def UpdateComponentEtag_def removeCallbackAt_def split: change.split option.split)
  with Cons.IH [of "Suc i" ?d] Cons.prems show ?case by (auto dest: append_prefixD intro: prefix_order.trans)
qed simp

lemma quiet_upds [simp]:
  "quiet (d\<lparr>userFields := fs\<rparr>) = quiet d" "quiet (d\<lparr>Stage := s\<rparr>) = quiet d" "quiet (d\<lparr>State := t\<rparr>) = quiet d"
  "quiet (d\<lparr>container := c\<rparr>) = quiet d" "quiet (d\<lparr>uri := u\<rparr>) = quiet d" "quiet (d\<lparr>asContainer := a\<rparr>) = quiet d"
  "quiet (d\<lparr>persistanceCache := pc\<rparr>) = quiet d" "quiet (d\<lparr>asPersistence := ap\<rparr>) = quiet d"
  "quiet (d\<lparr>mmux := b\<rparr>) = quiet d" "quiet (d\<lparr>messageHandlers := h\<rparr>) = quiet d"
  by (simp_all add: quiet_def)

lemma quiet_round:
  assumes "quiet d"
  shows "quiet (notifySubscribers ch (invokeCallbacks E ch d))"
    and "subscribers (notifySubscribers ch (invokeCallbacks E ch d)) = subscribers d"
  using invokeFrom_framework [of "callbacks d" E ch 0 d] assms
  by (auto simp: quiet_def invokeCallbacks_def notifySubscribers_def)

lemma quiet_setStage [simp]:
  assumes "quiet d"
  shows "quiet (setStage E t d)" and "subscribers (setStage E t d) = subscribers d"
proof -
  have state: "quiet (setState E s d) \<and> subscribers (setState E s d) = subscribers d" if "quiet d" for s d
    using that quiet_round [of "d\<lparr>State := s\<rparr>" "stateChange (State d) s" E] by (simp add: setState_def Let_def)
  have "quiet (d\<lparr>Stage := t\<rparr>)" using assms by simp
  from quiet_round [OF this, of "stageChange (Stage d) t" E] state
  show "quiet (setStage E t d)" "subscribers (setStage E t d) = subscribers d"
    by (simp_all add: setStage_def Let_def)
qed

lemma quiet_methods [simp]:
  "quiet (preInit d) = quiet d" "subscribers (preInit d) = subscribers d"
  "quiet (SetSyncMessageHandler m h d) = quiet d" "subscribers (SetSyncMessageHandler m h d) = subscribers d"
  "quiet (fst (Callback b StateChangeCallback d)) = quiet d"
  "subscribers (fst (Callback b StateChangeCallback d)) = subscribers d"
  by (auto simp: quiet_def Callback_def preInit_def SetSyncMessageHandler_def)

text \<open>Such a component also keeps its fields.\<close>

lemma invokeFrom_userFields:
  "set cbs \<subseteq> {StateChangeCallback} \<Longrightarrow> userFields (invokeFrom E ch i cbs d) = userFields d"
proof (induction cbs arbitrary: i d)
  case (Cons cb cbs)
  then have "userFields (runCallback E cb i ch (d\<lparr>trace := trace d @ [CallbackRun i cb ch]\<rparr>)) = userFields d"
    by (simp add: stateChangeCallbacker_def UpdateComponentEtag_def removeCallbackAt_def split: change.split option.split)
  with Cons show ?case by simp
qed simp

lemma userFields_round:
  "quiet d \<Longrightarrow> userFields (notifySubscribers ch (invokeCallbacks E ch d)) = userFields d"
  using invokeFrom_userFields [of "callbacks d" E ch 0 d]
  by (simp add: quiet_def invokeCallbacks_def notifySubscribers_def)

lemma userFields_setStage:
  assumes "quiet d"
  shows "userFields (setStage E t d) = userFields d"
proof -
  have state: "userFields (setState E s d) = userFields d" if "quiet d" for s d
    using that userFields_round [of "d\<lparr>State := s\<rparr>" "stateChange (State d) s" E] by (simp add: setState_def Let_def)
  let ?d = "notifySubscribers (stageChange (Stage d) t) (invokeCallbacks E (stageChange (Stage d) t) (d\<lparr>Stage := t\<rparr>))"
  have q: "quiet (d\<lparr>Stage := t\<rparr>)" using assms by simp
  have "userFields ?d = userFields d" using userFields_round [OF q] by simp
  then show ?thesis using state [OF quiet_round(1) [OF q]] by (simp add: setStage_def Let_def)
qed

text \<open>What the steps of the state machine keep of a component on its way to \<^verbatim>\<open>Started\<close>.\<close>

definition reaches :: "stage \<Rightarrow> component \<Rightarrow> component \<Rightarrow> bool" where
  "reaches s d d1 \<longleftrightarrow>
     Stage d1 = s \<and> State d1 = stateOf s \<and> mmux d1 \<and> Name d1 = Name d \<and> gotype d1 = gotype d \<and>
     httpMethods d1 = httpMethods d \<and> isNonRestEntity d1 = isNonRestEntity d \<and>
     container d1 = container d \<and> asContainer d1 = asContainer d \<and>
     asPersistence d1 = asPersistence d \<and> persistanceCache d1 = persistanceCache d \<and>
     (mmuxBuffer d = None \<longrightarrow> mmuxBuffer d1 = None) \<and>
     (quiet d \<longrightarrow> quiet d1 \<and> subscribers d1 = subscribers d)"

lemma upd_addTask: "upd x f (addTask t w) = addTask t (upd x f w)"
  by (simp add: upd_def addTask_def)

lemma upd_const: "upd x f w = upd x (\<lambda>_. f (heap w x)) w"
  by (simp add: upd_def)

lemma virtualInit_clean:
  "initsCleanly E (heap w x) \<Longrightarrow>
   \<exists>fs. virtualInit E x w = Done None (upd x (\<lambda>d. d\<lparr>userFields := fs\<rparr>) w)"
proof (cases "gotype (heap w x)")
  case SimpleT
  have "upd x (\<lambda>d. d\<lparr>userFields := userFields (heap w x)\<rparr>) w = w" by (simp add: upd_id)
  then show ?thesis using SimpleT
    by (intro exI [of _ "userFields (heap w x)"]) (simp add: virtualInit_def)
next
  case (UserT ty)
  assume "initsCleanly E (heap w x)"
  then have "returns None (initHook E ty)" using UserT by (simp add: initsCleanly_def)
  from runHook_returns [of None "initHook E" ty, OF this] show ?thesis using UserT by (simp add: virtualInit_def)
qed (simp_all add: initsCleanly_def)

lemma virtualPostInit_clean:
  "initsCleanly E (heap w x) \<Longrightarrow>
   \<exists>fs. virtualPostInit E x w = Done None (upd x (\<lambda>d. d\<lparr>userFields := fs\<rparr>) w)"
proof (cases "gotype (heap w x)")
  case SimpleT
  have "upd x (\<lambda>d. d\<lparr>userFields := userFields (heap w x)\<rparr>) w = w" by (simp add: upd_id)
  then show ?thesis using SimpleT
    by (intro exI [of _ "userFields (heap w x)"]) (simp add: virtualPostInit_def)
next
  case (UserT ty)
  assume "initsCleanly E (heap w x)"
  then have "returns None (postInitHook E ty)" using UserT by (simp add: initsCleanly_def)
  from runHook_returns [of None "postInitHook E" ty, OF this] show ?thesis using UserT by (simp add: virtualPostInit_def)
qed (simp_all add: initsCleanly_def)

lemma initComponent_clean:
  assumes "initsCleanly E (heap w x)" and "persistOff w" and "mmux (heap w x)"
  shows "\<exists>d1. initComponent E x w = Done None (upd x (\<lambda>_. d1) w) \<and> reaches Initialized (heap w x) d1 \<and>
    mmuxBuffer d1 = mmuxBuffer (heap w x)"
proof -
  let ?w1 = "upd x (setStage E Initializing) w"
  have "initsCleanly E (heap ?w1 x)" using assms(1) by (simp add: initsCleanly_def)
  then obtain fs where i: "virtualInit E x ?w1 = Done None (upd x (\<lambda>d. d\<lparr>userFields := fs\<rparr>) ?w1)"
    using virtualInit_clean by blast
  let ?w2 = "upd x (\<lambda>d. d\<lparr>userFields := fs\<rparr>) ?w1"
  have "initsCleanly E (heap ?w2 x)" using assms(1) by (simp add: initsCleanly_def)
  then obtain gs where p: "virtualPostInit E x ?w2 = Done None (upd x (\<lambda>d. d\<lparr>userFields := gs\<rparr>) ?w2)"
    using virtualPostInit_clean by blast
  let ?d1 = "setStage E Initialized ((setStage E Initializing (heap w x))\<lparr>userFields := gs\<rparr>)"
  have "initComponent E x w = Done None (upd x (\<lambda>_. ?d1) w)"
    using assms(2) by (simp add: initComponent_def i p) (simp add: upd_def)
  moreover have "reaches Initialized (heap w x) ?d1" using assms(3) by (simp add: reaches_def)
  ultimately show ?thesis by (intro exI [of _ ?d1]) simp
qed

text \<open>An \<^verbatim>\<open>Init\<close> or \<^verbatim>\<open>PostInit\<close> that fails, for whatever fields the component has by then.\<close>

definition initFails :: "env \<Rightarrow> component \<Rightarrow> kerror \<Rightarrow> bool" where
  "initFails E d err \<longleftrightarrow>
     (\<exists>ty. gotype d = UserT ty \<and>
       (returns (Some err) (initHook E ty) \<or>
        returns None (initHook E ty) \<and> returns (Some err) (postInitHook E ty)))"

lemma initComponent_fails:
  assumes "initFails E (heap w x) err" and "persistOff w" and "mmux (heap w x)"
  shows "\<exists>d1. initComponent E x w = Done (Some err) (upd x (\<lambda>_. d1) w) \<and> reaches Tearingdown (heap w x) d1"
proof -
  obtain ty where ty: "gotype (heap w x) = UserT ty" and
    e: "returns (Some err) (initHook E ty) \<or>
        returns None (initHook E ty) \<and> returns (Some err) (postInitHook E ty)"
    using assms(1) by (auto simp: initFails_def)
  let ?abort = "\<lambda>gs. setStage E Tearingdown (setStage E Aborting ((setStage E Initializing (heap w x))\<lparr>userFields := gs\<rparr>))"
  let ?fs = "userFields (setStage E Initializing (heap w x))"
  have "\<exists>gs ie hs. initHook E ty ?fs = HookRet gs ie \<and>
      (ie = Some err \<or> ie = None \<and> postInitHook E ty gs = HookRet hs (Some err))"
    using e unfolding returns_def by metis
  then obtain gs ie hs where i: "initHook E ty ?fs = HookRet gs ie"
    and "ie = Some err \<or> ie = None \<and> postInitHook E ty gs = HookRet hs (Some err)" by blast
  from this(2) have "\<exists>ks. initComponent E x w = Done (Some err) (upd x (\<lambda>_. ?abort ks) w)"
  proof
    assume "ie = Some err"
    then have "initComponent E x w = Done (Some err) (upd x (\<lambda>_. ?abort gs) w)"
      using assms(2) ty i by (simp add: initComponent_def virtualInit_def runHook_def) (simp add: upd_def)
    then show ?thesis by blast
  next
    assume p: "ie = None \<and> postInitHook E ty gs = HookRet hs (Some err)"
    then have "initComponent E x w = Done (Some err) (upd x (\<lambda>_. ?abort hs) w)"
      using assms(2) ty i p
      by (simp add: initComponent_def virtualInit_def virtualPostInit_def runHook_def) (simp add: upd_def)
    then show ?thesis by blast
  qed
  moreover have "reaches Tearingdown (heap w x) (?abort ks)" for ks using assms(3) by (simp add: reaches_def)
  ultimately show ?thesis by blast
qed

text \<open>The first call of the state machine, up to the initialization.\<close>

lemma fsm_submitted:
  assumes "Stage (heap w x) = Submitted"
  shows "\<exists>d0. stageSwitch E halt c ctx x w = initComponent E x (addTask (MmuxTask c x) (upd x (\<lambda>_. d0) w)) \<and>
    reaches Preinitialized (heap w x) d0 \<and> mmuxBuffer d0 = None \<and>
    (quiet (heap w x) \<longrightarrow> userFields d0 = userFields (heap w x))"
proof -
  let ?d1 = "fst (Callback True StateChangeCallback (preInit (setStage E Preinitializing (heap w x))))"
  let ?n = "StringI (Name (heap w x))"
  let ?d2 = "if getSyncMessageHandler ?d1 ?n = None then SetSyncMessageHandler ?n (Some DefaultHandler) ?d1 else ?d1"
  have c: "core ?d1 = (core (heap w x))\<lparr>Stage := Preinitializing, State := Inactive, mmux := True, mmuxBuffer := None\<rparr>"
    by (simp add: preInit_def stateOf_def running_def stage_order)
  have n: "Name ?d1 = Name (heap w x)"
    using core_eqD(6) [of ?d1 "(heap w x)\<lparr>mmux := True\<rparr>"] c core_sel(6) [of ?d1] by simp
  have 1: "stageSwitch E halt c ctx x w =
    initComponent E x (addTask (MmuxTask c x) (upd x (\<lambda>_. setStage E Preinitialized ?d2) w))"
    using assms n by (simp add: stageSwitch_def preinitComponent_def Let_def upd_addTask upd_upd) (simp add: upd_def)
  have s: "gotype ?d1 = gotype (heap w x)" "httpMethods ?d1 = httpMethods (heap w x)" 
    "isNonRestEntity ?d1 = isNonRestEntity (heap w x)" "container ?d1 = container (heap w x)"
    "asContainer ?d1 = asContainer (heap w x)" "mmux ?d1" "asPersistence ?d1 = asPersistence (heap w x)"
    "persistanceCache ?d1 = persistanceCache (heap w x)" "mmuxBuffer ?d1 = None"
    using core_sel [of ?d1] unfolding c by simp_all
  have "userFields (setStage E Preinitialized ?d2) = userFields (heap w x)" if "quiet (heap w x)"
    using that by (simp add: userFields_setStage) (simp add: SetSyncMessageHandler_def Callback_def preInit_def userFields_setStage)
  moreover have "reaches Preinitialized (heap w x) (setStage E Preinitialized ?d2)"
    using n s by (auto simp: reaches_def SetSyncMessageHandler_def)
  moreover have "mmuxBuffer (setStage E Preinitialized ?d2) = None"
    using core_sel [of ?d1] unfolding c by (simp add: SetSyncMessageHandler_def)
  ultimately show ?thesis using 1 by blast
qed

lemma reaches_trans: "reaches s d d1 \<Longrightarrow> reaches t d1 d2 \<Longrightarrow> reaches t d d2"
  by (simp add: reaches_def)

lemma initialize_component:
  assumes "Stage (heap w x) = Submitted" and "persistOff w" and "initsCleanly E (heap w x)"
  shows "\<exists>d1. componentLifecycleFSM E halt c ctx x w = Done None (addTask (MmuxTask c x) (upd x (\<lambda>_. d1) w)) \<and>
    reaches Initialized (heap w x) d1 \<and> mmuxBuffer d1 = None"
proof -
  obtain d0 where d0: "stageSwitch E halt c ctx x w = initComponent E x (addTask (MmuxTask c x) (upd x (\<lambda>_. d0) w))"
    "reaches Preinitialized (heap w x) d0" "mmuxBuffer d0 = None"
    using fsm_submitted [OF assms(1)] by blast
  let ?w1 = "addTask (MmuxTask c x) (upd x (\<lambda>_. d0) w)"
  have h: "heap ?w1 x = d0" by simp
  have i: "initsCleanly E d0" "mmux d0" using assms(3) d0(2) by (simp_all add: initsCleanly_def reaches_def)
  have po: "persistOff ?w1" using assms(2) d0(2) by (simp add: persistOff_upd_at reaches_def)
  obtain d1 where d1: "initComponent E x ?w1 = Done None (upd x (\<lambda>_. d1) ?w1)" "reaches Initialized d0 d1"
    "mmuxBuffer d1 = mmuxBuffer d0"
    using initComponent_clean [of E ?w1 x] i po unfolding h by blast
  have "persistOff (upd x (\<lambda>_. d1) ?w1)" using po d1(2) by (subst persistOff_upd_at) (simp_all add: reaches_def)
  then have "componentLifecycleFSM E halt c ctx x w = Done None (addTask (MmuxTask c x) (upd x (\<lambda>_. d1) w))"
    using d0(1) d1(1) by (simp add: componentLifecycleFSM_def upd_addTask upd_upd)
  then show ?thesis using reaches_trans [OF d0(2) d1(2)] d0(3) d1(3) by auto
qed

lemma initialize_fails:
  assumes "Stage (heap w x) = Submitted" and "persistOff w" and "initFails E (heap w x) err"
  shows "\<exists>d1. componentLifecycleFSM E halt c ctx x w = Done (Some err) (addTask (MmuxTask c x) (upd x (\<lambda>_. d1) w)) \<and>
    reaches Tearingdown (heap w x) d1"
proof -
  obtain d0 where d0: "stageSwitch E halt c ctx x w = initComponent E x (addTask (MmuxTask c x) (upd x (\<lambda>_. d0) w))"
    "reaches Preinitialized (heap w x) d0"
    using fsm_submitted [OF assms(1)] by blast
  let ?w1 = "addTask (MmuxTask c x) (upd x (\<lambda>_. d0) w)"
  have h: "heap ?w1 x = d0" by simp
  have i: "initFails E d0 err" "mmux d0" using assms(3) d0(2) by (simp_all add: initFails_def reaches_def)
  have po: "persistOff ?w1" using assms(2) d0(2) by (simp add: persistOff_upd_at reaches_def)
  obtain d1 where d1: "initComponent E x ?w1 = Done (Some err) (upd x (\<lambda>_. d1) ?w1)" "reaches Tearingdown d0 d1"
    using initComponent_fails [of E ?w1 x] i po unfolding h by blast
  have "persistOff (upd x (\<lambda>_. d1) ?w1)" using po d1(2) by (subst persistOff_upd_at) (simp_all add: reaches_def)
  then have "componentLifecycleFSM E halt c ctx x w = Done (Some err) (addTask (MmuxTask c x) (upd x (\<lambda>_. d1) w))"
    using d0(1) d1(1) by (simp add: componentLifecycleFSM_def upd_addTask upd_upd)
  then show ?thesis using reaches_trans [OF d0(2) d1(2)] by auto
qed

text \<open>The second call: the component is started, its goroutines are there.\<close>

lemma start_component:
  assumes "Stage (heap w x) = Initialized \<or> Stage (heap w x) = Restarting" and "persistOff w" and "mmux (heap w x)"
  shows "\<exists>d1. componentLifecycleFSM E halt c ctx x w =
      Done None (addTask (StartTask c x) (addTask (PreStartTask x) (upd x (\<lambda>_. d1) w))) \<and>
    reaches Started (heap w x) d1 \<and> mmuxBuffer d1 = mmuxBuffer (heap w x) \<and> uri d1 = uri (heap w x) \<and>
    (quiet (heap w x) \<longrightarrow> userFields d1 = userFields (heap w x))"
proof -
  let ?d1 = "setStage E Started (setStage E Starting (heap w x))"
  have "stageSwitch E halt c ctx x w =
      Done None (addTask (StartTask c x) (addTask (PreStartTask x) (upd x (\<lambda>_. ?d1) w)))"
    using assms(1) by (auto simp: stageSwitch_def runComponent_def upd_addTask upd_upd) (simp_all add: upd_def)
  moreover have "persistOff (upd x (\<lambda>_. ?d1) w)" using assms(2) by (simp add: persistOff_upd_at)
  ultimately have "componentLifecycleFSM E halt c ctx x w =
      Done None (addTask (StartTask c x) (addTask (PreStartTask x) (upd x (\<lambda>_. ?d1) w)))"
    by (simp add: componentLifecycleFSM_def)
  moreover have "reaches Started (heap w x) ?d1" using assms(3) by (simp add: reaches_def)
  moreover have "quiet (heap w x) \<longrightarrow> userFields ?d1 = userFields (heap w x)" by (simp add: userFields_setStage)
  ultimately show ?thesis by (intro exI [of _ ?d1]) simp
qed

section \<open>Entering a component into the tables\<close>

text \<open>The handlers of a component below the containers with the lower-case names \<open>ps\<close>.\<close>

definition publishedAs :: "string list \<Rightarrow> cid \<Rightarrow> component \<Rightarrow> handlers" where
  "publishedAs ps x d =
     (if isNonRestEntity d then [] else handlersOf x (componentURI ps (Name d)) (httpMethods d))"

text \<open>A component whose \<^verbatim>\<open>ServeHTTP\<close> is published.\<close>

definition publishesItself :: "component \<Rightarrow> bool" where
  "publishesItself d \<longleftrightarrow> \<not> isNonRestEntity d \<and> ''ServeHTTP'' \<in> set (httpMethods d)"

lemma updPart_id: "asContainer (heap w r) = Some k \<Longrightarrow> g k = k \<Longrightarrow> updPart r g w = w"
  by (simp add: updPart_def upd_id)

lemma toCanonical_child:
  assumes "x \<noteq> c" and "containerPaths (upd x (setContainer c) w) (Some c) [] = Some ps"
    and "rootContainer w = Some r" and "x \<noteq> r" and "asContainer (heap w r) \<noteq> None"
    and "cHandlers (cpart w r) = Some tbl"
  shows "\<exists>u. toCanonical c x w = Done \<lparr>cName = Name (heap w x), ccomp = Some x\<rparr>
      (updPart r (\<lambda>k. k\<lparr>cHandlers := Some (addHandlers (publishedAs ps x (heap w x)) tbl)\<rparr>)
         (upd x (\<lambda>d. d\<lparr>container := Some c, uri := u\<rparr>) w)) \<and> (publishesItself (heap w x) \<longrightarrow> u = componentURI ps (Name (heap w x)))"
proof -
  let ?w1 = "upd x (setContainer c) w"
  let ?hs = "publishedAs ps x (heap w x)"
  let ?cc = "\<lparr>cName = Name (heap w x), ccomp = Some x\<rparr>"
  have u0: "?w1 = upd x (\<lambda>d. d\<lparr>container := Some c, uri := uri (heap w x)\<rparr>) w"
    by (simp add: upd_def setContainer_def)
  have "\<exists>u. deriveHttpHandlers x ?w1 = Done ?hs (upd x (\<lambda>d. d\<lparr>container := Some c, uri := u\<rparr>) w) \<and>
      (publishesItself (heap w x) \<longrightarrow> u = componentURI ps (Name (heap w x)))"
    using assms(2) u0
    by (cases "publishesItself (heap w x)")
      (auto simp: deriveHttpHandlers_def setContainer_def publishedAs_def publishesItself_def Let_def upd_upd intro: exI)
  then obtain u where u: "deriveHttpHandlers x ?w1 = Done ?hs (upd x (\<lambda>d. d\<lparr>container := Some c, uri := u\<rparr>) w)"
    "publishesItself (heap w x) \<longrightarrow> u = componentURI ps (Name (heap w x))"
    by blast
  obtain k where k: "asContainer (heap w r) = Some k" using assms(5) by blast
  have same: "updPart r (\<lambda>k. k\<lparr>cHandlers := Some (addHandlers [] tbl)\<rparr>)
      (upd x (\<lambda>d. d\<lparr>container := Some c, uri := u\<rparr>) w) = upd x (\<lambda>d. d\<lparr>container := Some c, uri := u\<rparr>) w"
    using k assms(4,6) by (intro updPart_id [of _ _ k]) (simp_all add: addHandlers_def cpart_def)
  have n: "Name (heap ?w1 x) = Name (heap w x)" by (simp add: setContainer_def)
  have "toCanonical c x w = Done ?cc (updPart r (\<lambda>k. k\<lparr>cHandlers := Some (addHandlers ?hs tbl)\<rparr>)
         (upd x (\<lambda>d. d\<lparr>container := Some c, uri := u\<rparr>) w))"
  proof (cases "?hs = []")
    case True
    then show ?thesis using assms(1) u n same by (simp add: toCanonical_def Matches_def Let_def)
  next
    case False
    then show ?thesis using assms(1,3,4,6) u n by (simp add: toCanonical_def Matches_def Let_def)
  qed
  then show ?thesis using u(2) by blast
qed

text \<open>When \<^verbatim>\<open>Add\<close> is expected to succeed.\<close>

definition canAdd :: "env \<Rightarrow> cid \<Rightarrow> cid \<Rightarrow> cid \<Rightarrow> string list \<Rightarrow> world \<Rightarrow> bool" where
  "canAdd E r c x ps w \<longleftrightarrow>
     x \<noteq> c \<and> x \<noteq> r \<and> Stage (heap w x) = Submitted \<and>
     validateName w (Some x) = None \<and> Name (heap w x) \<noteq> Name (heap w c) \<and>
     asContainer (heap w c) \<noteq> None \<and> cComponents (cpart w c) \<noteq> None \<and>
     mapGet (cComponents (cpart w c)) (Name (heap w x)) = None \<and>
     (compActivationQueue (cpart w c) \<or> Stage (heap w c) < Stopping) \<and> persistOff w \<and> addons w = [] \<and>
     containerPaths (upd x (setContainer c) w) (Some c) [] = Some ps \<and>
     rootContainer w = Some r \<and> asContainer (heap w r) \<noteq> None \<and> cHandlers (cpart w r) \<noteq> None"

text \<open>What it leaves: the component started and filed, its handlers published, its goroutines there.\<close>

definition added :: "cid \<Rightarrow> cid \<Rightarrow> cid \<Rightarrow> string list \<Rightarrow> world \<Rightarrow> world \<Rightarrow> bool" where
  "added r c x ps w w1 \<longleftrightarrow>
     reaches Started ((heap w x)\<lparr>container := Some c\<rparr>) (heap w1 x) \<and>
     mmuxBuffer (heap w1 x) = None \<and>
     (publishesItself (heap w x) \<longrightarrow> uri (heap w1 x) = componentURI ps (Name (heap w x))) \<and>
     tasks w1 = tasks w @ [MmuxTask c x, PreStartTask x, StartTask c x] \<and>
     (\<forall>y. y \<noteq> x \<longrightarrow> heap w1 y = (heap w y)\<lparr>asContainer := asContainer (heap w1 y)\<rparr>) \<and>
     (\<forall>y. y \<noteq> x \<longrightarrow> y \<noteq> c \<longrightarrow> y \<noteq> r \<longrightarrow> heap w1 y = heap w y) \<and>
     components (cpart w1 c) = components (cpart w c) @ [Name (heap w x)] \<and>
     (\<forall>n. mapGet (cComponents (cpart w1 c)) n =
       (if n = Name (heap w x) then Some \<lparr>cName = n, ccomp = Some x\<rparr> else mapGet (cComponents (cpart w c)) n)) \<and>
     (\<forall>u. mapGet (cHandlers (cpart w1 r)) u =
       addHandlers (publishedAs ps x (heap w x)) (mapGet (cHandlers (cpart w r))) u) \<and>
     cHandlers (cpart w1 r) \<noteq> None \<and>
     asContainer (heap w1 c) \<noteq> None \<and> rootContainer w1 = rootContainer w \<and> addons w1 = [] \<and> persistOff w1"

lemma added_others:
  assumes "added r c x ps w w1" and "y \<noteq> x"
  shows "Name (heap w1 y) = Name (heap w y)" "Stage (heap w1 y) = Stage (heap w y)"
    "container (heap w1 y) = container (heap w y)" "mmux (heap w1 y) = mmux (heap w y)"
proof -
  have h: "heap w1 y = (heap w y)\<lparr>asContainer := asContainer (heap w1 y)\<rparr>"
    using assms unfolding added_def by blast
  show "Name (heap w1 y) = Name (heap w y)" by (subst h) simp
  show "Stage (heap w1 y) = Stage (heap w y)" by (subst h) simp
  show "container (heap w1 y) = container (heap w y)" by (subst h) simp
  show "mmux (heap w1 y) = mmux (heap w y)" by (subst h) simp
qed

lemma mapGet_Some [simp]: "mapGet (Some m) = m"
  by (simp add: mapGet_def fun_eq_iff)

lemma enterComponent_free:
  "cComponents k = Some m \<Longrightarrow> m n = None \<Longrightarrow>
   enterComponent n cc k = (k\<lparr>cComponents := Some (m(n \<mapsto> cc)), components := components k @ [n]\<rparr>, None)"
  by (simp add: enterComponent_def)

text \<open>What a step leaves alone apart from the components, the goroutines and the handlers.\<close>

definition sameProcess :: "world \<Rightarrow> world \<Rightarrow> bool" where
  "sameProcess w w1 \<longleftrightarrow>
     disk w1 = disk w \<and> nonces w1 = nonces w \<and> topLevelComponents w1 = topLevelComponents w \<and>
     tornDown w1 = tornDown w \<and> runOncePersistence w1 = runOncePersistence w \<and> runOnceHttp w1 = runOnceHttp w"

lemma activate_after_init:
  assumes "canAdd E r c x ps w"
    and f1: "componentLifecycleFSM E halt c background x v = Done None (addTask (MmuxTask c x) (upd x (\<lambda>_. d1) w))"
    and d1: "reaches Initialized (heap w x) d1" "mmuxBuffer d1 = None"
  shows "\<exists>w1. activateComponent E halt c x v = Done None (if r = c then registerAddon c x w1 else w1) \<and>
    added r c x ps w w1 \<and> sameProcess w w1 \<and> (quiet d1 \<longrightarrow> userFields (heap w1 x) = userFields d1)"
proof -
  let ?n = "Name (heap w x)"
  have a: "x \<noteq> c" "x \<noteq> r" "Stage (heap w x) = Submitted" "asContainer (heap w c) \<noteq> None"
    "mapGet (cComponents (cpart w c)) ?n = None" "persistOff w" "addons w = []"
    "containerPaths (upd x (setContainer c) w) (Some c) [] = Some ps"
    "rootContainer w = Some r" "asContainer (heap w r) \<noteq> None"
    using assms(1) by (simp_all add: canAdd_def)
  obtain m where m: "cComponents (cpart w c) = Some m" using assms(1) by (auto simp: canAdd_def)
  obtain tbl where tbl: "cHandlers (cpart w r) = Some tbl" using assms(1) by (auto simp: canAdd_def)
  let ?w1 = "addTask (MmuxTask c x) (upd x (\<lambda>_. d1) w)"
  have part1: "cpart ?w1 = cpart w" using d1(1) by (simp add: cpart_upd_same reaches_def)
  have hs: "publishedAs ps x (heap ?w1 x) = publishedAs ps x (heap w x)"
    using d1(1) by (simp add: publishedAs_def reaches_def)
  have "containerPaths (upd x (setContainer c) ?w1) (Some c) [] = Some ps"
    by (rule containerPaths_transfer [OF a(8)]) (use d1(1) in \<open>simp add: reaches_def setContainer_def\<close>)
  then obtain u where t: "toCanonical c x ?w1 = Done \<lparr>cName = ?n, ccomp = Some x\<rparr>
      (updPart r (\<lambda>k. k\<lparr>cHandlers := Some (addHandlers (publishedAs ps x (heap w x)) tbl)\<rparr>)
         (upd x (\<lambda>d. d\<lparr>container := Some c, uri := u\<rparr>) ?w1))"
    and u: "publishesItself (heap w x) \<longrightarrow> u = componentURI ps ?n"
    using toCanonical_child [of x c ?w1 ps r tbl] a tbl d1(1) part1 hs by (auto simp: reaches_def publishesItself_def)
  let ?H = "\<lambda>k. k\<lparr>cHandlers := Some (addHandlers (publishedAs ps x (heap w x)) tbl)\<rparr>"
  define w2 where "w2 = updPart r ?H (upd x (\<lambda>d. d\<lparr>container := Some c, uri := u\<rparr>) ?w1)"
  have part2: "cpart w2 y = (if y = r then ?H (cpart w r) else cpart w y)" for y
    using a(2,10) part1 unfolding w2_def by (subst cpart_updPart) (auto simp: cpart_upd_same)
  have h2: "heap w2 x = d1\<lparr>container := Some c, uri := u\<rparr>" using a(2) by (simp add: w2_def)
  have c2: "asContainer (heap w2 c) \<noteq> None" using a(1,4,10) by (auto simp: w2_def)
  let ?k = "(cpart w2 c)\<lparr>cComponents := Some (m(?n \<mapsto> \<lparr>cName = ?n, ccomp = Some x\<rparr>)),
      components := components (cpart w c) @ [?n]\<rparr>"
  have e: "enterComponent (Name (heap w2 x)) \<lparr>cName = ?n, ccomp = Some x\<rparr> (cpart w2 c) = (?k, None)"
  proof -
    have "cComponents (cpart w2 c) = Some m" "components (cpart w2 c) = components (cpart w c)"
      using m by (auto simp: part2)
    moreover have "Name (heap w2 x) = ?n" using d1(1) unfolding h2 by (simp add: reaches_def)
    ultimately show ?thesis using a(5) m by (simp only: enterComponent_free mapGet_Some)
  qed
  have cc2: "cComponents (cpart w2 c) \<noteq> None" using m by (auto simp: part2)
  let ?w3 = "updPart c (\<lambda>_. ?k) w2"
  have h3: "heap ?w3 x = d1\<lparr>container := Some c, uri := u\<rparr>" using a(1) h2 by simp
  have po2: "persistOff w2" using a(6) d1(1) by (simp add: w2_def persistOff_upd_at reaches_def)
  have "persistOff ?w3"
    using po2 c2 a(9) by (auto simp: persistOff_def cpart_updPart_cases w2_def)
  moreover have "Stage (heap ?w3 x) = Initialized" "mmux (heap ?w3 x)" using d1(1) unfolding h3 by (simp_all add: reaches_def)
  ultimately obtain d2 where f2: "componentLifecycleFSM E halt c background x ?w3 =
      Done None (addTask (StartTask c x) (addTask (PreStartTask x) (upd x (\<lambda>_. d2) ?w3)))"
    and d2: "reaches Started (d1\<lparr>container := Some c, uri := u\<rparr>) d2" "mmuxBuffer d2 = mmuxBuffer d1" "uri d2 = u"
    and fields: "quiet d1 \<longrightarrow> userFields d2 = userFields d1"
    using start_component [of ?w3 x E halt c background] unfolding h3 by auto
  let ?w4 = "addTask (StartTask c x) (addTask (PreStartTask x) (upd x (\<lambda>_. d2) ?w3))"
  have "rootContainer ?w4 = Some r" using a(9) by (simp add: w2_def)
  then have "activateComponent E halt c x v = Done None (if r = c then registerAddon c x ?w4 else ?w4)"
    using f1 t [folded w2_def] e f2 cc2 by (simp add: activateComponent_def)
  moreover have "quiet d1 \<longrightarrow> userFields (heap ?w4 x) = userFields d1" using fields by simp
  moreover have "sameProcess w ?w4" by (simp add: sameProcess_def w2_def)
  moreover have "added r c x ps w ?w4"
  proof -
    define w4 where "w4 = ?w4"
    have part4: "cpart w4 y = (if y = c then ?k else if y = r then ?H (cpart w r) else cpart w y)" for y
    proof -
      have "cpart w4 y = cpart ?w3 y" using d2(1) h3 by (simp add: w4_def cpart_upd_same reaches_def)
      then show ?thesis using cpart_updPart [OF c2, of "\<lambda>_. ?k" y] part2 by simp
    qed
    have sel: "rootContainer w4 = Some r" "addons w4 = []" "heap w4 x = d2"
      "tasks w4 = tasks w @ [MmuxTask c x, PreStartTask x, StartTask c x]"
      using a by (simp_all add: w4_def w2_def)
    have other: "heap w4 y = (heap w y)\<lparr>asContainer := asContainer (heap w4 y)\<rparr>" if "y \<noteq> x" for y
      using that by (cases "y = c"; cases "y = r") (simp_all add: w4_def w2_def)
    have frame: "heap w4 y = heap w y" if "y \<noteq> x" "y \<noteq> c" "y \<noteq> r" for y using that by (simp add: w4_def w2_def)
    have pk: "persistence ?k = persistence (cpart w c)" by (simp add: part2)
    have p4: "cpart w4 c = ?k" "r \<noteq> c \<Longrightarrow> cpart w4 r = ?H (cpart w r)" by (simp_all add: part4)
    have "persistence (cpart w4 r) = persistence (cpart w r)"
      using p4(2) pk unfolding p4(1) [symmetric] by (cases "r = c") simp_all
    then have "persistOff w4" using a(6,9) by (simp add: persistOff_def sel)
    moreover have "asContainer (heap w4 c) \<noteq> None" using c2 a(1) by (simp add: w4_def)
    moreover have "reaches Started ((heap w x)\<lparr>container := Some c\<rparr>) (heap w4 x)"
      using d1(1) d2(1) by (simp add: reaches_def sel)
    moreover have "components (cpart w4 c) = components (cpart w c) @ [?n]" by (simp add: part4)
    moreover have "mapGet (cComponents (cpart w4 c)) n =
        (if n = ?n then Some \<lparr>cName = n, ccomp = Some x\<rparr> else mapGet (cComponents (cpart w c)) n)" for n
      using m by (simp add: part4)
    moreover have "mapGet (cHandlers (cpart w4 r)) u = addHandlers (publishedAs ps x (heap w x)) (mapGet (cHandlers (cpart w r))) u" for u
      using tbl by (simp add: part4 part2)
    moreover have "cHandlers (cpart w4 r) \<noteq> None" using tbl by (simp add: part4 part2)
    moreover have "publishesItself (heap w x) \<longrightarrow> uri (heap w4 x) = componentURI ps ?n"
      using d2(3) u by (simp add: sel)
    moreover have "mmuxBuffer (heap w4 x) = None" "rootContainer w4 = rootContainer w"
      using a(9) d1(2) d2(2) by (simp_all add: sel)
    ultimately have "added r c x ps w w4"
      using sel(2,4) other frame unfolding added_def by (intro conjI allI) blast+
    then show ?thesis unfolding w4_def .
  qed
  ultimately show ?thesis by blast
qed

lemma registerAddon_other: "gotype (heap w x) \<noteq> PersistenceT \<Longrightarrow> registerAddon c x w = w"
  by (simp add: registerAddon_def)

lemma activateComponent_child:
  assumes "canAdd E r c x ps w" and "initsCleanly E (heap w x)"
  shows "\<exists>w1. activateComponent E halt c x w = Done None w1 \<and> added r c x ps w w1"
proof -
  have "Stage (heap w x) = Submitted" "persistOff w" using assms(1) by (simp_all add: canAdd_def)
  then obtain d1 where "componentLifecycleFSM E halt c background x w = Done None (addTask (MmuxTask c x) (upd x (\<lambda>_. d1) w))"
    "reaches Initialized (heap w x) d1" "mmuxBuffer d1 = None"
    using initialize_component [OF _ _ assms(2)] by blast
  from activate_after_init [OF assms(1) this] obtain w1
    where w1: "activateComponent E halt c x w = Done None (if r = c then registerAddon c x w1 else w1)" "added r c x ps w w1"
    by blast
  have "gotype (heap w1 x) = gotype (heap w x)" using w1(2) by (simp add: added_def reaches_def)
  then have "gotype (heap w1 x) \<noteq> PersistenceT" using assms(2) by (auto simp: initsCleanly_def)
  then show ?thesis using w1 by (auto simp: registerAddon_other)
qed

section \<open>The whole of Add\<close>

text \<open>Making the activation queue changes nothing else.\<close>

definition withQueue :: "cid \<Rightarrow> world \<Rightarrow> world" where
  "withQueue c w =
     (if \<not> compActivationQueue (cpart w c) \<and> Stage (heap w c) < Stopping
      then updPart c (\<lambda>k. k\<lparr>compActivationQueue := True\<rparr>) w else w)"

lemma heap_withQueue:
  "y \<noteq> c \<Longrightarrow> heap (withQueue c w) y = heap w y"
  "heap (withQueue c w) c = (heap w c)\<lparr>asContainer := asContainer (heap (withQueue c w) c)\<rparr>"
  by (simp_all add: withQueue_def)

lemma withQueue_sel [simp]:
  "rootContainer (withQueue c w) = rootContainer w" "addons (withQueue c w) = addons w"
  "tasks (withQueue c w) = tasks w" "persistOff (withQueue c w) = persistOff w"
  "tornDown (withQueue c w) = tornDown w"
  "Name (heap (withQueue c w) y) = Name (heap w y)" "Stage (heap (withQueue c w) y) = Stage (heap w y)"
  "container (heap (withQueue c w) y) = container (heap w y)"
  "asContainer (heap (withQueue c w) y) = None \<longleftrightarrow> asContainer (heap w y) = None"
  "components (cpart (withQueue c w) y) = components (cpart w y)"
  "cComponents (cpart (withQueue c w) y) = cComponents (cpart w y)"
  "cHandlers (cpart (withQueue c w) y) = cHandlers (cpart w y)"
  by (auto simp: withQueue_def cpart_updPart_cases)

lemma canAdd_withQueue:
  assumes "canAdd E r c x ps w"
  shows "canAdd E r c x ps (withQueue c w)" and "compActivationQueue (cpart (withQueue c w) c)"
proof -
  have q: "compActivationQueue (cpart (withQueue c w) c)"
    using assms by (auto simp: withQueue_def canAdd_def cpart_updPart_cases)
  then show "compActivationQueue (cpart (withQueue c w) c)" .
  have x: "heap (withQueue c w) x = heap w x" using assms by (intro heap_withQueue(1)) (simp add: canAdd_def)
  have "containerPaths (upd x (setContainer c) w) (Some c) [] = Some ps" using assms by (simp add: canAdd_def)
  then have "containerPaths (upd x (setContainer c) (withQueue c w)) (Some c) [] = Some ps"
    by (rule containerPaths_transfer) (simp add: setContainer_def)
  moreover have "validateName (withQueue c w) (Some x) = validateName w (Some x)"
    by (simp add: validateName_def)
  ultimately show "canAdd E r c x ps (withQueue c w)"
    using assms q unfolding canAdd_def x by simp
qed

lemma added_withQueue:
  assumes "added r c x ps (withQueue c w) w1" and "x \<noteq> c"
  shows "added r c x ps w w1"
proof -
  have x: "heap (withQueue c w) x = heap w x" using assms(2) by (rule heap_withQueue(1))
  have "heap w1 y = (heap w y)\<lparr>asContainer := asContainer (heap w1 y)\<rparr>" if "y \<noteq> x" for y
  proof -
    have "heap w1 y = (heap (withQueue c w) y)\<lparr>asContainer := asContainer (heap w1 y)\<rparr>"
      using assms(1) that unfolding added_def by blast
    also have "\<dots> = (heap w y)\<lparr>asContainer := asContainer (heap w1 y)\<rparr>"
    proof (cases "y = c")
      case True
      have "(heap (withQueue c w) c)\<lparr>asContainer := a\<rparr> = (heap w c)\<lparr>asContainer := a\<rparr>" for a
        by (subst heap_withQueue(2)) simp
      then show ?thesis using True by simp
    qed (simp add: heap_withQueue(1))
    finally show ?thesis .
  qed
  then show ?thesis using assms(1) heap_withQueue(1) unfolding added_def x by simp
qed

lemma Add_passes:
  assumes "canAdd E r c x ps w"
  shows "addComponent E halt c (Some x) w = activateComponent E halt c x (withQueue c w)"
  using assms canAdd_withQueue(2) [OF assms]
  by (auto simp: addComponent_def Let_def canAdd_def Matches_def withQueue_def)

lemma Add_child:
  assumes "canAdd E r c x ps w" and "initsCleanly E (heap w x)"
  shows "\<exists>w1. Add E halt c (Some x) w = Done None w1 \<and> added r c x ps w w1"
proof -
  have x: "heap (withQueue c w) x = heap w x" "x \<noteq> c"
    using assms(1) heap_withQueue(1) by (simp_all add: canAdd_def)
  obtain w1 where w1: "activateComponent E halt c x (withQueue c w) = Done None w1" "added r c x ps (withQueue c w) w1"
    using activateComponent_child [OF canAdd_withQueue(1) [OF assms(1)]] assms(2) unfolding x(1) by blast
  then have "Add E halt c (Some x) w = Done None w1"
    using Add_passes [OF assms(1)] by (simp add: Add_def added_def split: option.split)
  then show ?thesis using added_withQueue [OF w1(2) x(2)] by blast
qed

lemma Add_initFails:
  assumes "canAdd E r c x ps w" and "initFails E (heap w x) err"
  shows "\<exists>d1. Add E halt c (Some x) w = Done (Some err) (addTask (MmuxTask c x) (upd x (\<lambda>_. d1) (withQueue c w))) \<and>
    reaches Tearingdown (heap w x) d1"
proof -
  have x: "heap (withQueue c w) x = heap w x"
    using assms(1) heap_withQueue(1) by (simp add: canAdd_def)
  have s: "Stage (heap (withQueue c w) x) = Submitted" "persistOff (withQueue c w)"
    using assms(1) by (simp_all add: canAdd_def)
  obtain d1 where "componentLifecycleFSM E halt c background x (withQueue c w) =
      Done (Some err) (addTask (MmuxTask c x) (upd x (\<lambda>_. d1) (withQueue c w)))" "reaches Tearingdown (heap w x) d1"
    using initialize_fails [OF s] assms(2) unfolding x by blast
  then show ?thesis
    using Add_passes [OF assms(1)] by (auto simp: Add_def activateComponent_def)
qed

text \<open>
  \<^verbatim>\<open>Add\<close> of a component that a failed initialization left in \<^verbatim>\<open>Tearingdown\<close>: the state machine tears it
  down, and what is torn down is entered into the tables.
\<close>

lemma cpart_removeComponent:
  "asContainer (heap w c) \<noteq> None \<Longrightarrow>
   cpart (removeComponent c n w) y = (if y = c then removeName n (cpart w c) else cpart w y)"
  by (simp add: removeComponent_def)

lemma cComponents_removeName: "cComponents (removeName n k) = map_option (\<lambda>m. m(n := None)) (cComponents k)"
  by (simp add: removeName_def Let_def split: option.split)

lemma fsm_tearingdown:
  assumes "Stage (heap v x) = Tearingdown" and "x \<noteq> c" and "persistOff v"
  shows "\<exists>d. componentLifecycleFSM E halt c ctx x v =
      Done None (removeComponent c (Name (heap v x)) ((upd x (\<lambda>_. d) v)\<lparr>tornDown := tornDown v @ [x]\<rparr>)) \<and>
    gone (heap v x) d \<and> gotype d = gotype (heap v x) \<and> persistOff (upd x (\<lambda>_. d) v)"
proof -
  let ?d = "setStage E Teareddown (tearDown (heap v x))"
  have c: "core (tearDown (heap v x)) = core ((heap v x)\<lparr>mmux := False\<rparr>)" by simp
  have g: "gone (heap v x) ?d \<and> gotype ?d = gotype (heap v x)"
    using core_eqD [OF c] by (simp add: gone_def stateOf_def running_def stage_order)
  then have po: "persistOff (upd x (\<lambda>_. ?d) v)" using assms(3) by (simp add: persistOff_upd_at gone_def)
  have "tearDownComponent E c x v =
      Done None (removeComponent c (Name (heap v x)) ((upd x (\<lambda>_. ?d) v)\<lparr>tornDown := tornDown v @ [x]\<rparr>))"
    using g by (simp add: tearDownComponent_def Let_def upd_tornDown upd_upd gone_def) (simp add: upd_def)
  then show ?thesis
    using assms(1) g po
    by (intro exI [of _ ?d]) (simp add: componentLifecycleFSM_def stageSwitch_def removeComponent_def)
qed

lemma fsm_teareddown:
  "Stage (heap w x) = Teareddown \<Longrightarrow> persistOff w \<Longrightarrow> componentLifecycleFSM E halt c ctx x w = Done None w"
  by (simp add: componentLifecycleFSM_def stageSwitch_def)

lemma activate_tearingdown:
  assumes "Stage (heap v x) = Tearingdown" and "x \<noteq> c" and "x \<noteq> r" and "persistOff v"
    and "gotype (heap v x) \<noteq> PersistenceT"
    and "asContainer (heap v c) \<noteq> None" and "cComponents (cpart v c) \<noteq> None" and "rootContainer v = Some r"
    and "asContainer (heap v r) \<noteq> None" and "cHandlers (cpart v r) \<noteq> None"
    and "containerPaths (upd x (setContainer c) v) (Some c) [] = Some ps"
  shows "\<exists>w. activateComponent E halt c x v = Done None w \<and> Stage (heap w x) = Teareddown \<and> \<not> mmux (heap w x) \<and>
    Name (heap w x) = Name (heap v x) \<and> tornDown w = tornDown v @ [x] \<and> addons w = addons v \<and>
    components (cpart w c) = components (removeName (Name (heap v x)) (cpart v c)) @ [Name (heap v x)] \<and>
    mapGet (cComponents (cpart w c)) (Name (heap v x)) = Some \<lparr>cName = Name (heap v x), ccomp = Some x\<rparr>"
proof -
  let ?n = "Name (heap v x)"
  obtain d where f1: "componentLifecycleFSM E halt c background x v =
      Done None (removeComponent c ?n ((upd x (\<lambda>_. d) v)\<lparr>tornDown := tornDown v @ [x]\<rparr>))"
    and d: "gone (heap v x) d" "gotype d = gotype (heap v x)" and po: "persistOff (upd x (\<lambda>_. d) v)"
    using fsm_tearingdown [OF assms(1,2,4)] by blast
  define w1 where "w1 = removeComponent c ?n ((upd x (\<lambda>_. d) v)\<lparr>tornDown := tornDown v @ [x]\<rparr>)"
  have as1: "asContainer (heap ((upd x (\<lambda>_. d) v)\<lparr>tornDown := ts\<rparr>) c) \<noteq> None" for ts using assms(2,6) by simp
  have "cpart ((upd x (\<lambda>_. d) v)\<lparr>tornDown := ts\<rparr>) = cpart v" for ts
    using d(1) by (simp add: cpart_def fun_eq_iff gone_def)
  then have part1: "cpart w1 y = (if y = c then removeName ?n (cpart v c) else cpart v y)" for y
    unfolding w1_def cpart_removeComponent [OF as1] by simp
  have h1: "heap w1 x = d" "Name d = ?n" "Stage d = Teareddown" "\<not> mmux d"
    using d(1) assms(2) by (simp_all add: w1_def removeComponent_def gone_def)
  have same1: "Name (heap (upd x (setContainer c) w1) y) = Name (heap (upd x (setContainer c) v) y) \<and>
      container (heap (upd x (setContainer c) w1) y) = container (heap (upd x (setContainer c) v) y)" for y
    using h1(2) assms(2) by (simp add: w1_def removeComponent_def setContainer_def)
  have hr: "cHandlers (removeName ?n k) = cHandlers k" for k
    by (simp add: removeName_def Let_def split: option.split)
  have "cHandlers (cpart w1 r) = cHandlers (cpart v r)" by (simp add: part1 hr)
  then obtain tbl where tbl: "cHandlers (cpart w1 r) = Some tbl" using assms(10) by auto
  have r1: "rootContainer w1 = Some r" "asContainer (heap w1 r) \<noteq> None" "asContainer (heap w1 c) \<noteq> None"
    using assms(2,3,6,8,9) by (auto simp: w1_def removeComponent_def)
  obtain u where t: "toCanonical c x w1 = Done \<lparr>cName = Name (heap w1 x), ccomp = Some x\<rparr>
      (updPart r (\<lambda>k. k\<lparr>cHandlers := Some (addHandlers (publishedAs ps x (heap w1 x)) tbl)\<rparr>)
         (upd x (\<lambda>d. d\<lparr>container := Some c, uri := u\<rparr>) w1))"
    using toCanonical_child [OF assms(2) containerPaths_transfer [OF assms(11) same1] r1(1) assms(3) r1(2) tbl] by blast
  let ?H = "\<lambda>k. k\<lparr>cHandlers := Some (addHandlers (publishedAs ps x (heap w1 x)) tbl)\<rparr>"
  define w2 where "w2 = updPart r ?H (upd x (\<lambda>d. d\<lparr>container := Some c, uri := u\<rparr>) w1)"
  have part2: "cpart w2 y = (if y = r then ?H (cpart w1 r) else cpart w1 y)" for y
    using assms(3) r1(2) unfolding w2_def by (subst cpart_updPart) (auto simp: cpart_upd_same)
  have h2: "heap w2 x = d\<lparr>container := Some c, uri := u\<rparr>" using assms(3) h1(1) by (simp add: w2_def)
  have c2: "components (cpart w2 c) = components (removeName ?n (cpart v c))"
    "cComponents (cpart w2 c) = cComponents (removeName ?n (cpart v c))"
    by (simp_all add: part2) (simp_all add: part1)
  have c3: "asContainer (heap w2 c) \<noteq> None" using r1(3) assms(2) by (auto simp: w2_def)
  obtain m where m: "cComponents (cpart w2 c) = Some m" "m ?n = None"
    using assms(7) by (auto simp: c2(2) cComponents_removeName)
  let ?cc = "\<lparr>cName = ?n, ccomp = Some x\<rparr>"
  let ?k = "(cpart w2 c)\<lparr>cComponents := Some (m(?n \<mapsto> ?cc)), components := components (cpart w2 c) @ [?n]\<rparr>"
  have e: "enterComponent (Name (heap w2 x)) ?cc (cpart w2 c) = (?k, None)"
    using m h1(2) unfolding h2 by (simp add: enterComponent_free)
  let ?w3 = "updPart c (\<lambda>_. ?k) w2"
  have "persistOff w1" using po by (simp add: w1_def removeComponent_def)
  then have "persistOff w2" using assms(3) by (simp add: w2_def persistOff_upd_at)
  then have po3: "persistOff ?w3" using c3 by (auto simp: persistOff_def cpart_updPart_cases split: option.splits)
  have st3: "heap ?w3 x = d\<lparr>container := Some c, uri := u\<rparr>" using assms(2) h2 by simp
  have f2: "componentLifecycleFSM E halt c background x ?w3 = Done None ?w3"
    by (rule fsm_teareddown) (use st3 h1(3) po3 in simp_all)
  have "registerAddon c x ?w3 = ?w3" using st3 d(2) assms(5) by (intro registerAddon_other) simp
  then have "activateComponent E halt c x v = Done None ?w3"
    using f1 [folded w1_def] t [folded w2_def] e f2 m(1) h1(1,2) by (simp add: activateComponent_def)
  moreover have "cpart ?w3 c = ?k" using c3 by simp
  moreover have "tornDown ?w3 = tornDown v @ [x]" "addons ?w3 = addons v"
    by (simp_all add: w2_def w1_def removeComponent_def)
  ultimately show ?thesis using st3 h1 c2(1) by (intro exI [of _ ?w3]) simp
qed

section \<open>Properties\<close>

text \<open>
  C5: \<^verbatim>\<open>Add\<close> of a new component under a free, valid name, whose \<^verbatim>\<open>Init\<close> and \<^verbatim>\<open>PostInit\<close> succeed, runs
  it through the state machine: it is \<^verbatim>\<open>Started\<close> and \<^verbatim>\<open>Active\<close>, belongs to the container, is found by
  its name and listed last, every URI derived from its methods leads to it, and its multiplexer and its
  \<^verbatim>\<open>PreStart\<close> and \<^verbatim>\<open>Start\<close> goroutines are there. Other lookups stay as they were.
\<close>

theorem Add_starts_component:
  assumes "canAdd E r c x ps w" and "initsCleanly E (heap w x)"
  shows "\<exists>w1. Add E (containerStop E n) c (Some x) w = Done None w1 \<and>
    Stage (heap w1 x) = Started \<and> State (heap w1 x) = Active \<and> container (heap w1 x) = Some c \<and>
    mmux (heap w1 x) \<and> tasks w1 = tasks w @ [MmuxTask c x, PreStartTask x, StartTask c x] \<and>
    GetComponent w1 c (Name (heap w x)) = Inr x \<and>
    components (cpart w1 c) = components (cpart w c) @ [Name (heap w x)] \<and>
    (\<forall>other. other \<noteq> Name (heap w x) \<longrightarrow> GetComponent w1 c other = GetComponent w c other) \<and>
    (\<forall>u. mapGet (cHandlers (cpart w1 r)) u =
       (if isNonRestEntity (heap w x) then mapGet (cHandlers (cpart w r)) u
        else addHandlers (handlersOf x (componentURI ps (Name (heap w x))) (httpMethods (heap w x)))
               (mapGet (cHandlers (cpart w r))) u))"
proof -
  obtain w1 where w1: "Add E (containerStop E n) c (Some x) w = Done None w1" "added r c x ps w w1"
    using Add_child [OF assms] by blast
  have "x \<noteq> c" using assms(1) by (simp add: canAdd_def)
  then have "Name (heap w1 c) = Name (heap w c)"
    using added_others(1) [OF w1(2)] by simp
  moreover have "mapGet (cComponents (cpart w1 c)) n =
       (if n = Name (heap w x) then Some \<lparr>cName = n, ccomp = Some x\<rparr> else mapGet (cComponents (cpart w c)) n)" for n
    using w1(2) unfolding added_def by blast
  ultimately have "GetComponent w1 c other = (if other = Name (heap w x) then Inr x else GetComponent w c other)" for other
    by (simp add: GetComponent_def split: option.split)
  moreover have "stateOf Started = Active" by (simp add: stateOf_def running_def stage_order)
  ultimately show ?thesis
    using w1 by (intro exI [of _ w1]) (simp add: added_def reaches_def publishedAs_def addHandlers_def)
qed

text \<open>A root container that runs, and a component of an application that nobody has added yet.\<close>

definition busyRoot :: component where
  "busyRoot = (newComponent 0 ContainerT ''root'' [''ServeHTTP''] [])
     \<lparr>Stage := Started, State := Active, mmux := True,
      asContainer := Some (emptyPart\<lparr>compActivationQueue := True, cComponents := Some Map.empty,
        cHandlers := Some Map.empty\<rparr>)\<rparr>"

definition freshJob :: "cid \<Rightarrow> component" where
  "freshJob x = newComponent x (UserT ''Job'') ''job'' [''ServeHTTP'', ''Reload''] []"

definition sampleTree :: world where
  "sampleTree = (worldOf (\<lambda>x. if x = 0 then busyRoot else freshJob x))
     \<lparr>rootContainer := Some 0, tasks := [MmuxTask 0 0]\<rparr>"

lemma sampleTree_sel [simp]:
  "heap sampleTree x = (if x = 0 then busyRoot else freshJob x)" "rootContainer sampleTree = Some 0"
  "tasks sampleTree = [MmuxTask 0 0]" "addons sampleTree = []" "tornDown sampleTree = []"
  by (simp_all add: sampleTree_def worldOf_def)

lemma busyRoot_sel [simp]:
  "Name busyRoot = ''root''" "Stage busyRoot = Started" "container busyRoot = None"
  "asContainer busyRoot = Some (emptyPart\<lparr>compActivationQueue := True, cComponents := Some Map.empty,
     cHandlers := Some Map.empty\<rparr>)"
  "State busyRoot = Active" "mmux busyRoot" "gotype busyRoot = ContainerT"
  by (simp_all add: busyRoot_def newComponent_def)

lemma freshJob_sel [simp]:
  "Name (freshJob x) = ''job''" "Stage (freshJob x) = Submitted" "gotype (freshJob x) = UserT ''Job''"
  "isNonRestEntity (freshJob x) = False" "httpMethods (freshJob x) = [''ServeHTTP'', ''Reload'']"
  "State (freshJob x) = Inactive" "asContainer (freshJob x) = None"
  by (simp_all add: freshJob_def newComponent_def)

lemma canAdd_sample: "canAdd E 0 0 5 [''root''] sampleTree"
proof -
  have p: "containerPaths (upd 5 (setContainer 0) sampleTree) (Some 0) [] = Some [''root'']"
    by (subst containerPaths.simps, subst containerPaths.simps) (simp, code_simp)
  have v: "validateName sampleTree (Some 5) = None"
    by (simp add: validateName_def) code_simp
  show ?thesis using p v
    by (simp add: canAdd_def cpart_def emptyPart_def persistOff_def)
qed

theorem Add_starts_component_witness:
  "\<exists>w1. Add plainEnv (containerStop plainEnv 3) 0 (Some 5) sampleTree = Done None w1 \<and>
    Stage (heap w1 5) = Started \<and> GetComponent w1 0 ''job'' = Inr 5 \<and>
    mapGet (cHandlers (cpart w1 0)) ''/root/job/reload'' = Some (5, ''Reload'')"
proof -
  have "initsCleanly plainEnv (heap sampleTree 5)" by (simp add: initsCleanly_def)
  from Add_starts_component [OF canAdd_sample this, of 3]
  obtain w1 where w1: "Add plainEnv (containerStop plainEnv 3) 0 (Some 5) sampleTree = Done None w1"
    "Stage (heap w1 5) = Started" "GetComponent w1 0 ''job'' = Inr 5"
    "mapGet (cHandlers (cpart w1 0)) ''/root/job/reload'' =
      addHandlers (handlersOf 5 (componentURI [''root''] ''job'') [''ServeHTTP'', ''Reload''])
        (mapGet (cHandlers (cpart sampleTree 0))) ''/root/job/reload''"
    by auto
  have "map_of (rev (handlersOf 5 (componentURI [''root''] ''job'') [''ServeHTTP'', ''Reload''])) ''/root/job/reload'' =
      Some (5, ''Reload'')"
    by code_simp
  then show ?thesis using w1 by (simp add: addHandlers_map_of map_add_Some_iff)
qed

text \<open>
  C32: when \<^verbatim>\<open>Init\<close> or \<^verbatim>\<open>PostInit\<close> fails, \<^verbatim>\<open>Add\<close> reports that error and leaves the component in
  \<^verbatim>\<open>Tearingdown\<close>: not entered, not torn down, its multiplexer open with its goroutine, and refusing every
  message. Adding it again does not initialize it again: the state machine takes the \<^verbatim>\<open>Tearingdown\<close>
  case, tears it down, and \<^verbatim>\<open>Add\<close> reports success and files what it has torn down. That component is
  found and listed last, refuses every message, and \<^verbatim>\<open>Stop\<close> of its container never returns.
\<close>

theorem failed_Init_strands_component:
  assumes "canAdd E r c x ps w" and "initFails E (heap w x) err"
  shows "\<exists>w1 w2. Add E (containerStop E n) c (Some x) w = Done (Some err) w1 \<and>
    Stage (heap w1 x) = Tearingdown \<and> State (heap w1 x) = Inactive \<and> mmux (heap w1 x) \<and>
    tasks w1 = tasks w @ [MmuxTask c x] \<and> tornDown w1 = tornDown w \<and>
    components (cpart w1 c) = components (cpart w c) \<and>
    GetComponent w1 c (Name (heap w x)) = Inl (ComponentNotFound (Name (heap w x)) (Name (heap w c))) \<and>
    (\<forall>mtype lookup. SendSyncMessage E (containerStop E n) x mtype lookup w1 =
      Done (Some (CannotProcess (Name (heap w x)) Tearingdown)) w1) \<and>
    Add E (containerStop E n) c (Some x) w1 = Done None w2 \<and>
    Stage (heap w2 x) = Teareddown \<and> \<not> mmux (heap w2 x) \<and> tornDown w2 = tornDown w @ [x] \<and>
    GetComponent w2 c (Name (heap w x)) = Inr x \<and>
    components (cpart w2 c) \<noteq> [] \<and> last (components (cpart w2 c)) = Name (heap w x) \<and>
    (\<forall>mtype lookup. SendSyncMessage E (containerStop E n) x mtype lookup w2 =
      Done (Some (CannotProcess (Name (heap w x)) Teareddown)) w2) \<and>
    (\<forall>k. containerStop E k c w2 = Stuck)"
proof -
  let ?n = "Name (heap w x)"
  obtain d1 where d1: "Add E (containerStop E n) c (Some x) w =
      Done (Some err) (addTask (MmuxTask c x) (upd x (\<lambda>_. d1) (withQueue c w)))" "reaches Tearingdown (heap w x) d1"
    using Add_initFails [OF assms] by blast
  let ?w1 = "addTask (MmuxTask c x) (upd x (\<lambda>_. d1) (withQueue c w))"
  have ok: "canAdd E r c x ps (withQueue c w)" "compActivationQueue (cpart (withQueue c w) c)"
    using canAdd_withQueue [OF assms(1)] by simp_all
  have xc: "x \<noteq> c" "mapGet (cComponents (cpart w c)) ?n = None" "Name (heap w c) \<noteq> ?n" "addons w = []"
    "validateName w (Some x) = None"
    using assms(1) by (auto simp: canAdd_def)
  have d: "Name d1 = ?n" "Stage d1 = Tearingdown" "gotype d1 \<noteq> PersistenceT" "asContainer d1 = asContainer (heap (withQueue c w) x)"
    using d1(2) assms(2) xc(1) heap_withQueue(1) [of x c w] by (auto simp: reaches_def initFails_def)
  have part1: "cpart ?w1 y = cpart (withQueue c w) y" for y using d(4) by (simp add: cpart_upd_same)
  have gone1: "GetComponent ?w1 c ?n = Inl (ComponentNotFound ?n (Name (heap w c)))"
    using xc part1 by (simp add: GetComponent_def)
  have refused1: "SendSyncMessage E (containerStop E n) x mtype lookup ?w1 = Done (Some (CannotProcess ?n Tearingdown)) ?w1"
    for mtype lookup
    using d by (simp add: SendSyncMessage_def stage_order)
  have paths: "containerPaths (upd x (setContainer c) ?w1) (Some c) [] = Some ps"
  proof (rule containerPaths_transfer)
    show "containerPaths (upd x (setContainer c) w) (Some c) [] = Some ps" using assms(1) by (simp add: canAdd_def)
  qed (use d(1) d1(2) in \<open>simp add: setContainer_def reaches_def\<close>)
  have a: "x \<noteq> r" "persistOff (withQueue c w)" "asContainer (heap (withQueue c w) c) \<noteq> None"
    "cComponents (cpart (withQueue c w) c) \<noteq> None" "rootContainer (withQueue c w) = Some r"
    "asContainer (heap (withQueue c w) r) \<noteq> None" "cHandlers (cpart (withQueue c w) r) \<noteq> None"
    using ok(1) unfolding canAdd_def by blast+
  have "\<exists>v. activateComponent E (containerStop E n) c x ?w1 = Done None v \<and> Stage (heap v x) = Teareddown \<and> \<not> mmux (heap v x) \<and>
    Name (heap v x) = Name (heap ?w1 x) \<and> tornDown v = tornDown ?w1 @ [x] \<and> addons v = addons ?w1 \<and>
    components (cpart v c) = components (removeName (Name (heap ?w1 x)) (cpart ?w1 c)) @ [Name (heap ?w1 x)] \<and>
    mapGet (cComponents (cpart v c)) (Name (heap ?w1 x)) = Some \<lparr>cName = Name (heap ?w1 x), ccomp = Some x\<rparr>"
  proof (rule activate_tearingdown [OF _ xc(1) a(1) _ _ _ _ _ _ _ paths])
    show "cComponents (cpart ?w1 c) \<noteq> None" unfolding part1 by (rule a(4))
    show "cHandlers (cpart ?w1 r) \<noteq> None" unfolding part1 by (rule a(7))
  qed (use xc(1) a d in \<open>simp_all add: persistOff_upd_at\<close>)
  then obtain v where v: "activateComponent E (containerStop E n) c x ?w1 = Done None v" "Stage (heap v x) = Teareddown"
    "\<not> mmux (heap v x)" "Name (heap v x) = ?n" "tornDown v = tornDown w @ [x]" "addons v = []"
    "last (components (cpart v c)) = ?n" "components (cpart v c) \<noteq> []"
    "mapGet (cComponents (cpart v c)) ?n = Some \<lparr>cName = ?n, ccomp = Some x\<rparr>"
    using d(1) xc(4) by auto
  have "validateName ?w1 (Some x) = None" using xc(5) d(1) by (simp add: validateName_def split: if_splits)
  then have "addComponent E (containerStop E n) c (Some x) ?w1 = activateComponent E (containerStop E n) c x ?w1"
    using xc(1,3) d(1) ok(2) part1 by (simp add: addComponent_def Let_def Matches_def)
  then have again: "Add E (containerStop E n) c (Some x) ?w1 = Done None v"
    using v(1,6) by (simp add: Add_def split: option.split)
  have found: "GetComponent v c ?n = Inr x" using v(9) by (simp add: GetComponent_def)
  have refused2: "SendSyncMessage E (containerStop E n) x mtype lookup v = Done (Some (CannotProcess ?n Teareddown)) v"
    for mtype lookup
    using v(2,4) by (simp add: SendSyncMessage_def stage_order)
  have stuck: "containerStop E k c v = Stuck" for k
    using v(2,7-9) xc(1) by (intro containerStop_hangs [where y = x]) (simp_all add: childOf_def stage_order)
  show ?thesis
    using d1 part1 gone1 refused1 again v found refused2 stuck
    by (intro exI [of _ ?w1] exI [of _ v]) (simp add: reaches_def stateOf_def running_def stage_order)
qed

theorem failed_Init_strands_component_witness:
  "\<exists>w1 w2. Add (plainEnv\<lparr>initHook := \<lambda>ty fs. HookRet fs (Some (UserError ''no''))\<rparr>)
      (containerStop (plainEnv\<lparr>initHook := \<lambda>ty fs. HookRet fs (Some (UserError ''no''))\<rparr>) 3) 0 (Some 5) sampleTree =
        Done (Some (UserError ''no'')) w1 \<and>
    Stage (heap w1 5) = Tearingdown \<and> tornDown w1 = [] \<and>
    Add (plainEnv\<lparr>initHook := \<lambda>ty fs. HookRet fs (Some (UserError ''no''))\<rparr>)
      (containerStop (plainEnv\<lparr>initHook := \<lambda>ty fs. HookRet fs (Some (UserError ''no''))\<rparr>) 3) 0 (Some 5) w1 = Done None w2 \<and>
    GetComponent w2 0 ''job'' = Inr 5 \<and> tornDown w2 = [5]"
proof -
  let ?E = "plainEnv\<lparr>initHook := \<lambda>ty fs. HookRet fs (Some (UserError ''no''))\<rparr>"
  have "initFails ?E (heap sampleTree 5) (UserError ''no'')" by (simp add: initFails_def)
  from failed_Init_strands_component [OF canAdd_sample this, of 3] show ?thesis by auto
qed

end
