(* ===== verification/Messages.thy ===== *)
theory Messages
  imports Activation
begin

text \<open>
  What the multiplexer does with the messages of a running component: the optimistic concurrency
  control by ETags, recovery from a panic of a handler and what becomes of the messages sent before it,
  and shutdown.
\<close>

section \<open>A component whose multiplexer is served, with no message waiting\<close>

definition served_by :: "cid \<Rightarrow> cid \<Rightarrow> world \<Rightarrow> bool" where
  "served_by c x w \<longleftrightarrow> Stage (heap w x) < Stopping \<and> openMmux (heap w x) \<and> mmuxServer x (tasks w) = Some c"

lemma SendSyncMessage_served:
  "served_by c x w \<Longrightarrow>
   SendSyncMessage E halt x mtype lookup w =
     runBind (mmuxRound E halt c x
        \<lparr>msgCtx = background, msgType = mtype, msgsLookup = lookup, errCh = LiveChan\<rparr> w)
       (\<lambda>r w1. Done (case r of None \<Rightarrow> Some DeadlineExceeded | Some err \<Rightarrow> err) w1)"
  by (simp add: served_by_def SendSyncMessage_idle)

text \<open>The handler a message is given to: the one of its type, or the default one of the component.\<close>

definition handlerFor :: "component \<Rightarrow> iface \<Rightarrow> handler option" where
  "handlerFor d mtype =
     (case getSyncMessageHandler d mtype of
        Some h \<Rightarrow> Some h | None \<Rightarrow> getSyncMessageHandler d (StringI (Name d)))"

definition handlerResult :: "env \<Rightarrow> handler \<Rightarrow> iface \<Rightarrow> component \<Rightarrow> hookResult" where
  "handlerResult E h msg d =
     (case h of
        UserHandler k \<Rightarrow> userHandler E k msg (userFields d)
      | DefaultHandler \<Rightarrow>
          (case gotype d of
             UserT ty \<Rightarrow> defaultHandler E ty msg (userFields d)
           | UserContainerT ty \<Rightarrow> defaultHandler E ty msg (userFields d)
           | _ \<Rightarrow> HookRet (userFields d) None))"

lemma runHandler_result:
  "runHandler E h msg x w =
     (case handlerResult E h msg (heap w x) of
        HookRet fs err \<Rightarrow> Done err (upd x (\<lambda>d. d\<lparr>userFields := fs\<rparr>) w)
      | HookPanic fs \<Rightarrow> Crash (upd x (\<lambda>d. d\<lparr>userFields := fs\<rparr>) w))"
  by (simp add: runHandler_def handlerResult_def Let_def)

section \<open>Notifying the listeners of a component change\<close>

text \<open>Callbacks for a changed component leave the ETag alone: only a change of state renews it.\<close>

lemma Etag_runCommand [simp]: "Etag (runCommand d cm) = Etag d"
  by (cases cm)
    (simp_all add: removeCallbackAt_def Unsubscribe_def Callback_def Subscribe_def SetSyncMessageHandler_def split: option.split)

lemma Etag_runCommands [simp]: "Etag (foldl runCommand d cs) = Etag d"
  by (induction cs arbitrary: d) simp_all

lemma Etag_invokeFrom [simp]: "Etag (invokeFrom E (ComponentChangeObject ch) i cbs d) = Etag d"
proof (induction cbs arbitrary: i d)
  case (Cons cb cbs)
  then show ?case by (cases cb) (simp_all add: stateChangeCallbacker_def)
qed simp

lemma Etag_componentChange [simp]:
  "Etag (notifySubscribers ch' (invokeCallbacks E (ComponentChangeObject ch) d)) = Etag d"
  by (simp add: notifySubscribers_def invokeCallbacks_def)

text \<open>The component after its listeners have been notified: hash and ETag renewed, the copy cached.\<close>

lemma notifyListeners_replies:
  "\<exists>F. (\<forall>ch. notifyListeners E x ch w = reply ch None True (upd x (\<lambda>_. F) w)) \<and>
    Etag F = Etag (fst (UpdateComponentEtag E (heap w x))) \<and>
    Stage F = Stage (heap w x) \<and> mmux F = mmux (heap w x) \<and> mmuxBuffer F = mmuxBuffer (heap w x) \<and>
    Name F = Name (heap w x) \<and> gotype F = gotype (heap w x)"
proof -
  let ?d = "fst (UpdateComponentEtag E (heap w x))"
  let ?s = "snapshotOf E ?d"
  let ?ch = "ComponentChangeObject
      \<lparr>prevObj = (case componentCache ?d of None \<Rightarrow> ?s | Some s \<Rightarrow> s), currObj = ?s\<rparr>"
  let ?d1 = "?d\<lparr>componentCache := Some ?s\<rparr>"
  let ?F = "notifySubscribers ?ch (invokeCallbacks E ?ch ?d1)"
  have c: "core ?F = core ?d1" by simp
  have d: "core ?d = core (heap w x)" by simp
  have "notifyListeners E x ch w = reply ch None True (upd x (\<lambda>_. ?F) w)" for ch
    by (simp add: notifyListeners_def createCopy_def Let_def)
  then show ?thesis
    using core_eqD [OF c] core_eqD [OF d] by (intro exI [of _ ?F]) simp
qed

text \<open>Storing the component changes its cache, besides disk and nonces.\<close>

lemma persist_frame:
  assumes "withPersistence (\<lambda>r. persist E r x) u = Done e v"
  shows "\<exists>b. heap v x = (heap u x)\<lparr>persistanceCache := b\<rparr> \<and> tasks v = tasks u"
proof -
  have same: "\<exists>b. d = d\<lparr>persistanceCache := b\<rparr>" for d :: component
    by (intro exI [of _ "persistanceCache d"]) simp
  show ?thesis
    using assms
    by (auto intro: same simp: withPersistence_def persist_def Let_def split: option.splits prod.splits if_splits outcome.splits)
qed

section \<open>Optimistic concurrency control\<close>

definition componentLookup :: "snapshot \<Rightarrow> (iface \<Rightarrow> iface) option" where
  "componentLookup s = Some ((\<lambda>_. NilI)(ComponentMsgType := CompI s))"

lemma stale_copy_rejected:
  assumes "served_by c x w" and "sName s = Name (heap w x)" and "sType s = gotype (heap w x)"
    and "sEtag s \<noteq> Etag (heap w x)"
  shows "SendSyncMessage E halt x ComponentMsgType (componentLookup s) w = Done (Some EtagMismatch) w"
  using assms(2-4)
  by (simp add: SendSyncMessage_served [OF assms(1)] mmuxRound_def serveMessage_def componentLookup_def
      reply_def Let_def)

text \<open>A copy that is current is given to the handler.\<close>

definition copyMessage :: "snapshot \<Rightarrow> message" where
  "copyMessage s = \<lparr>msgCtx = background, msgType = ComponentMsgType, msgsLookup = componentLookup s, errCh = LiveChan\<rparr>"

lemma current_copy_served:
  "sEtag s = Etag (heap w x) \<Longrightarrow>
   serveMessage E halt c x (copyMessage s) w = handleMessage E x ComponentMsgType (CompI s) LiveChan w"
  by (simp add: serveMessage_def copyMessage_def componentLookup_def Let_def)

text \<open>The outcome of a handler and of storing what it did, and the answer that comes of them.\<close>

lemma handled_copy:
  assumes "served_by c x w" and "sEtag s = Etag (heap w x)" and "handlerFor (heap w x) ComponentMsgType = Some h"
    and "handlerResult E h (CompI s) (heap w x) = HookRet fs herr"
    and "withPersistence (\<lambda>r. persist E r x) (upd x (\<lambda>d. d\<lparr>userFields := fs\<rparr>) w) = Done perr v"
  shows "\<exists>w1. SendSyncMessage E halt x ComponentMsgType (componentLookup s) w = Done (if herr \<noteq> None then herr else perr) w1 \<and>
    served_by c x w1 \<and> Name (heap w1 x) = Name (heap w x) \<and> gotype (heap w1 x) = gotype (heap w x) \<and>
    (if herr = None \<and> perr = None
     then Etag (heap w1 x) = Etag (fst (UpdateComponentEtag E (heap v x)))
     else Etag (heap w1 x) = Etag (heap w x) \<and> userFields (heap w1 x) = fs)"
proof -
  let ?w0 = "upd x (\<lambda>d. d\<lparr>userFields := fs\<rparr>) w"
  obtain b where v: "heap v x = (heap w x)\<lparr>userFields := fs, persistanceCache := b\<rparr>" "tasks v = tasks w"
    using persist_frame [OF assms(5)] by auto
  have send: "SendSyncMessage E halt x ComponentMsgType (componentLookup s) w = Done err w1"
    if "handleMessage E x ComponentMsgType (CompI s) LiveChan w = Done (Some err, True) w1" for err w1
    using that current_copy_served [OF assms(2), of E halt c]
    by (simp add: SendSyncMessage_served [OF assms(1)] mmuxRound_def flip: copyMessage_def)
  have handled: "handleMessage E x ComponentMsgType (CompI s) LiveChan w =
      (if herr \<noteq> None then reply LiveChan herr True ?w0 else persistComponent E x LiveChan ?w0)"
    using assms(3,4)
    by (auto simp: handleMessage_def handlerFor_def runHandler_result Let_def split: option.splits)
  have ok: "served_by c x u" if "Stage (heap u x) = Stage (heap w x)" "mmux (heap u x) = mmux (heap w x)"
    "mmuxBuffer (heap u x) = mmuxBuffer (heap w x)" "tasks u = tasks w" for u
    using assms(1) that by (simp add: served_by_def)
  consider (handler) "herr \<noteq> None" | (persist) "herr = None" "perr \<noteq> None" | (fine) "herr = None" "perr = None" by blast
  then show ?thesis
  proof cases
    case handler
    then show ?thesis using send [of herr ?w0] handled ok [of ?w0] by (intro exI [of _ ?w0]) (auto simp: reply_def)
  next
    case persist
    then have "handleMessage E x ComponentMsgType (CompI s) LiveChan w = Done (Some perr, True) v"
      using handled assms(5) by (simp add: persistComponent_def reply_def)
    from send [OF this] show ?thesis using persist ok [of v] v by (intro exI [of _ v]) auto
  next
    case fine
    obtain F where F: "\<forall>ch. notifyListeners E x ch v = reply ch None True (upd x (\<lambda>_. F) v)"
      "Etag F = Etag (fst (UpdateComponentEtag E (heap v x)))" "Stage F = Stage (heap v x)" "mmux F = mmux (heap v x)"
      "mmuxBuffer F = mmuxBuffer (heap v x)" "Name F = Name (heap v x)" "gotype F = gotype (heap v x)"
      using notifyListeners_replies [of E x v] by blast
    then have "handleMessage E x ComponentMsgType (CompI s) LiveChan w = Done (Some None, True) (upd x (\<lambda>_. F) v)"
      using fine handled assms(5) by (simp add: persistComponent_def reply_def)
    from send [OF this] show ?thesis
      using fine ok [of "upd x (\<lambda>_. F) v"] v F by (intro exI [of _ "upd x (\<lambda>_. F) v"]) simp
  qed
qed

text \<open>
  C13: what becomes of two clients that send the same copy of a component. The first one's copy is
  current and goes to the handler. If the handler and the storing of what it changed both succeed, and
  the hash sees a change, the component has a new ETag, and the second client is refused with the
  component left as the first one made it. If the handler returns an error after it changed fields, or
  storing fails, the first client is told so; but the changed fields stay, under the old ETag, so the
  second client's copy passes the check and goes to the handler too.
\<close>

theorem second_update_of_a_copy_refused:
  assumes "served_by c x w"
    and "sName s = Name (heap w x)" and "sType s = gotype (heap w x)" and "sEtag s = Etag (heap w x)"
    and "handlerFor (heap w x) ComponentMsgType = Some h"
    and "handlerResult E h (CompI s) (heap w x) = HookRet fs herr"
    and "withPersistence (\<lambda>r. persist E r x) (upd x (\<lambda>d. d\<lparr>userFields := fs\<rparr>) w) = Done perr v"
    and "hashFn E (hashView ((heap w x)\<lparr>userFields := fs\<rparr>)) = Some newHash" and "newHash \<noteq> hash (heap w x)"
    and "uuidAt E (self (heap w x)) (drawn (heap w x)) \<noteq> Etag (heap w x)"
  shows "\<exists>w1. SendSyncMessage E halt x ComponentMsgType (componentLookup s) w =
      Done (if herr \<noteq> None then herr else perr) w1 \<and> served_by c x w1 \<and>
    (if herr = None \<and> perr = None
     then Etag (heap w1 x) = uuidAt E (self (heap w x)) (drawn (heap w x)) \<and>
       SendSyncMessage E halt x ComponentMsgType (componentLookup s) w1 = Done (Some EtagMismatch) w1
     else userFields (heap w1 x) = fs \<and> Etag (heap w1 x) = Etag (heap w x) \<and>
       serveMessage E halt c x (copyMessage s) w1 = handleMessage E x ComponentMsgType (CompI s) LiveChan w1)"
proof -
  obtain b where v: "heap v x = (heap w x)\<lparr>userFields := fs, persistanceCache := b\<rparr>"
    using persist_frame [OF assms(7)] by auto
  have "hashView (heap v x) = hashView ((heap w x)\<lparr>userFields := fs\<rparr>)" by (simp add: v hashView_def)
  then have new: "Etag (fst (UpdateComponentEtag E (heap v x))) = uuidAt E (self (heap w x)) (drawn (heap w x))"
    using assms(8,9) by (simp add: UpdateComponentEtag_def v)
  obtain w1 where w1: "SendSyncMessage E halt x ComponentMsgType (componentLookup s) w = Done (if herr \<noteq> None then herr else perr) w1"
    "served_by c x w1" "Name (heap w1 x) = Name (heap w x)" "gotype (heap w1 x) = gotype (heap w x)"
    and cases: "if herr = None \<and> perr = None then Etag (heap w1 x) = Etag (fst (UpdateComponentEtag E (heap v x)))
     else Etag (heap w1 x) = Etag (heap w x) \<and> userFields (heap w1 x) = fs"
    using handled_copy [OF assms(1,4-7)] by blast
  have "SendSyncMessage E halt x ComponentMsgType (componentLookup s) w1 = Done (Some EtagMismatch) w1"
    if "Etag (heap w1 x) = uuidAt E (self (heap w x)) (drawn (heap w x))"
    using that assms(2-4,10) w1(3,4) by (intro stale_copy_rejected [OF w1(2)]) simp_all
  then show ?thesis
    using w1(1,2) cases new assms(4) current_copy_served [of s w1 x E halt c]
    by (intro exI [of _ w1]) (simp split: if_splits)
qed

definition workingJob :: component where
  "workingJob = (newComponent 5 (UserT ''Job'') ''job'' [''ServeHTTP'']
       [Field ''Runs'' ''int'' (Some ''native'') True (VInt 64 3)])
     \<lparr>Stage := Started, State := Active, mmux := True, container := Some 0, Etag := ''tag'',
      callbacks := [StateChangeCallback], messageHandlers := [StringI ''job'' \<mapsto> UserHandler 0]\<rparr>"

definition sampleServing :: world where
  "sampleServing = sampleTree\<lparr>heap := (heap sampleTree)(5 := workingJob), tasks := [MmuxTask 0 0, MmuxTask 0 5]\<rparr>"

definition countingEnv :: "kerror option \<Rightarrow> env" where
  "countingEnv err = plainEnv\<lparr>userHandler := \<lambda>k msg fs. HookRet [Field ''Runs'' ''int'' (Some ''native'') True (VInt 64 4)] err\<rparr>"

lemma workingJob_sel [simp]:
  "Name workingJob = ''job''" "Stage workingJob = Started" "mmux workingJob" "mmuxBuffer workingJob = None" "gotype workingJob = UserT ''Job''"
  "Etag workingJob = ''tag''" "messageHandlers workingJob = [StringI ''job'' \<mapsto> UserHandler 0]"
  "hash workingJob = 0" "self workingJob = 5" "drawn workingJob = 0" "container workingJob = Some 0"
  "State workingJob = Active" "isNonRestEntity workingJob = False"
  by (simp_all add: workingJob_def newComponent_def)

lemma sampleServing_sel [simp]:
  "heap sampleServing x = (if x = 5 then workingJob else heap sampleTree x)"
  "tasks sampleServing = [MmuxTask 0 0, MmuxTask 0 5]" "rootContainer sampleServing = Some 0"
  "tornDown sampleServing = []" "slept sampleServing = []" "addons sampleServing = []"
  by (simp_all add: sampleServing_def sampleTree_def worldOf_def)

lemma sampleServing_ok: "served_by 0 5 sampleServing" "persistOff sampleServing"
  by (simp_all add: served_by_def stage_order persistOff_def cpart_def emptyPart_def)

theorem second_update_of_a_copy_refused_witness:
  "(\<exists>w1. SendSyncMessage (countingEnv None) (containerStop plainEnv 3) 5 ComponentMsgType
        (componentLookup (viewOf workingJob)) sampleServing = Done None w1 \<and>
      Etag (heap w1 5) = ''id'' \<and>
      SendSyncMessage (countingEnv None) (containerStop plainEnv 3) 5 ComponentMsgType
        (componentLookup (viewOf workingJob)) w1 = Done (Some EtagMismatch) w1) \<and>
   (\<exists>w1. SendSyncMessage (countingEnv (Some (UserError ''late''))) (containerStop plainEnv 3) 5 ComponentMsgType
        (componentLookup (viewOf workingJob)) sampleServing = Done (Some (UserError ''late'')) w1 \<and>
      Etag (heap w1 5) = ''tag'' \<and> userFields (heap w1 5) = [Field ''Runs'' ''int'' (Some ''native'') True (VInt 64 4)])"
proof -
  let ?fs = "[Field ''Runs'' ''int'' (Some ''native'') True (VInt 64 4)]"
  have h: "handlerFor (heap sampleServing 5) ComponentMsgType = Some (UserHandler 0)"
    by (simp add: handlerFor_def getSyncMessageHandler_def)
  have r: "handlerResult (countingEnv err) (UserHandler 0) (CompI (viewOf workingJob)) (heap sampleServing 5) = HookRet ?fs err" for err
    by (simp add: handlerResult_def countingEnv_def)
  have n: "hashFn (countingEnv err) (hashView ((heap sampleServing 5)\<lparr>userFields := ?fs\<rparr>)) = Some 72" for err
    by (simp add: hashView_def countingEnv_def plainEnv_def)
  have u: "uuidAt (countingEnv err) 5 0 = ''id''" for err
    by (simp add: countingEnv_def)
  have p: "withPersistence f (upd 5 g sampleServing) = Done None (upd 5 g sampleServing)" for f g
    by (simp add: withPersistence_def cpart_def emptyPart_def)
  note both = second_update_of_a_copy_refused
    [OF sampleServing_ok(1), of "viewOf workingJob", OF _ _ _ h r p n, where halt = "containerStop plainEnv 3"]
  show ?thesis
    using both [of None] both [of "Some (UserError ''late'')"] by (intro conjI) (fastforce simp: viewOf_def u)+
qed

section \<open>A handler that panics\<close>

lemma mmuxServer_remove_other:
  "(\<And>c. t \<noteq> MmuxTask c x) \<Longrightarrow> mmuxServer x (remove1 t ts) = mmuxServer x ts"
  by (induction x ts rule: mmuxServer.induct) auto

lemma mmuxServer_None: "mmuxServer x ts = None \<Longrightarrow> MmuxTask c x \<notin> set ts"
  by (induction x ts rule: mmuxServer.induct) (auto split: if_splits)

text \<open>The restart of the multiplexer of a started component.\<close>

definition restarted :: "cid \<Rightarrow> cid \<Rightarrow> world \<Rightarrow> world" where
  "restarted c x v = addTask (MmuxTask c x) (v\<lparr>tasks := remove1 (RestartMmuxTask c x) (tasks v)\<rparr>)"

lemma run_restart:
  assumes "Stage (heap v x) = Started" and "persistOff v"
  shows "runTask E halt (RestartMmuxTask c x) v = Done () (restarted c x v)"
proof -
  have "persistOff (restarted c x v)" using assms(2) by (simp add: restarted_def)
  then show ?thesis
    using assms(1)
    by (simp add: runTask_def componentLifecycleFSM_def stageSwitch_def controlComponent_def withValue_def flip: restarted_def)
qed

lemma restarted_serves:
  assumes "mmuxServer x (tasks v) = None"
  shows "mmuxServer x (tasks (restarted c x v)) = Some c" and "heap (restarted c x v) = heap v"
    and "mmuxServer x (remove1 (MmuxTask c x) (tasks (restarted c x v))) = None"
proof -
  have none: "mmuxServer x (remove1 (RestartMmuxTask c x) (tasks v)) = None"
    using assms by (simp add: mmuxServer_remove_other)
  then show "mmuxServer x (tasks (restarted c x v)) = Some c" by (simp add: restarted_def mmuxServer_append)
  show "heap (restarted c x v) = heap v" by (simp add: restarted_def)
  show "mmuxServer x (remove1 (MmuxTask c x) (tasks (restarted c x v))) = None"
    using none mmuxServer_None [OF none] by (simp add: restarted_def remove1_append)
qed

text \<open>
  A message whose sender has closed the reply channel makes the multiplexer panic, whatever the handler
  does; only a \<^verbatim>\<open>Shutdown\<close> runs the state machine before.
\<close>

definition asksShutdown :: "iface \<Rightarrow> (iface \<Rightarrow> iface) option \<Rightarrow> bool" where
  "asksShutdown mtype lookup \<longleftrightarrow>
     mtype = ControlMsgType \<and> (case lookup of None \<Rightarrow> False | Some f \<Rightarrow> f mtype = ControlI Shutdown)"

definition panicsAt :: "cid \<Rightarrow> world \<Rightarrow> 'a run \<Rightarrow> bool" where
  "panicsAt x w r \<longleftrightarrow> (\<exists>F. r = Crash (upd x (\<lambda>_. F) w) \<and> mmux F = mmux (heap w x) \<and> mmuxBuffer F = mmuxBuffer (heap w x))"

lemma panicsAt_self [simp]: "panicsAt x w (Crash w)"
  by (auto simp: panicsAt_def upd_id intro!: exI [of _ "heap w x"])

lemma notify_closed: "panicsAt x w (notifyListeners E x ClosedChan w)"
  using notifyListeners_replies [of E x w] by (auto simp: panicsAt_def reply_def)

lemma handle_closed:
  assumes "persistOff w"
  shows "panicsAt x w (handleMessage E x mtype msg ClosedChan w)"
proof (cases "handlerFor (heap w x) mtype")
  case None
  then show ?thesis by (auto simp: handleMessage_def handlerFor_def Let_def split: option.splits)
next
  case (Some h)
  let ?w1 = "\<lambda>fs. upd x (\<lambda>d. d\<lparr>userFields := fs\<rparr>) w"
  have run: "handleMessage E x mtype msg ClosedChan w = runBind (runHandler E h msg x w) (\<lambda>err w1.
               if err \<noteq> None then reply ClosedChan err True w1 else persistComponent E x ClosedChan w1)"
    using Some by (auto simp: handleMessage_def handlerFor_def Let_def split: option.splits)
  have fields: "panicsAt x w (Crash (?w1 fs))" for fs
    by (auto simp: panicsAt_def upd_def intro!: exI [of _ "(heap w x)\<lparr>userFields := fs\<rparr>"])
  have stores: "panicsAt x w (persistComponent E x ClosedChan (?w1 fs))" for fs
    using assms notify_closed [of x "?w1 fs" E] by (auto simp: persistComponent_def panicsAt_def upd_upd)
  show ?thesis
    using fields stores unfolding run runHandler_result
    by (cases "handlerResult E h msg (heap w x)") (auto simp: reply_def)
qed

lemma serve_closed:
  assumes "persistOff w" and "\<not> asksShutdown (msgType m) (msgsLookup m)" and "errCh m = ClosedChan"
  shows "panicsAt x w (serveMessage E halt c x m w)"
proof (cases "msgType m = NilI \<or> msgsLookup m = None")
  case True
  then show ?thesis using assms(3) by (auto simp: serveMessage_def rejectMessage_def reply_def Let_def)
next
  case False
  then obtain lookup where m: "msgType m \<noteq> NilI" "msgsLookup m = Some lookup" by auto
  have p: "persistComponent E x ClosedChan w = notifyListeners E x ClosedChan w"
    using assms(1) by (simp add: persistComponent_def)
  have "msgType m = ControlMsgType \<Longrightarrow> lookup ControlMsgType \<noteq> ControlI Shutdown"
    using assms(2) m by (simp add: asksShutdown_def)
  then show ?thesis
    using m assms(3) handle_closed [OF assms(1)] notify_closed
    by (auto simp: serveMessage_def reply_def Let_def p split: iface.split controlMsg.split)
qed

text \<open>The message that waits when the multiplexer is restarted is the first one it takes.\<close>

lemma takes_after_restart:
  assumes "mmuxBuffer (heap w x) = None"
  shows "takeMessage E halt c x (restarted c x (putMessage x (Some m) w)) = mmuxRound E halt c x m (restarted c x w)"
proof -
  have "putMessage x None (restarted c x (putMessage x (Some m) w)) = restarted c x w"
    using assms by (simp add: restarted_def putMessage_def upd_def addTask_def fun_upd_idem)
  then show ?thesis by (simp add: takeMessage_def restarted_def)
qed

lemma abandoned_message_panics:
  assumes "persistOff w" and "openMmux (heap w x)" and "mmuxServer x (tasks w) = None"
    and m: "\<not> asksShutdown (msgType m) (msgsLookup m)" "errCh m = ClosedChan"
  shows "\<exists>w1. runTask E halt (MmuxTask c x) (restarted c x (putMessage x (Some m) w)) = Done () w1 \<and>
    openMmux (heap w1 x) \<and> mmuxServer x (tasks w1) = None \<and> RestartMmuxTask c x \<in> set (tasks w1)"
proof -
  let ?v = "restarted c x w"
  have "persistOff ?v" using assms(1) by (simp add: restarted_def)
  then obtain F where F: "serveMessage E halt c x m ?v = Crash (upd x (\<lambda>_. F) ?v)" "openMmux F"
    using serve_closed [OF _ m, of ?v x E halt c] assms(2) by (auto simp: panicsAt_def restarted_def)
  then have "runTask E halt (MmuxTask c x) (restarted c x (putMessage x (Some m) w)) =
      Done () (endMmux c x (upd x (\<lambda>_. F) ?v))"
    using takes_after_restart [of w x E halt c m] assms(2) by (simp add: runTask_def mmuxRound_def restarted_def)
  moreover have "mmuxServer x (tasks (endMmux c x (upd x (\<lambda>_. F) ?v))) = None"
    using restarted_serves(3) [OF assms(3)] by (simp add: endMmux_def mmuxServer_append)
  ultimately show ?thesis using F(2) by (intro exI conjI) (simp_all, simp add: endMmux_def)
qed

text \<open>
  C22: when the handler of a message panics, the multiplexer recovers: nothing is reported to the
  sender, whose call times out, and the restart of the multiplexer is scheduled, as a call of the state
  machine in a goroutine of its own. It brings a started component back: same stage, same channel, a new
  server. The channel holds one message, so of the messages sent before the restart the first waits in
  it; once the restart has come it is served like one sent afterwards, if its sender still waits. If that
  sender has timed out, it has closed its reply channel and left the message: until the restart every
  further sender blocks, without a timeout; and after the restart the multiplexer takes the message,
  unless it is a \<^verbatim>\<open>Shutdown\<close>, only to panic on the closed channel, and has to be restarted again.
\<close>

theorem panic_in_handler_recovered:
  assumes "served_by c x w" and "Stage (heap w x) = Started" and "persistOff w"
    and "mmuxServer x (remove1 (MmuxTask c x) (tasks w)) = None"
    and "mtype \<noteq> NilI" and "mtype \<noteq> ControlMsgType" and "mtype \<noteq> ComponentMsgType"
    and "handlerFor (heap w x) mtype = Some h" 
    and "handlerResult E h (lookup mtype) (heap w x) = HookPanic fs"
  shows "\<exists>w1 w2. SendSyncMessage E halt x mtype (Some lookup) w = Done (Some DeadlineExceeded) w1 \<and>
    RestartMmuxTask c x \<in> set (tasks w1) \<and> heap w1 x = (heap w x)\<lparr>userFields := fs\<rparr> \<and>
    runTask E halt (RestartMmuxTask c x) w1 = Done () w2 \<and> heap w2 = heap w1 \<and> served_by c x w2 \<and>
    (\<forall>m. \<exists>w3 w4. postMessage x m w1 = Done () w3 \<and> runTask E halt (RestartMmuxTask c x) w3 = Done () w4 \<and>
       takeMessage E halt c x w4 = mmuxRound E halt c x m w2) \<and>
    (\<forall>mtype' lookup'. \<exists>w3 w4. SendSyncMessage E halt x mtype' lookup' w1 = Done (Some DeadlineExceeded) w3 \<and>
       (\<forall>mtype'' lookup''. SendSyncMessage E halt x mtype'' lookup'' w3 = Stuck) \<and>
       runTask E halt (RestartMmuxTask c x) w3 = Done () w4 \<and> mmuxServer x (tasks w4) = Some c \<and>
       (asksShutdown mtype' lookup' \<or>
         (\<exists>w5. runTask E halt (MmuxTask c x) w4 = Done () w5 \<and> openMmux (heap w5 x) \<and>
            mmuxServer x (tasks w5) = None \<and> RestartMmuxTask c x \<in> set (tasks w5))))"
proof -
  let ?w0 = "upd x (\<lambda>d. d\<lparr>userFields := fs\<rparr>) w"
  define w1 where "w1 = endMmux c x ?w0"
  have "handleMessage E x mtype (lookup mtype) LiveChan w = Crash ?w0"
    using assms(8,9) by (auto simp: handleMessage_def handlerFor_def runHandler_result Let_def split: option.splits)
  then have send: "SendSyncMessage E halt x mtype (Some lookup) w = Done (Some DeadlineExceeded) w1"
    using assms(5-7) by (simp add: SendSyncMessage_served [OF assms(1)] mmuxRound_def serveMessage_def w1_def Let_def)
  have x1: "heap w1 x = (heap w x)\<lparr>userFields := fs\<rparr>" "Stage (heap w1 x) = Started" "persistOff w1" "openMmux (heap w1 x)"
    "RestartMmuxTask c x \<in> set (tasks w1)"
    using assms(1-3) by (simp_all add: w1_def served_by_def endMmux_def [of c x])
  have none: "mmuxServer x (tasks w1) = None"
    using assms(4) by (simp add: w1_def endMmux_def mmuxServer_append)
  have rerun: "runTask E halt (RestartMmuxTask c x) w1 = Done () (restarted c x w1)"
    by (rule run_restart [OF x1(2,3)])
  have up: "served_by c x (restarted c x w1)"
    using x1(2,4) restarted_serves [OF none] by (simp add: served_by_def stage_order)
  have put: "runTask E halt (RestartMmuxTask c x) (putMessage x (Some m) w1) = Done () (restarted c x (putMessage x (Some m) w1))" for m
    by (rule run_restart) (use x1 in \<open>simp_all add: persistOff_putMessage\<close>)
  have "\<exists>w3 w4. SendSyncMessage E halt x mtype' lookup' w1 = Done (Some DeadlineExceeded) w3 \<and>
       (\<forall>mtype'' lookup''. SendSyncMessage E halt x mtype'' lookup'' w3 = Stuck) \<and>
       runTask E halt (RestartMmuxTask c x) w3 = Done () w4 \<and> mmuxServer x (tasks w4) = Some c \<and>
       (asksShutdown mtype' lookup' \<or>
         (\<exists>w5. runTask E halt (MmuxTask c x) w4 = Done () w5 \<and> openMmux (heap w5 x) \<and>
            mmuxServer x (tasks w5) = None \<and> RestartMmuxTask c x \<in> set (tasks w5)))" for mtype' lookup'
  proof -
    let ?m = "\<lparr>msgCtx = background, msgType = mtype', msgsLookup = lookup', errCh = ClosedChan\<rparr>"
    let ?w3 = "putMessage x (Some ?m) w1"
    have "Stage (heap w1 x) < Stopping" using x1(2) by (simp add: stage_order)
    then have "SendSyncMessage E halt x mtype' lookup' w1 = Done (Some DeadlineExceeded) ?w3"
      "\<forall>mtype'' lookup''. SendSyncMessage E halt x mtype'' lookup'' ?w3 = Stuck"
      using x1(4) none by (simp_all add: SendSyncMessage_unserved)
    moreover have "mmuxServer x (tasks (restarted c x ?w3)) = Some c"
      using none by (intro restarted_serves) simp
    moreover have "asksShutdown mtype' lookup' \<or>
         (\<exists>w5. runTask E halt (MmuxTask c x) (restarted c x ?w3) = Done () w5 \<and> openMmux (heap w5 x) \<and>
            mmuxServer x (tasks w5) = None \<and> RestartMmuxTask c x \<in> set (tasks w5))"
      using abandoned_message_panics [OF x1(3,4) none, of ?m E halt c] by auto
    ultimately show ?thesis using put [of ?m] by blast
  qed
  moreover have "\<exists>w3 w4. postMessage x m w1 = Done () w3 \<and> runTask E halt (RestartMmuxTask c x) w3 = Done () w4 \<and>
       takeMessage E halt c x w4 = mmuxRound E halt c x m (restarted c x w1)" for m
    using put takes_after_restart x1(4) by (simp add: postMessage_def)
  ultimately show ?thesis
    using send rerun up x1(1,5) restarted_serves(2) [OF none]
    by (intro exI [of _ w1] exI [of _ "restarted c x w1"]) blast
qed

theorem panic_in_handler_recovered_witness:
  "\<exists>w1 w2 w3. SendSyncMessage (plainEnv\<lparr>userHandler := \<lambda>k msg fs. HookPanic fs\<rparr>) (containerStop plainEnv 3) 5
      (StringI ''work'') (Some (\<lambda>_. OtherI 2)) sampleServing = Done (Some DeadlineExceeded) w1 \<and>
    runTask (plainEnv\<lparr>userHandler := \<lambda>k msg fs. HookPanic fs\<rparr>) (containerStop plainEnv 3)
      (RestartMmuxTask 0 5) w1 = Done () w2 \<and> served_by 0 5 w2 \<and>
    SendSyncMessage (plainEnv\<lparr>userHandler := \<lambda>k msg fs. HookPanic fs\<rparr>) (containerStop plainEnv 3) 5
      (StringI ''work'') None w1 = Done (Some DeadlineExceeded) w3 \<and>
    SendSyncMessage (plainEnv\<lparr>userHandler := \<lambda>k msg fs. HookPanic fs\<rparr>) (containerStop plainEnv 3) 5
      (StringI ''work'') None w3 = Stuck"
proof -
  let ?E = "plainEnv\<lparr>userHandler := \<lambda>k msg fs. HookPanic fs\<rparr>"
  have h: "handlerFor (heap sampleServing 5) (StringI ''work'') = Some (UserHandler 0)"
    by (simp add: handlerFor_def getSyncMessageHandler_def)
  have r: "handlerResult ?E (UserHandler 0) ((\<lambda>_. OtherI 2) (StringI ''work'')) (heap sampleServing 5) =
      HookPanic (userFields workingJob)"
    by (simp add: handlerResult_def)
  have t: "StringI ''work'' \<noteq> NilI" "StringI ''work'' \<noteq> ControlMsgType" "StringI ''work'' \<noteq> ComponentMsgType"
    by (simp_all add: ControlMsgType_def ComponentMsgType_def)
  have st: "Stage (heap sampleServing 5) = Started"
    "mmuxServer 5 (remove1 (MmuxTask 0 5) (tasks sampleServing)) = None" by simp_all
  from panic_in_handler_recovered [OF sampleServing_ok(1) st(1) sampleServing_ok(2) st(2) t h r, of "containerStop plainEnv 3"]
  show ?thesis by blast
qed

section \<open>Shutdown\<close>

lemma added_paths:
  assumes "canAdd E r c x ps w" and "added r c x ps w w1"
  shows "containerPaths w1 (Some c) [] = Some ps"
proof -
  have r: "reaches Started ((heap w x)\<lparr>container := Some c\<rparr>) (heap w1 x)"
    using assms(2) by (simp add: added_def)
  have ps: "containerPaths (upd x (setContainer c) w) (Some c) [] = Some ps"
    using assms(1) by (simp add: canAdd_def)
  have "Name (heap w1 y) = Name (heap (upd x (setContainer c) w) y) \<and>
      container (heap w1 y) = container (heap (upd x (setContainer c) w) y)" for y
    using r added_others [OF assms(2), of y] by (cases "y = x") (simp_all add: reaches_def setContainer_def)
  then show ?thesis by (rule containerPaths_transfer [OF ps])
qed

lemma added_runningChild:
  assumes "canAdd E r c x ps w" and "added r c x ps w w1" and "stopsCleanly E (heap w x)"
    and "mmuxServer x (tasks w) = None"
  shows "runningChild E c w1 x" and "persistOff w1"
proof -
  have r: "reaches Started ((heap w x)\<lparr>container := Some c\<rparr>) (heap w1 x)"
    and t: "tasks w1 = tasks w @ [MmuxTask c x, PreStartTask x, StartTask c x]" and "persistOff w1"
    and b: "mmuxBuffer (heap w1 x) = None"
    using assms(2) by (simp_all add: added_def)
  then show "persistOff w1" by simp
  have xc: "x \<noteq> c" using assms(1) by (simp add: canAdd_def)
  have "containerPaths w1 (Some c) [] = Some ps" using added_paths [OF assms(1,2)] .
  then have "derivable w1 x" using r by (simp add: derivable_def reaches_def)
  moreover have "stopsCleanly E (heap w1 x)" using assms(3) r by (simp add: stopsCleanly_def reaches_def)
  moreover have "mmuxServer x (tasks w1) = Some c" using assms(4) by (simp add: t mmuxServer_append)
  ultimately show "runningChild E c w1 x" using r xc b by (simp add: runningChild_def reaches_def)
qed

text \<open>
  C9: \<^verbatim>\<open>Add\<close> and a \<^verbatim>\<open>Shutdown\<close> message undo each other in the tables of the container: afterwards it
  lists and finds what it did before, the component is \<^verbatim>\<open>Teareddown\<close> and \<^verbatim>\<open>Inactive\<close> with its
  multiplexer closed and without a server, it has been torn down once, and it refuses messages.
\<close>

theorem Add_Shutdown_restores_container:
  assumes "canAdd E r c x ps w" and "initsCleanly E (heap w x)" and "stopsCleanly E (heap w x)"
    and "wfPart (cpart w c)" and "mmuxServer x (tasks w) = None"
  shows "\<exists>w1 w2. Add E halt c (Some x) w = Done None w1 \<and>
    SendSyncMessage E halt x ControlMsgType (controlLookup Shutdown) w1 = Done None w2 \<and>
    components (cpart w2 c) = components (cpart w c) \<and> (\<forall>n. GetComponent w2 c n = GetComponent w c n) \<and>
    Stage (heap w2 x) = Teareddown \<and> State (heap w2 x) = Inactive \<and> \<not> mmux (heap w2 x) \<and>
    mmuxServer x (tasks w2) = None \<and> tornDown w2 = tornDown w1 @ [x] \<and>
    SendSyncMessage E halt x mtype lookup w2 = Done (Some (CannotProcess (Name (heap w x)) Teareddown)) w2"
proof -
  let ?n = "Name (heap w x)"
  obtain w1 where w1: "Add E halt c (Some x) w = Done None w1" "added r c x ps w w1"
    using Add_child [OF assms(1,2)] by blast
  have xc: "x \<noteq> c" and free: "mapGet (cComponents (cpart w c)) ?n = None" using assms(1) by (simp_all add: canAdd_def)
  have n1: "Name (heap w1 x) = ?n" and t1: "tasks w1 = tasks w @ [MmuxTask c x, PreStartTask x, StartTask c x]"
    and comps: "components (cpart w1 c) = components (cpart w c) @ [?n]" and c1: "asContainer (heap w1 c) \<noteq> None"
    using w1(2) by (simp_all add: added_def reaches_def)
  have get: "mapGet (cComponents (cpart w1 c)) n =
       (if n = ?n then Some \<lparr>cName = n, ccomp = Some x\<rparr> else mapGet (cComponents (cpart w c)) n)" for n
    using w1(2) unfolding added_def by blast
  obtain F h where send: "SendSyncMessage E halt x ControlMsgType (controlLookup Shutdown) w1 =
      Done None (endMmux c x
        ((updPart c (\<lambda>k. removeName (Name (heap w1 x)) (k\<lparr>cHandlers := h k\<rparr>)) (upd x F w1))
           \<lparr>tornDown := tornDown w1 @ [x]\<rparr>))" and g: "gone (heap w1 x) (F (heap w1 x))"
    using shutdown_out [OF added_runningChild [OF assms(1) w1(2) assms(3,5)]] by blast
  define w2 where "w2 = endMmux c x
        ((updPart c (\<lambda>k. removeName (Name (heap w1 x)) (k\<lparr>cHandlers := h k\<rparr>)) (upd x F w1))
           \<lparr>tornDown := tornDown w1 @ [x]\<rparr>)"
  have part2: "cpart w2 c = removeName ?n ((cpart w1 c)\<lparr>cHandlers := h (cpart w1 c)\<rparr>)"
    using c1 xc n1 by (auto simp: w2_def cpart_def)
  have "?n \<notin> set (components (cpart w c))" using assms(4) free by (simp add: wfPart_def)
  moreover have "distinct (components (cpart w c))" using assms(4) by (simp add: wfPart_def)
  ultimately have "components (cpart w2 c) = components (cpart w c)"
    unfolding part2 by (intro removeName_last) (simp_all add: comps)
  moreover have "GetComponent w2 c n = GetComponent w c n" for n
  proof -
    have "mapGet (cComponents (cpart w2 c)) n = mapGet (cComponents (cpart w c)) n"
      using free by (simp add: part2 mapGet_removeName get)
    moreover have "Name (heap w2 c) = Name (heap w c)" using xc added_others(1) [OF w1(2)] by (simp add: w2_def)
    ultimately show ?thesis by (simp add: GetComponent_def split: option.split)
  qed
  moreover have x2: "heap w2 x = F (heap w1 x)" using xc by (simp add: w2_def)
  moreover have "mmuxServer x (tasks w2) = None"
  proof -
    have "mmuxServer x (remove1 (MmuxTask c x) (ts @ [MmuxTask c x, PreStartTask x, StartTask c x])) = None"
      if "mmuxServer x ts = None" for ts
      using that by (induction x ts rule: mmuxServer.induct) (auto split: if_splits)
    then show ?thesis using assms(5) by (simp add: w2_def endMmux_def mmuxServer_append t1)
  qed
  moreover have "SendSyncMessage E halt x mtype lookup w2 = Done (Some (CannotProcess ?n Teareddown)) w2"
    using g x2 n1 by (simp add: SendSyncMessage_def gone_def stage_order)
  ultimately show ?thesis
    using w1(1) send g unfolding w2_def [symmetric]
    by (intro exI [of _ w1] exI [of _ w2]) (simp add: gone_def, simp add: w2_def)
qed

theorem Add_Shutdown_restores_container_witness:
  "\<exists>w1 w2. Add plainEnv (containerStop plainEnv 3) 0 (Some 5) sampleTree = Done None w1 \<and>
    SendSyncMessage plainEnv (containerStop plainEnv 3) 5 ControlMsgType (controlLookup Shutdown) w1 = Done None w2 \<and>
    Stage (heap w2 5) = Teareddown \<and> components (cpart w2 0) = []"
proof -
  have "initsCleanly plainEnv (heap sampleTree 5)" "stopsCleanly plainEnv (heap sampleTree 5)"
    by (simp_all add: initsCleanly_def stopsCleanly_def)
  moreover have "wfPart (cpart sampleTree 0)" "components (cpart sampleTree 0) = []"
    by (simp_all add: wfPart_def cpart_def emptyPart_def)
  ultimately show ?thesis
    using Add_Shutdown_restores_container [OF canAdd_sample, of plainEnv "containerStop plainEnv 3"] by fastforce
qed

end
