(* ===== verification/Fuel.thy ===== *)
theory Fuel
  imports Start_Restart
begin

text \<open>
  The fuel of \<^verbatim>\<open>Container.Stop\<close>: one unit for each round of its loop and for each nested container.
  A run that did not get stuck with some fuel ends the same way with more, so a result is a result of
  the program. The argument goes through every operation that may call \<^verbatim>\<open>Stop\<close>.
\<close>

section \<open>Approximation of runs\<close>

definition upto_stuck :: "'a run \<Rightarrow> 'a run \<Rightarrow> bool" where
  "upto_stuck r r' \<longleftrightarrow> r = Stuck \<or> r' = r"

definition approx :: "(cid \<Rightarrow> world \<Rightarrow> 'a run) \<Rightarrow> (cid \<Rightarrow> world \<Rightarrow> 'a run) \<Rightarrow> bool" where
  "approx halt halt' \<longleftrightarrow> (\<forall>c w. upto_stuck (halt c w) (halt' c w))"

named_theorems fuel_mono

lemma upto_stuck_refl [simp, intro]: "upto_stuck r r"
  by (simp add: upto_stuck_def)

lemma upto_stuck_Stuck [simp, intro]: "upto_stuck Stuck r"
  by (simp add: upto_stuck_def)

lemma upto_stuck_trans: "upto_stuck r s \<Longrightarrow> upto_stuck s t \<Longrightarrow> upto_stuck r t"
  by (auto simp: upto_stuck_def)

lemma upto_stuck_bind:
  assumes "upto_stuck r r'" and "\<And>x w. upto_stuck (f x w) (f' x w)"
  shows "upto_stuck (runBind r f) (runBind r' f')"
  using assms by (cases r) (auto simp: upto_stuck_def)

lemma approxD: "approx halt halt' \<Longrightarrow> upto_stuck (halt c w) (halt' c w)"
  by (simp add: approx_def)

section \<open>Every operation\<close>

lemma virtualStop_mono [fuel_mono]:
  "approx halt halt' \<Longrightarrow> upto_stuck (virtualStop E halt x w) (virtualStop E halt' x w)"
  by (auto simp: virtualStop_def approxD split: gotype.split)

lemma stopComponent_mono [fuel_mono]:
  "approx halt halt' \<Longrightarrow> upto_stuck (stopComponent E halt c x w) (stopComponent E halt' c x w)"
  unfolding stopComponent_def by (intro upto_stuck_bind virtualStop_mono upto_stuck_refl)

lemma stageSwitch_mono [fuel_mono]:
  "approx halt halt' \<Longrightarrow> upto_stuck (stageSwitch E halt c ctx x w) (stageSwitch E halt' c ctx x w)"
  by (auto simp: stageSwitch_def stopComponent_mono split: stage.split)

lemma deferPersist_mono: "upto_stuck r r' \<Longrightarrow> upto_stuck (deferPersist E x r) (deferPersist E x r')"
  by (auto simp: upto_stuck_def deferPersist_def)

lemma componentLifecycleFSM_mono [fuel_mono]:
  "approx halt halt' \<Longrightarrow> upto_stuck (componentLifecycleFSM E halt c ctx x w) (componentLifecycleFSM E halt' c ctx x w)"
  unfolding componentLifecycleFSM_def by (intro deferPersist_mono stageSwitch_mono)

lemma shutdownMessage_mono [fuel_mono]:
  assumes "approx halt halt'"
  shows "upto_stuck (shutdownMessage E halt c x ctx ch w) (shutdownMessage E halt' c x ctx ch w)"
  unfolding shutdownMessage_def
  by (rule upto_stuck_bind [OF componentLifecycleFSM_mono [OF assms]])
    (auto intro!: upto_stuck_bind fuel_mono assms)

lemma serveMessage_mono [fuel_mono]:
  "approx halt halt' \<Longrightarrow> upto_stuck (serveMessage E halt c x m w) (serveMessage E halt' c x m w)"
  by (auto simp: serveMessage_def Let_def shutdownMessage_mono split: option.split iface.split controlMsg.split)

lemma mmuxRound_mono [fuel_mono]:
  "approx halt halt' \<Longrightarrow> upto_stuck (mmuxRound E halt c x m w) (mmuxRound E halt' c x m w)"
  using serveMessage_mono [of halt halt' E c x m w]
  by (auto simp: mmuxRound_def upto_stuck_def split: run.split)

lemma takeMessage_mono [fuel_mono]:
  "approx halt halt' \<Longrightarrow> upto_stuck (takeMessage E halt c x w) (takeMessage E halt' c x w)"
  by (auto simp: takeMessage_def mmuxRound_mono split: option.split)

lemma awaitServed_mono [fuel_mono]:
  "approx halt halt' \<Longrightarrow> upto_stuck (awaitServed E halt x w) (awaitServed E halt' x w)"
  by (auto simp: awaitServed_def intro!: upto_stuck_bind takeMessage_mono split: option.split)

lemma SendSyncMessage_mono [fuel_mono]:
  "approx halt halt' \<Longrightarrow> upto_stuck (SendSyncMessage E halt x mtype lookup w) (SendSyncMessage E halt' x mtype lookup w)"
  by (auto simp: SendSyncMessage_def Let_def intro!: upto_stuck_bind mmuxRound_mono awaitServed_mono split: option.split)

lemma activateComponent_mono [fuel_mono]:
  assumes "approx halt halt'"
  shows "upto_stuck (activateComponent E halt c x w) (activateComponent E halt' c x w)"
proof -
  note fsm = componentLifecycleFSM_mono [OF assms]
  show ?thesis
    unfolding activateComponent_def Let_def
    by (rule upto_stuck_bind [OF fsm])
      (auto intro!: upto_stuck_bind fsm split: prod.split)
qed

lemma addComponent_mono [fuel_mono]:
  "approx halt halt' \<Longrightarrow> upto_stuck (addComponent E halt c arg w) (addComponent E halt' c arg w)"
  by (auto simp: addComponent_def Let_def activateComponent_mono split: option.split)

lemma addDeferred_mono [fuel_mono]:
  "approx halt halt' \<Longrightarrow> upto_stuck (addDeferred E halt r as w) (addDeferred E halt' r as w)"
  by (induction "as" arbitrary: w) (auto intro!: upto_stuck_bind addComponent_mono)

lemma Add_mono [fuel_mono]:
  "approx halt halt' \<Longrightarrow> upto_stuck (Add E halt c arg w) (Add E halt' c arg w)"
  unfolding Add_def
  by (rule upto_stuck_bind [OF addComponent_mono])
    (auto intro!: addDeferred_mono split: option.split)

lemma startComponent_mono [fuel_mono]:
  assumes "approx halt halt'"
  shows "upto_stuck (startComponent E halt c x w) (startComponent E halt' c x w)"
proof -
  have "upto_stuck (afterStart E halt c x v) (afterStart E halt' c x v)" for v
    unfolding afterStart_def Let_def
    by (auto intro!: upto_stuck_bind componentLifecycleFSM_mono assms split: prod.split)
  then show ?thesis by (auto simp: startComponent_def split: run.split)
qed

lemma runTask_mono [fuel_mono]:
  assumes "approx halt halt'"
  shows "upto_stuck (runTask E halt t w) (runTask E halt' t w)"
  by (cases t)
    (auto simp: runTask_def Let_def intro!: upto_stuck_bind fuel_mono assms)

section \<open>Container.Stop\<close>

text \<open>One round of its loop, with the rest of the loop and the nested containers as parameters.\<close>

definition stopRound ::
    "env \<Rightarrow> (cid \<Rightarrow> world \<Rightarrow> kerror option run) \<Rightarrow> cid \<Rightarrow> world \<Rightarrow> kerror option run" where
  "stopRound E halt c w =
     (case components (cpart w c) of
        [] \<Rightarrow> Done None w
      | _ # rest \<Rightarrow>
          (let child = Option.bind (mapGet (cComponents (cpart w c)) (last (components (cpart w c)))) ccomp
           in runBind
                (case child of
                   None \<Rightarrow> Done None w
                 | Some y \<Rightarrow>
                     if Matches c y then Done None w
                     else SendSyncMessage E halt y ControlMsgType (controlLookup Shutdown) w)
                (\<lambda>_ w1. if rest = [] \<and> child = Some c then Done None w1 else halt c w1)))"

lemma containerStop_round_of: "containerStop E (Suc n) c w = stopRound E (containerStop E n) c w"
  by (simp add: stopRound_def Let_def split: list.split)

lemma stopRound_mono:
  assumes "approx halt halt'"
  shows "upto_stuck (stopRound E halt c w) (stopRound E halt' c w)"
proof (cases "components (cpart w c)")
  case (Cons n rest)
  have "upto_stuck (case child of
                   None \<Rightarrow> Done None w
                 | Some y \<Rightarrow>
                     if Matches c y then Done None w
                     else SendSyncMessage E halt y ControlMsgType (controlLookup Shutdown) w)
      (case child of
                   None \<Rightarrow> Done None w
                 | Some y \<Rightarrow>
                     if Matches c y then Done None w
                     else SendSyncMessage E halt' y ControlMsgType (controlLookup Shutdown) w)" for child
    by (simp add: SendSyncMessage_mono [OF assms] split: option.split)
  then show ?thesis
    unfolding stopRound_def Cons list.case Let_def
    by (rule upto_stuck_bind) (simp add: approxD [OF assms])
qed (simp add: stopRound_def)

lemma containerStop_Suc: "approx (containerStop E n) (containerStop E (Suc n))"
proof (induction n)
  case (Suc n)
  then show ?case
    using stopRound_mono by (simp add: approx_def containerStop_round_of del: containerStop.simps)
qed (simp add: approx_def)

lemma containerStop_approx: "n \<le> m \<Longrightarrow> approx (containerStop E n) (containerStop E m)"
proof (induction m)
  case (Suc m)
  then show ?case
    using containerStop_Suc [of E m] upto_stuck_trans
    by (cases "n = Suc m") (fastforce simp: approx_def le_Suc_eq)+
qed (simp add: approx_def)

lemma containerStop_more_fuel:
  "containerStop E n c w \<noteq> Stuck \<Longrightarrow> n \<le> m \<Longrightarrow> containerStop E m c w = containerStop E n c w"
  using approxD [OF containerStop_approx [of n m E], of c w] by (simp add: upto_stuck_def)

end
