(* ===== verification/Nested_Stop.thy ===== *)
theory Nested_Stop
  imports Shutdown
begin

text \<open>
  \<^verbatim>\<open>Container.Stop\<close> on containers that hold containers, to any depth: the components of a container are
  shut down last in, first out, and each container only after everything it holds. The file database
  may be on: every component is then stored when its stage has changed, also after the database itself
  has been shut down.
\<close>

section \<open>Persistence that works\<close>

text \<open>Storing a component needs a database that was opened, it may have been closed again, and a key.\<close>

definition usable :: "persistencePart \<Rightarrow> bool" where
  "usable k \<longleftrightarrow> dbHandle k \<noteq> None \<and> symmetricEncryptKey k \<noteq> None"

definition persistReady :: "world \<Rightarrow> bool" where
  "persistReady w \<longleftrightarrow>
     (case rootContainer w of
        None \<Rightarrow> True
      | Some r \<Rightarrow> (case persistence (cpart w r) of None \<Rightarrow> True | Some p \<Rightarrow> usable (persistenceOf w p)))"

lemma persistOff_ready: "persistOff w \<Longrightarrow> persistReady w"
  by (simp add: persistOff_def persistReady_def split: option.splits)

lemma persistReady_transfer:
  assumes "persistReady w" and "rootContainer w1 = rootContainer w"
    and "\<And>y. persistence (cpart w1 y) = persistence (cpart w y)"
    and "\<And>y. usable (persistenceOf w y) \<Longrightarrow> usable (persistenceOf w1 y)"
  shows "persistReady w1"
  using assms by (auto simp: persistReady_def split: option.splits)

lemma persistReady_upd:
  "(\<And>d. asContainer (f d) = asContainer d) \<Longrightarrow> (\<And>d. asPersistence (f d) = asPersistence d) \<Longrightarrow>
   persistReady w \<Longrightarrow> persistReady (upd x f w)"
  by (rule persistReady_transfer [of w]) (auto simp: persistenceOf_def cpart_def)

lemma persistReady_endMmux [simp]: "persistReady (endMmux c x w) = persistReady w"
  by (simp add: persistReady_def persistenceOf_def split: option.split)

text \<open>What the deferred call of \<^verbatim>\<open>persist\<close> changes: the cache of the component, the disk, the nonces drawn.\<close>

definition stored :: "cid \<Rightarrow> string option \<Rightarrow> nat \<Rightarrow> disk \<Rightarrow> world \<Rightarrow> world" where
  "stored x b n D w = upd x (\<lambda>d. d\<lparr>persistanceCache := b\<rparr>) (w\<lparr>nonces := n, disk := D\<rparr>)"

lemma stored_sel [simp]:
  "heap (stored x b n D w) y = (if y = x then (heap w x)\<lparr>persistanceCache := b\<rparr> else heap w y)"
  "tasks (stored x b n D w) = tasks w" "tornDown (stored x b n D w) = tornDown w"
  "rootContainer (stored x b n D w) = rootContainer w" "topLevelComponents (stored x b n D w) = topLevelComponents w"
  "cpart (stored x b n D w) = cpart w" "persistenceOf (stored x b n D w) = persistenceOf w"
  "persistReady (stored x b n D w) = persistReady w"
  by (auto simp: stored_def upd_def cpart_def persistenceOf_def persistReady_def fun_eq_iff split: option.splits)

lemma deferPersist_ready:
  assumes "persistReady w"
  shows "\<exists>b n D. deferPersist E x (Done err w) = Done err (stored x b n D w)"
proof -
  have idle: "stored x (persistanceCache (heap w x)) m (disk w) w = w\<lparr>nonces := m\<rparr>" for m
    by (simp add: stored_def upd_def fun_upd_idem)
  have same: "w\<lparr>nonces := nonces w\<rparr> = w" by simp
  show ?thesis
  proof (cases "rootContainer w")
    case None
    then show ?thesis using idle [of "nonces w"] unfolding same by (auto simp: deferPersist_def withPersistence_def intro: sym)
  next
    case (Some r)
    show ?thesis
    proof (cases "persistence (cpart w r)")
      case None
      then show ?thesis using Some idle [of "nonces w"] unfolding same
        by (auto simp: deferPersist_def withPersistence_def intro: sym)
    next
      case p: (Some p)
      obtain key nm cl where k: "symmetricEncryptKey (persistenceOf w p) = Some key" "dbHandle (persistenceOf w p) = Some (nm, cl)"
        using assms Some p by (auto simp: persistReady_def usable_def)
      obtain m fs where fs: "persistable E key (heap w x) (nonces w) = (m, fs)" by fastforce
      let ?b = "Some (marshalPTypes fs)"
      let ?w2 = "upd x (\<lambda>d. d\<lparr>persistanceCache := ?b\<rparr>) (w\<lparr>nonces := m\<rparr>)"
      have key: "persistenceOf ?w2 p = persistenceOf w p" by (simp add: persistenceOf_def)
      obtain D e where D: "Update (Some (nm, cl)) (Name (heap w x)) fs (disk w) = Ret (D, e)"
        unfolding Update_def by (cases "writeFile (disk w) (collFilePath nm (Name (heap w x))) (marshalPTypes fs)") simp
      have "?w2\<lparr>disk := D\<rparr> = stored x ?b m D w" by (simp add: stored_def upd_def)
      then have "persist E r x w = Done None (w\<lparr>nonces := m\<rparr>) \<or> persist E r x w = Done e (stored x ?b m D w)"
        using k D by (simp add: persist_def p fs key Let_def)
      then have "deferPersist E x (Done err w) = Done err (stored x (persistanceCache (heap w x)) m (disk w) w) \<or>
          deferPersist E x (Done err w) = Done err (stored x ?b m D w)"
        by (auto simp: deferPersist_def withPersistence_def Some p idle)
      then show ?thesis by blast
    qed
  qed
qed

section \<open>Containers and what they hold\<close>

text \<open>A component with the components it holds, in the order of their activation.\<close>

datatype ctree = CNode (root: cid) (parts: "ctree list")

fun nodes :: "ctree \<Rightarrow> cid list" where
  "nodes (CNode x ts) = x # concat (map nodes ts)"

fun shutOrder :: "ctree \<Rightarrow> cid list" where
  "shutOrder (CNode x ts) = concat (map shutOrder (rev ts)) @ [x]"

abbreviation allNodes :: "ctree list \<Rightarrow> cid list" where
  "allNodes ts \<equiv> concat (map nodes ts)"

lemma set_shutOrder: "set (shutOrder t) = set (nodes t)"
  by (induction t) auto

lemma root_node [simp, intro]: "root t \<in> set (nodes t)"
  by (cases t) simp

definition containerType :: "gotype \<Rightarrow> bool" where
  "containerType t \<longleftrightarrow> (case t of ContainerT \<Rightarrow> True | AppT \<Rightarrow> True | UserContainerT _ \<Rightarrow> True | _ \<Rightarrow> False)"

text \<open>Components without parts whose \<^verbatim>\<open>Stop\<close> returns no error.\<close>

definition leafStops :: "env \<Rightarrow> component \<Rightarrow> bool" where
  "leafStops E d \<longleftrightarrow>
     (case gotype d of
        SimpleT \<Rightarrow> True
      | UserT ty \<Rightarrow> returns None (stopHook E ty)
      | HttpServerT \<Rightarrow> returns None (stopHook E ''HttpServer'')
      | PersistenceT \<Rightarrow> (case asPersistence d of None \<Rightarrow> True | Some k \<Rightarrow> snd (Disconnect (dbHandle k)) = None)
      | _ \<Rightarrow> False)"

lemma virtualStop_container: "containerType (gotype (heap w c)) \<Longrightarrow> virtualStop E halt c w = halt c w"
  by (auto simp: containerType_def virtualStop_def split: gotype.splits)

text \<open>Container \<open>c\<close> lists itself, if \<open>own\<close>, and then the roots of \<open>ts\<close>.\<close>

definition listed :: "cid \<Rightarrow> bool \<Rightarrow> ctree list \<Rightarrow> world \<Rightarrow> bool" where
  "listed c own ts w \<longleftrightarrow>
     asContainer (heap w c) \<noteq> None \<and>
     components (cpart w c) = ownNames own c w @ map (\<lambda>t. Name (heap w (root t))) ts \<and>
     distinct (components (cpart w c)) \<and>
     (own \<longrightarrow> childOf w c (Name (heap w c)) = Some c) \<and>
     (\<forall>t \<in> set ts. childOf w c (Name (heap w (root t))) = Some (root t))"

text \<open>
  The components of a tree all run, with no message waiting: those without parts stop without an error
  or a panic, the others are containers.
\<close>

fun treeRuns :: "env \<Rightarrow> world \<Rightarrow> cid \<Rightarrow> ctree \<Rightarrow> bool" where
  "treeRuns E w c (CNode x ts) \<longleftrightarrow>
     Stage (heap w x) = Started \<and> openMmux (heap w x) \<and> mmuxServer x (tasks w) = Some c \<and> derivable w x \<and>
     (ts = [] \<and> leafStops E (heap w x) \<or>
      containerType (gotype (heap w x)) \<and> listed x False ts w \<and> (\<forall>t \<in> set ts. treeRuns E w x t))"

lemma listed_transfer:
  assumes "listed c own ts w" and "asContainer (heap w1 c) = asContainer (heap w c)"
    and "\<And>y. Name (heap w1 y) = Name (heap w y)"
  shows "listed c own ts w1"
proof -
  have "cpart w1 c = cpart w c" by (simp add: cpart_def assms(2))
  then have sames: "ownNames own c w1 = ownNames own c w" "childOf w1 c = childOf w c" "cpart w1 c = cpart w c"
    by (simp_all add: ownNames_def childOf_def assms(3) fun_eq_iff)
  show ?thesis using assms(1) unfolding listed_def sames assms(2,3) by blast
qed

lemma treeRuns_transfer:
  assumes "treeRuns E w c t"
    and "\<And>y. y \<in> set (nodes t) \<Longrightarrow> core (heap w1 y) = core (heap w y) \<and> mmuxServer y (tasks w1) = mmuxServer y (tasks w)"
    and "\<And>y. Name (heap w1 y) = Name (heap w y) \<and> container (heap w1 y) = container (heap w y)"
  shows "treeRuns E w1 c t"
  using assms(1,2)
proof (induction t arbitrary: c)
  case (CNode x ts)
  have x: "core (heap w1 x) = core (heap w x)" "mmuxServer x (tasks w1) = mmuxServer x (tasks w)" using CNode.prems(2) by simp_all
  note same = core_eqD [OF x(1)]
  have "derivable w x" using CNode.prems(1) by simp
  then have "derivable w1 x" by (rule derivable_transfer) (use same assms(3) in simp_all)
  moreover have "listed x False ts w1" if "listed x False ts w" by (rule listed_transfer [OF that]) (simp_all add: assms(3) same)
  moreover have "treeRuns E w1 x t" if "t \<in> set ts" "treeRuns E w x t" for t
    by (rule CNode.IH [OF that]) (use CNode.prems(2) that in auto)
  moreover have "leafStops E (heap w1 x) = leafStops E (heap w x)" by (simp add: leafStops_def same split: gotype.split)
  ultimately show ?case using CNode.prems(1) x(2) same by auto
qed

text \<open>A container that stops still lists what it listed, and that still runs.\<close>

lemma below_stopping:
  assumes "listed x own ts w" and "\<forall>t \<in> set ts. treeRuns E w x t" and "x \<notin> set (allNodes ts)"
  shows "listed x own ts (stored x b n D (upd x (setStage E Stopping) w))"
    and "\<forall>t \<in> set ts. treeRuns E (stored x b n D (upd x (setStage E Stopping) w)) x t"
proof -
  let ?w0 = "stored x b n D (upd x (setStage E Stopping) w)"
  show "listed x own ts ?w0" by (rule listed_transfer [OF assms(1)]) simp_all
  show "\<forall>t \<in> set ts. treeRuns E ?w0 x t"
  proof
    fix t assume t: "t \<in> set ts"
    show "treeRuns E ?w0 x t" by (rule treeRuns_transfer [of E w]) (use assms(2,3) t in auto)
  qed
qed

section \<open>Shutting one component down\<close>

text \<open>What shutting the components \<open>xs\<close> of \<open>c\<close> down leaves alone. Of \<open>c\<close> itself only what its \<^verbatim>\<open>Stop\<close> changes differs.\<close>

definition frameStop :: "cid \<Rightarrow> cid list \<Rightarrow> world \<Rightarrow> world \<Rightarrow> bool" where
  "frameStop c xs w w1 \<longleftrightarrow>
     (\<forall>y. y \<noteq> c \<longrightarrow> y \<notin> set xs \<longrightarrow> heap w1 y = heap w y) \<and>
     (\<forall>y. Name (heap w1 y) = Name (heap w y) \<and> container (heap w1 y) = container (heap w y)) \<and>
     (\<forall>y. y \<notin> set xs \<longrightarrow> mmuxServer y (tasks w1) = mmuxServer y (tasks w)) \<and>
     (\<exists>a fs q. heap w1 c = (heap w c)\<lparr>asContainer := a, userFields := fs, asPersistence := q\<rparr>) \<and>
     rootContainer w1 = rootContainer w \<and> topLevelComponents w1 = topLevelComponents w \<and>
     (persistReady w \<longrightarrow> persistReady w1)"

lemma frameStop_own:
  "w1 = upd c (\<lambda>d. d\<lparr>asContainer := a, userFields := fs, asPersistence := q\<rparr>) w \<Longrightarrow>
   (persistReady w \<longrightarrow> persistReady w1) \<Longrightarrow> frameStop c [] w w1"
  unfolding frameStop_def by simp blast

lemma frameStop_refl: "frameStop c [] w w"
  by (rule frameStop_own [where a = "asContainer (heap w c)" and fs = "userFields (heap w c)" and q = "asPersistence (heap w c)"])
    (simp_all add: upd_id)

lemma frameStop_trans:
  assumes "frameStop c xs w w1" and "frameStop c ys w1 w2" and "set xs \<subseteq> set zs" and "set ys \<subseteq> set zs"
  shows "frameStop c zs w w2"
proof -
  obtain a fs q a1 fs1 q1 where "heap w1 c = (heap w c)\<lparr>asContainer := a, userFields := fs, asPersistence := q\<rparr>"
    "heap w2 c = (heap w1 c)\<lparr>asContainer := a1, userFields := fs1, asPersistence := q1\<rparr>"
    using assms(1,2) unfolding frameStop_def by metis
  then have "heap w2 c = (heap w c)\<lparr>asContainer := a1, userFields := fs1, asPersistence := q1\<rparr>" by simp
  moreover have "heap w2 y = heap w y" if "y \<noteq> c" "y \<notin> set zs" for y
    using assms that unfolding frameStop_def by (metis subset_iff)
  moreover have "mmuxServer y (tasks w2) = mmuxServer y (tasks w)" if "y \<notin> set zs" for y
    using assms that unfolding frameStop_def by (metis subset_iff)
  moreover have "Name (heap w2 y) = Name (heap w y) \<and> container (heap w2 y) = container (heap w y)" for y
    using assms(1,2) by (simp add: frameStop_def)
  moreover have "rootContainer w2 = rootContainer w" "topLevelComponents w2 = topLevelComponents w"
    "persistReady w \<longrightarrow> persistReady w2"
    using assms(1,2) by (simp_all add: frameStop_def)
  ultimately show ?thesis unfolding frameStop_def by blast
qed

text \<open>What a \<^verbatim>\<open>Shutdown\<close> to \<open>x\<close>, with the nodes \<open>zs\<close>, does to its container \<open>c\<close> and the rest.\<close>

definition shutFrom :: "cid \<Rightarrow> cid \<Rightarrow> cid list \<Rightarrow> world \<Rightarrow> world \<Rightarrow> bool" where
  "shutFrom c x zs w w1 \<longleftrightarrow>
     frameStop c zs w w1 \<and> asContainer (heap w1 c) \<noteq> None \<and>
     (\<exists>h. cpart w1 c = removeName (Name (heap w x)) ((cpart w c)\<lparr>cHandlers := h\<rparr>)) \<and>
     (\<forall>z \<in> set zs. Stage (heap w1 z) = Teareddown)"

lemma shutFrom_single:
  assumes "x \<noteq> c" and "asContainer (heap w c) \<noteq> None" and "gone (heap w x) d" and "asPersistence d = asPersistence (heap w x)"
    and heap1: "\<And>y. heap w1 y = (if y = c then (heap w c)\<lparr>asContainer :=
      map_option (\<lambda>k. removeName (Name (heap w x)) (k\<lparr>cHandlers := h k\<rparr>)) (asContainer (heap w c))\<rparr>
      else if y = x then d else heap w y)"
    and "topLevelComponents w1 = topLevelComponents w" and "rootContainer w1 = rootContainer w"
    and "\<And>y. y \<noteq> x \<Longrightarrow> mmuxServer y (tasks w1) = mmuxServer y (tasks w)"
  shows "shutFrom c x [x] w w1"
proof -
  let ?n = "Name (heap w x)"
  have "asContainer (heap w1 c) = Some (removeName ?n ((cpart w c)\<lparr>cHandlers := h (cpart w c)\<rparr>))"
    using assms(2) by (auto simp: heap1 cpart_def)
  then have c1: "asContainer (heap w1 c) \<noteq> None" "cpart w1 c = removeName ?n ((cpart w c)\<lparr>cHandlers := h (cpart w c)\<rparr>)"
    by (simp_all add: cpart_def)
  have "persistence (cpart w1 y) = persistence (cpart w y)" for y
    using c1(2) assms(1,3) by (cases "y = c") (auto simp: cpart_def heap1 gone_def)
  moreover have "persistenceOf w1 y = persistenceOf w y" for y using assms(4) by (simp add: persistenceOf_def heap1)
  ultimately have "persistReady w \<longrightarrow> persistReady w1" using persistReady_transfer assms(7) by simp
  moreover have "\<exists>a fs q. heap w1 c = (heap w c)\<lparr>asContainer := a, userFields := fs, asPersistence := q\<rparr>"
    by (intro exI [of _ "asContainer (heap w1 c)"] exI [of _ "userFields (heap w c)"] exI [of _ "asPersistence (heap w c)"])
      (simp add: heap1)
  ultimately have "frameStop c [x] w w1"
    using assms(1,3,6-8) by (simp add: frameStop_def heap1 gone_def)
  then show ?thesis using c1 assms(1,3) by (auto simp: shutFrom_def heap1 gone_def)
qed

lemma finish_component:
  assumes "derivable w x" and "x \<noteq> c"
  shows "\<exists>F h. runBind (removeHttpHandlers c x w) (\<lambda>_ v. tearDownComponent E c x (upd x (setStage E Stopped) v)) =
      Done None ((updPart c (\<lambda>k. removeName (Name (heap w x)) (k\<lparr>cHandlers := h k\<rparr>)) (upd x F w))
        \<lparr>tornDown := tornDown w @ [x]\<rparr>) \<and> gone (heap w x) (F (heap w x)) \<and> asPersistence (F (heap w x)) = asPersistence (heap w x)"
proof -
  obtain u where h: "removeHttpHandlers c x w =
     Done () (updPart c (\<lambda>k. k\<lparr>cHandlers := map_option (dropHandlers (ownHandlers w x)) (cHandlers k)\<rparr>) (upd x (\<lambda>d. d\<lparr>uri := u\<rparr>) w))"
    using removeHttpHandlers_Done [OF assms(1)] by blast
  let ?F = "\<lambda>d. setStage E Teareddown (tearDown (setStage E Stopped (d\<lparr>uri := u\<rparr>)))"
  have c: "core (tearDown d) = core (d\<lparr>mmux := False\<rparr>)" for d by simp
  have "gone (heap w x) (?F (heap w x)) \<and> asPersistence (?F (heap w x)) = asPersistence (heap w x)"
    using core_eqD [OF c] by (simp add: gone_def stateOf_def running_def stage_order)
  then show ?thesis
    using assms(2)
    by (intro exI [of _ ?F] exI [of _ "\<lambda>k. map_option (dropHandlers (ownHandlers w x)) (cHandlers k)"])
      (simp add: h tearDownComponent_def Let_def removeComponent_def upd_updPart upd_upd upd_tornDown updPart_updPart)
qed

text \<open>The two calls of the state machine, around a \<^verbatim>\<open>Stop\<close> that shuts the components \<open>zs\<close> down.\<close>

lemma shut_component:
  assumes "Stage (heap w x) = Started" and "openMmux (heap w x)" and "mmuxServer x (tasks w) = Some c" and "derivable w x"
    and "x \<noteq> c" and "c \<notin> set zs" and "x \<notin> set zs" and "persistReady w" and "asContainer (heap w c) \<noteq> None"
    and stop: "\<And>b n D. let w0 = stored x b n D (upd x (setStage E Stopping) w) in
      \<exists>w1. virtualStop E halt x w0 = Done None w1 \<and> frameStop x zs w0 w1 \<and>
        (\<forall>z \<in> set zs. Stage (heap w1 z) = Teareddown) \<and> tornDown w1 = tornDown w @ ds"
  shows "\<exists>w2. SendSyncMessage E halt x ControlMsgType (controlLookup Shutdown) w = Done None w2 \<and>
    shutFrom c x (x # zs) w w2 \<and> tornDown w2 = tornDown w @ ds @ [x]"
proof -
  let ?ctx = "withValue background ControlMsgType (ControlI Shutdown)"
  have "persistReady (upd x (setStage E Stopping) w)" using assms(8) by (simp add: persistReady_upd)
  then obtain b n D where b: "deferPersist E x (Done None (upd x (setStage E Stopping) w)) =
      Done None (stored x b n D (upd x (setStage E Stopping) w))"
    using deferPersist_ready by blast
  define w0 where "w0 = stored x b n D (upd x (setStage E Stopping) w)"
  have fsm1: "componentLifecycleFSM E halt c ?ctx x w = Done None w0"
    using assms(1) b by (simp add: componentLifecycleFSM_def stageSwitch_def controlComponent_def withValue_def w0_def)
  have st0: "Stage (heap w0 x) = Stopping" by (simp add: w0_def)
  obtain w1 where w1: "virtualStop E halt x w0 = Done None w1" "frameStop x zs w0 w1"
    "\<forall>z \<in> set zs. Stage (heap w1 z) = Teareddown" "tornDown w1 = tornDown w @ ds"
    using stop [of b n D] unfolding w0_def [symmetric] Let_def by blast
  have same: "Name (heap w1 y) = Name (heap w y)" "container (heap w1 y) = container (heap w y)" for y
    using w1(2) by (simp_all add: frameStop_def w0_def)
  have c1: "heap w1 c = heap w c" using w1(2) assms(5,6) by (simp add: frameStop_def w0_def)
  obtain a fs q where x1: "heap w1 x = (heap w0 x)\<lparr>asContainer := a, userFields := fs, asPersistence := q\<rparr>"
    using w1(2) unfolding frameStop_def by blast
  have "derivable w1 x" by (rule derivable_transfer [OF assms(4)]) (simp_all add: x1 same w0_def)
  then obtain F h where fin: "runBind (removeHttpHandlers c x w1) (\<lambda>_ v. tearDownComponent E c x (upd x (setStage E Stopped) v)) =
      Done None ((updPart c (\<lambda>k. removeName (Name (heap w1 x)) (k\<lparr>cHandlers := h k\<rparr>)) (upd x F w1))
        \<lparr>tornDown := tornDown w1 @ [x]\<rparr>)" "gone (heap w1 x) (F (heap w1 x))" "asPersistence (F (heap w1 x)) = asPersistence (heap w1 x)"
    using finish_component [OF _ assms(5), of w1 E] by blast
  let ?w2 = "(updPart c (\<lambda>k. removeName (Name (heap w1 x)) (k\<lparr>cHandlers := h k\<rparr>)) (upd x F w1))\<lparr>tornDown := tornDown w1 @ [x]\<rparr>"
  have s1: "shutFrom c x [x] w1 v" if "\<And>y. heap v y = (if y = x then (heap ?w2 x)\<lparr>persistanceCache := b'\<rparr> else heap ?w2 y)"
    "topLevelComponents v = topLevelComponents w1" "rootContainer v = rootContainer w1"
    "\<And>y. y \<noteq> x \<Longrightarrow> mmuxServer y (tasks v) = mmuxServer y (tasks w1)" for v b'
    by (rule shutFrom_single [where d = "(F (heap w1 x))\<lparr>persistanceCache := b'\<rparr>" and h = h])
      (use assms(5,9) c1 fin(2,3) that in \<open>simp_all add: gone_def\<close>)
  have "persistReady w1" using w1(2) assms(8) by (simp add: frameStop_def w0_def persistReady_upd)
  moreover have "shutFrom c x [x] w1 (endMmux c x ?w2)"
    by (rule s1 [where b' = "persistanceCache (F (heap w1 x))"])
      (use assms(5) in \<open>simp_all add: mmuxServer_endMmux\<close>, simp_all add: endMmux_def)
  ultimately have "persistReady (endMmux c x ?w2)" by (simp add: shutFrom_def frameStop_def)
  then have "persistReady ?w2" by simp
  then obtain b2 n2 D2 where b2: "deferPersist E x (Done None ?w2) = Done None (stored x b2 n2 D2 ?w2)"
    using deferPersist_ready by blast
  let ?w3 = "endMmux c x (stored x b2 n2 D2 ?w2)"
  have "stopComponent E halt c x w0 = Done None ?w2"
    using w1(1) fin(1) by (simp add: stopComponent_def)
  then have "componentLifecycleFSM E halt c ?ctx x w0 = Done None (stored x b2 n2 D2 ?w2)"
    using b2 by (simp add: componentLifecycleFSM_def stageSwitch_def w0_def)
  then have send: "SendSyncMessage E halt x ControlMsgType (controlLookup Shutdown) w = Done None ?w3"
    using fsm1 assms(1-3) st0
    by (simp add: SendSyncMessage_idle Let_def mmuxRound_def serveMessage_def controlLookup_def shutdownMessage_def
        reply_def stage_order)
  have s2: "shutFrom c x [x] w1 ?w3"
    by (rule s1 [where b' = b2]) (simp_all add: mmuxServer_endMmux, simp_all add: endMmux_def)
  have f2: "frameStop c [x] w1 ?w3" using s2 by (simp add: shutFrom_def)
  have "heap ?w3 z = heap w1 z" if "z \<in> set zs" for z
    using f2 that assms(6,7) unfolding frameStop_def by auto
  then have "\<forall>z \<in> set (x # zs). Stage (heap ?w3 z) = Teareddown"
    using w1(3) s2 by (auto simp: shutFrom_def)
  moreover have "frameStop c (x # zs) w ?w3"
  proof -
    have f0: "frameStop x [] w0 w0" by (rule frameStop_refl)
    have "persistReady w \<longrightarrow> persistReady w0" by (simp add: w0_def persistReady_upd)
    then show ?thesis using w1(2) f2 c1 assms(5) unfolding frameStop_def w0_def by auto
  qed
  moreover have "cpart w1 c = cpart w c" by (simp add: cpart_def c1)
  ultimately have "shutFrom c x (x # zs) w ?w3" using s2 same by (simp add: shutFrom_def)
  then show ?thesis using send w1(4) by (intro exI [of _ ?w3]) simp
qed

text \<open>The \<^verbatim>\<open>Stop\<close> of a component without parts.\<close>

lemma virtualStop_leaf:
  assumes "leafStops E (heap w x)"
  shows "\<exists>w1. virtualStop E halt x w = Done None w1 \<and> frameStop x [] w w1 \<and> tornDown w1 = tornDown w"
proof -
  have hook: "\<exists>w1. runHook hk ty x w = Done None w1 \<and> frameStop x [] w w1 \<and> tornDown w1 = tornDown w"
    if ok: "returns None (hk ty)" for hk :: "string \<Rightarrow> gofield list \<Rightarrow> hookResult" and ty
  proof -
    obtain fs where fs: "hk ty (userFields (heap w x)) = HookRet fs None" using ok by (auto simp: returns_def)
    let ?w1 = "upd x (\<lambda>d. d\<lparr>userFields := fs\<rparr>) w"
    have "frameStop x [] w ?w1"
      by (rule frameStop_own [where a = "asContainer (heap w x)" and fs = fs and q = "asPersistence (heap w x)"])
        (simp_all add: upd_def persistReady_upd [unfolded upd_def])
    then show ?thesis using fs by (simp add: runHook_def)
  qed
  show ?thesis
  proof (cases "gotype (heap w x)")
    case PersistenceT
    define db where "db = fst (Disconnect (dbHandle (persistenceOf w x)))"
    have db: "Disconnect (dbHandle (persistenceOf w x)) = (db, None)" "dbHandle (persistenceOf w x) \<noteq> None \<longrightarrow> db \<noteq> None"
      using assms PersistenceT unfolding db_def
      by (auto simp: leafStops_def Disconnect_def persistenceOf_def split: option.splits if_splits)
    let ?q = "map_option (\<lambda>k. k\<lparr>dbHandle := db\<rparr>) (asPersistence (heap w x))"
    let ?w1 = "upd x (\<lambda>d. d\<lparr>asPersistence := map_option (\<lambda>k. k\<lparr>dbHandle := db\<rparr>) (asPersistence d)\<rparr>) w"
    have "persistReady ?w1" if "persistReady w"
      by (rule persistReady_transfer [OF that])
        (use db(2) in \<open>auto simp: usable_def persistenceOf_def cpart_def split: option.splits if_splits\<close>)
    then have "frameStop x [] w ?w1"
      by (intro frameStop_own [where a = "asContainer (heap w x)" and fs = "userFields (heap w x)" and q = ?q])
        (simp_all add: upd_def)
    then show ?thesis using PersistenceT db(1) by (simp add: virtualStop_def persistenceStop_def)
  qed (use assms hook frameStop_refl in \<open>simp_all add: leafStops_def virtualStop_def\<close>)
qed

lemma shut_leaf:
  assumes "Stage (heap w x) = Started" and "openMmux (heap w x)" and "mmuxServer x (tasks w) = Some c" and "derivable w x"
    and "x \<noteq> c" and "persistReady w" and "asContainer (heap w c) \<noteq> None" and "leafStops E (heap w x)"
  shows "\<exists>w1. SendSyncMessage E halt x ControlMsgType (controlLookup Shutdown) w = Done None w1 \<and>
    shutFrom c x [x] w w1 \<and> tornDown w1 = tornDown w @ [x]"
proof -
  have "let w0 = stored x b n D (upd x (setStage E Stopping) w) in
      \<exists>w1. virtualStop E halt x w0 = Done None w1 \<and> frameStop x [] w0 w1 \<and>
        (\<forall>z \<in> set []. Stage (heap w1 z) = Teareddown) \<and> tornDown w1 = tornDown w @ []" for b n D
  proof -
    have "leafStops E (heap (stored x b n D (upd x (setStage E Stopping) w)) x) = leafStops E (heap w x)"
      by (simp add: leafStops_def split: gotype.split)
    then show ?thesis
      using virtualStop_leaf [of E "stored x b n D (upd x (setStage E Stopping) w)" x halt] assms(8) by (auto simp: Let_def)
  qed
  from shut_component [OF assms(1-5) _ _ assms(6,7) this] show ?thesis by simp
qed

section \<open>The loop\<close>

text \<open>After the last component is gone the container lists the others, which still run.\<close>

lemma listed_shrinks:
  assumes "listed c own (ts @ [t]) w" and "shutFrom c (root t) zs w w1"
  shows "listed c own ts w1"
proof -
  let ?n = "Name (heap w (root t))"
  obtain h where part: "cpart w1 c = removeName ?n ((cpart w c)\<lparr>cHandlers := h\<rparr>)"
    using assms(2) by (auto simp: shutFrom_def)
  have same: "Name (heap w1 y) = Name (heap w y)" for y using assms(2) by (simp add: shutFrom_def frameStop_def)
  have names: "components (cpart w c) = (ownNames own c w @ map (\<lambda>t. Name (heap w (root t))) ts) @ [?n]"
    using assms(1) by (simp add: listed_def)
  have d: "distinct (components (cpart w c))" using assms(1) unfolding listed_def by blast
  have comps: "components (cpart w1 c) = ownNames own c w @ map (\<lambda>t. Name (heap w (root t))) ts"
    unfolding part by (rule removeName_last) (use names d in simp_all)
  have child: "childOf w1 c n = childOf w c n" if "n \<noteq> ?n" for n
    using that by (simp add: childOf_def part mapGet_removeName)
  have "?n \<notin> set (ownNames own c w)" "?n \<notin> (\<lambda>t. Name (heap w (root t))) ` set ts" using d unfolding names by simp_all
  then have "own \<longrightarrow> Name (heap w c) \<noteq> ?n" "\<forall>u \<in> set ts. Name (heap w (root u)) \<noteq> ?n"
    by (auto simp: ownNames_def) (metis imageI)+
  then have "own \<longrightarrow> childOf w1 c (Name (heap w1 c)) = Some c" "\<forall>u \<in> set ts. childOf w1 c (Name (heap w1 (root u))) = Some (root u)"
    using assms(1) child same unfolding listed_def by simp_all
  moreover have "asContainer (heap w1 c) \<noteq> None" using assms(2) by (simp add: shutFrom_def)
  moreover have "distinct (components (cpart w1 c))" unfolding comps using d unfolding names by simp
  ultimately show ?thesis using comps same by (simp add: listed_def ownNames_def)
qed

text \<open>
  \<open>goesDown\<close> says what a \<^verbatim>\<open>Shutdown\<close> to the root of a tree does, whatever the container; with fuel for
  each of its nodes it returns.
\<close>

definition goesDown :: "env \<Rightarrow> ctree \<Rightarrow> bool" where
  "goesDown E t \<longleftrightarrow> (\<forall>w c n. treeRuns E w c t \<longrightarrow> persistReady w \<longrightarrow> distinct (c # nodes t) \<longrightarrow>
     asContainer (heap w c) \<noteq> None \<longrightarrow> length (nodes t) \<le> n \<longrightarrow>
     (\<exists>w1. SendSyncMessage E (containerStop E n) (root t) ControlMsgType (controlLookup Shutdown) w = Done None w1 \<and>
        shutFrom c (root t) (nodes t) w w1 \<and> tornDown w1 = tornDown w @ shutOrder t))"

lemma containerStop_trees:
  assumes "\<forall>t \<in> set ts. goesDown E t" and "listed c own ts w" and "\<forall>t \<in> set ts. treeRuns E w c t" and "persistReady w"
    and "distinct (c # allNodes ts)" and "length (allNodes ts) < n"
  shows "\<exists>w1. containerStop E n c w = Done None w1 \<and> frameStop c (allNodes ts) w w1 \<and>
    listed c own [] w1 \<and> (\<forall>z \<in> set (allNodes ts). Stage (heap w1 z) = Teareddown) \<and>
    tornDown w1 = tornDown w @ concat (map shutOrder (rev ts))"
  using assms
proof (induction ts arbitrary: w n rule: rev_induct)
  case Nil
  then obtain m where n: "n = Suc m" by (cases n) auto
  have "containerStop E n c w = Done None w"
    using Nil.prems(2) by (simp add: n listed_def ownNames_def childOf_def Matches_def split: if_splits)
  then show ?case using Nil.prems(2) frameStop_refl by auto
next
  case (snoc t ts)
  obtain m where n: "n = Suc m" and m: "length (allNodes (ts @ [t])) \<le> m" using snoc.prems(6) by (cases n) auto
  have k: "0 < length (nodes t)" by (cases t) simp
  have as: "asContainer (heap w c) \<noteq> None" and rc: "root t \<noteq> c"
    using snoc.prems(2,5) root_node [of t] by (auto simp: listed_def)
  have t: "goesDown E t" "treeRuns E w c t" "distinct (c # nodes t)" "length (nodes t) \<le> m"
    using snoc.prems(1,3,5) m by simp_all
  obtain w1 where w1: "SendSyncMessage E (containerStop E m) (root t) ControlMsgType (controlLookup Shutdown) w = Done None w1"
    "shutFrom c (root t) (nodes t) w w1" "tornDown w1 = tornDown w @ shutOrder t"
    using t as snoc.prems(4) unfolding goesDown_def by blast
  have fr: "frameStop c (nodes t) w w1" using w1(2) by (simp add: shutFrom_def)
  have out: "y \<noteq> c \<and> y \<notin> set (nodes t)" if "y \<in> set (allNodes ts)" for y using snoc.prems(5) that by auto
  have runs: "treeRuns E w1 c u" if "u \<in> set ts" for u
  proof (rule treeRuns_transfer)
    show "treeRuns E w c u" using snoc.prems(3) that by simp
    show "core (heap w1 y) = core (heap w y) \<and> mmuxServer y (tasks w1) = mmuxServer y (tasks w)" if "y \<in> set (nodes u)" for y
    proof -
      have "y \<in> set (allNodes ts)" using that \<open>u \<in> set ts\<close> by auto
      then have "heap w1 y = heap w y" "mmuxServer y (tasks w1) = mmuxServer y (tasks w)"
        using fr out [of y] by (simp_all add: frameStop_def)
      then show ?thesis by simp
    qed
    show "Name (heap w1 y) = Name (heap w y) \<and> container (heap w1 y) = container (heap w y)" for y
      using fr by (simp add: frameStop_def)
  qed
  have "persistReady w1" using fr snoc.prems(4) by (simp add: frameStop_def)
  moreover have "length (allNodes ts) + length (nodes t) \<le> m" using m by simp
  then have "length (allNodes ts) < m" using k by linarith
  moreover have "\<forall>u \<in> set ts. goesDown E u" "distinct (c # allNodes ts)" using snoc.prems(1,5) by simp_all
  ultimately obtain w2 where w2: "containerStop E m c w1 = Done None w2" "frameStop c (allNodes ts) w1 w2" "listed c own [] w2"
    "\<forall>z \<in> set (allNodes ts). Stage (heap w2 z) = Teareddown" "tornDown w2 = tornDown w1 @ concat (map shutOrder (rev ts))"
    using snoc.IH [OF _ listed_shrinks [OF snoc.prems(2) w1(2)]] runs by blast
  have "containerStop E n c w = Done None w2"
    unfolding n using snoc.prems(2) rc w1(1) w2(1) by (subst containerStop_round) (auto simp: listed_def)
  moreover have "frameStop c (allNodes (ts @ [t])) w w2" by (rule frameStop_trans [OF fr w2(2)]) auto
  moreover have "Stage (heap w2 z) = Teareddown" if "z \<in> set (nodes t)" for z
  proof -
    have "z \<noteq> c" "z \<notin> set (allNodes ts)" using snoc.prems(5) that by auto
    then have "heap w2 z = heap w1 z" using w2(2) by (simp add: frameStop_def)
    then show ?thesis using w1(2) that by (simp add: shutFrom_def)
  qed
  ultimately show ?case using w1(3) w2(3-5) by (intro exI [of _ w2]) auto
qed

lemma tree_goesDown: "goesDown E t"
proof (induction t)
  case (CNode x ts)
  show ?case
    unfolding goesDown_def
  proof (intro allI impI)
    fix w c n
    assume runs: "treeRuns E w c (CNode x ts)" and po: "persistReady w" and d: "distinct (c # nodes (CNode x ts))"
      and as: "asContainer (heap w c) \<noteq> None" and n: "length (nodes (CNode x ts)) \<le> n"
    have x: "Stage (heap w x) = Started" "openMmux (heap w x)" "mmuxServer x (tasks w) = Some c" "derivable w x" "x \<noteq> c"
      using runs d by auto
    show "\<exists>w1. SendSyncMessage E (containerStop E n) (root (CNode x ts)) ControlMsgType (controlLookup Shutdown) w = Done None w1 \<and>
        shutFrom c (root (CNode x ts)) (nodes (CNode x ts)) w w1 \<and> tornDown w1 = tornDown w @ shutOrder (CNode x ts)"
    proof (cases "ts = [] \<and> leafStops E (heap w x)")
      case True
      then show ?thesis using shut_leaf [OF x po as] by auto
    next
      case False
      have k: "containerType (gotype (heap w x))" "listed x False ts w" "\<forall>t \<in> set ts. treeRuns E w x t"
        using runs False by auto
      have d0: "x \<notin> set (allNodes ts)" "c \<notin> set (allNodes ts)" "distinct (x # allNodes ts)" "length (allNodes ts) < n"
        using d n by simp_all
      let ?w0 = "\<lambda>b m D. stored x b m D (upd x (setStage E Stopping) w)"
      have "let w0 = ?w0 b m D in
        \<exists>w1. virtualStop E (containerStop E n) x w0 = Done None w1 \<and> frameStop x (allNodes ts) w0 w1 \<and>
          (\<forall>z \<in> set (allNodes ts). Stage (heap w1 z) = Teareddown) \<and>
          tornDown w1 = tornDown w @ concat (map shutOrder (rev ts))" for b m D
      proof -
        have "persistReady (?w0 b m D)" using po by (simp add: persistReady_upd)
        then obtain w1 where "containerStop E n x (?w0 b m D) = Done None w1" "frameStop x (allNodes ts) (?w0 b m D) w1"
          "\<forall>z \<in> set (allNodes ts). Stage (heap w1 z) = Teareddown" "tornDown w1 = tornDown w @ concat (map shutOrder (rev ts))"
          using containerStop_trees [OF _ below_stopping [OF k(2,3) d0(1)] _ d0(3,4)] CNode.IH by fastforce
        then show ?thesis using k(1) by (auto simp: Let_def virtualStop_container)
      qed
      from shut_component [OF x d0(2,1) po as this] show ?thesis by auto
    qed
  qed
qed

lemma containerStop_nested:
  assumes "listed c own ts w" and "\<forall>t \<in> set ts. treeRuns E w c t" and "persistReady w"
    and "distinct (c # allNodes ts)" and "length (allNodes ts) < n"
  shows "\<exists>w1. containerStop E n c w = Done None w1 \<and> frameStop c (allNodes ts) w w1 \<and>
    listed c own [] w1 \<and> (\<forall>z \<in> set (allNodes ts). Stage (heap w1 z) = Teareddown) \<and>
    tornDown w1 = tornDown w @ concat (map shutOrder (rev ts))"
  using containerStop_trees [OF _ assms] tree_goesDown by blast

end
