(* ===== verification/Container_Stop.thy ===== *)
theory Container_Stop
  imports Messages Fuel Nested_Stop
begin

text \<open>
  \<^verbatim>\<open>Container.Stop\<close> as a whole: it shuts the components of a container down in the reverse order of
  their activation, and the two situations in which its loop never ends.
\<close>

section \<open>The loop that ends\<close>

text \<open>
  C12: \<^verbatim>\<open>Container.Stop\<close> on a container all of whose components run, the components of the containers
  among them too, to any depth, each served and with no message waiting, returns, with any fuel larger than their number, when the components
  stop without an error and persistence is off or works. It shuts them down depth first: last in, first out, each container after
  everything it holds, each component exactly once; and it leaves the container with nothing but
  itself, if it was its own first component.
\<close>

theorem Stop_is_last_in_first_out:
  assumes "listed c own ts w" and "\<forall>t \<in> set ts. treeRuns E w c t" and "persistReady w" and "distinct (c # allNodes ts)"
  shows "\<exists>w1. (\<forall>n > length (allNodes ts). containerStop E n c w = Done None w1) \<and>
    tornDown w1 = tornDown w @ concat (map shutOrder (rev ts)) \<and> components (cpart w1 c) = ownNames own c w \<and>
    (\<forall>x \<in> set (allNodes ts). Stage (heap w1 x) = Teareddown)"
proof -
  let ?k = "length (allNodes ts)"
  obtain w1 where w1: "containerStop E (Suc ?k) c w = Done None w1" "frameStop c (allNodes ts) w w1" "listed c own [] w1"
    "\<forall>x \<in> set (allNodes ts). Stage (heap w1 x) = Teareddown" "tornDown w1 = tornDown w @ concat (map shutOrder (rev ts))"
    using containerStop_nested [OF assms, of "Suc ?k"] by auto
  have "containerStop E n c w = Done None w1" if "?k < n" for n
    using w1(1) containerStop_more_fuel [of E "Suc ?k" c w n] that by simp
  moreover have "components (cpart w1 c) = ownNames own c w"
    using w1(2,3) by (simp add: listed_def ownNames_def frameStop_def)
  ultimately show ?thesis using w1(4,5) by blast
qed

text \<open>The tables of a container that lists the given components.\<close>

definition listing :: "string list \<Rightarrow> cid list \<Rightarrow> containerPart" where
  "listing names xs = emptyPart\<lparr>components := names,
     cComponents := Some (map_of (zip names (map2 (\<lambda>n x. \<lparr>cName = n, ccomp = Some x\<rparr>) names xs)))\<rparr>"

text \<open>A container with two jobs, added to it in this order.\<close>

definition jobNamed :: "cid \<Rightarrow> string \<Rightarrow> component" where
  "jobNamed x name = workingJob\<lparr>self := x, Name := name\<rparr>"

definition sampleJobs :: "string list \<Rightarrow> world" where
  "sampleJobs order = sampleServing
     \<lparr>heap := (heap sampleServing)(0 := busyRoot\<lparr>asContainer := Some (emptyPart\<lparr>components := order,
         cComponents := Some [''root'' \<mapsto> \<lparr>cName = ''root'', ccomp = Some 0\<rparr>,
           ''a'' \<mapsto> \<lparr>cName = ''a'', ccomp = Some 5\<rparr>, ''b'' \<mapsto> \<lparr>cName = ''b'', ccomp = Some 6\<rparr>]\<rparr>)\<rparr>,
         5 := jobNamed 5 ''a'', 6 := jobNamed 6 ''b''),
      tasks := [MmuxTask 0 0, MmuxTask 0 5, MmuxTask 0 6]\<rparr>"

lemma jobNamed_sel [simp]:
  "Name (jobNamed x n) = n" "Stage (jobNamed x n) = Started" "mmux (jobNamed x n)" "mmuxBuffer (jobNamed x n) = None"
  "gotype (jobNamed x n) = UserT ''Job''" "container (jobNamed x n) = Some 0"
  by (simp_all add: jobNamed_def)

lemma sampleJobs_sel [simp]:
  "heap (sampleJobs order) 5 = jobNamed 5 ''a''" "heap (sampleJobs order) 6 = jobNamed 6 ''b''"
  "Name (heap (sampleJobs order) 0) = ''root''" "container (heap (sampleJobs order) 0) = None"
  "Stage (heap (sampleJobs order) 0) = Started"
  "tasks (sampleJobs order) = [MmuxTask 0 0, MmuxTask 0 5, MmuxTask 0 6]"
  "rootContainer (sampleJobs order) = Some 0" "tornDown (sampleJobs order) = []"
  "asContainer (heap (sampleJobs order) 0) \<noteq> None" "persistOff (sampleJobs order)"
  "components (cpart (sampleJobs order) 0) = order"
  "childOf (sampleJobs order) 0 ''root'' = Some 0" "childOf (sampleJobs order) 0 ''a'' = Some 5"
  "childOf (sampleJobs order) 0 ''b'' = Some 6"
  by (simp_all add: sampleJobs_def persistOff_def cpart_def childOf_def emptyPart_def)

text \<open>A container that lists itself, a job and a container, which holds another job.\<close>

definition sampleNested :: world where
  "sampleNested = sampleJobs [''root'', ''a'']
     \<lparr>heap := (heap (sampleJobs [''root'', ''a'']))
        (0 := busyRoot\<lparr>asContainer := Some (listing [''root'', ''a'', ''box''] [0, 5, 3])\<rparr>,
         3 := busyRoot\<lparr>self := 3, Name := ''box'', container := Some 0, asContainer := Some (listing [''b''] [6])\<rparr>,
         6 := (jobNamed 6 ''b'')\<lparr>container := Some 3\<rparr>),
      tasks := [MmuxTask 0 0, MmuxTask 0 5, MmuxTask 0 3, MmuxTask 3 6]\<rparr>"

lemma sampleNested_sel [simp]:
  "Name (heap sampleNested 0) = ''root''" "container (heap sampleNested 0) = None"
  "Name (heap sampleNested 3) = ''box''" "container (heap sampleNested 3) = Some 0"
  "Stage (heap sampleNested 3) = Started" "mmux (heap sampleNested 3)" "mmuxBuffer (heap sampleNested 3) = None" "gotype (heap sampleNested 3) = ContainerT"
  "heap sampleNested 5 = jobNamed 5 ''a''" "heap sampleNested 6 = (jobNamed 6 ''b'')\<lparr>container := Some 3\<rparr>"
  "tasks sampleNested = [MmuxTask 0 0, MmuxTask 0 5, MmuxTask 0 3, MmuxTask 3 6]"
  "tornDown sampleNested = []" "persistOff sampleNested"
  "asContainer (heap sampleNested 0) \<noteq> None" "asContainer (heap sampleNested 3) \<noteq> None"
  "components (cpart sampleNested 0) = [''root'', ''a'', ''box'']" "components (cpart sampleNested 3) = [''b'']"
  "childOf sampleNested 0 ''root'' = Some 0" "childOf sampleNested 0 ''a'' = Some 5"
  "childOf sampleNested 0 ''box'' = Some 3" "childOf sampleNested 3 ''b'' = Some 6"
  by (simp_all add: sampleNested_def listing_def persistOff_def cpart_def childOf_def emptyPart_def busyRoot_def newComponent_def)

theorem Stop_is_last_in_first_out_witness:
  "\<exists>w1. containerStop plainEnv 7 0 sampleNested = Done None w1 \<and> tornDown w1 = [6, 3, 5]"
proof -
  have "containerPaths sampleNested (Some 0) [] \<noteq> None" "containerPaths sampleNested (Some 3) [] \<noteq> None"
    by (subst containerPaths.simps, simp, (subst containerPaths.simps, simp, (subst containerPaths.simps, simp)?)?)+
  then have "derivable sampleNested x" if "x \<in> {3, 5, 6}" for x using that by (auto simp: derivable_def)
  then have "\<forall>t \<in> set [CNode 5 [], CNode 3 [CNode 6 []]]. treeRuns plainEnv sampleNested 0 t"
    by (auto simp: listed_def ownNames_def leafStops_def containerType_def)
  moreover have "listed 0 True [CNode 5 [], CNode 3 [CNode 6 []]] sampleNested"
    by (auto simp: listed_def ownNames_def)
  ultimately show ?thesis
    using Stop_is_last_in_first_out [of 0 True "[CNode 5 [], CNode 3 [CNode 6 []]]" sampleNested plainEnv] persistOff_ready [of sampleNested] by fastforce
qed

section \<open>The loops that do not end\<close>

text \<open>
  C34: contrary to its comment on "case 3", \<^verbatim>\<open>Container.Stop\<close> does not skip the container itself when it
  is listed after a component it holds: with no amount of fuel does the call return.
\<close>

theorem Stop_loops_on_itself_listed_last:
  assumes "1 < length (components (cpart w c))" and "childOf w c (last (components (cpart w c))) = Some c"
  shows "containerStop E n c w = Stuck"
  by (rule containerStop_hangs [of w c c]) (use assms in auto)

theorem Stop_loops_on_itself_listed_last_witness:
  "containerStop plainEnv 1000 0 (sampleJobs [''a'', ''root'']) = Stuck"
  by (rule Stop_loops_on_itself_listed_last) simp_all

text \<open>
  C33: when a component's \<^verbatim>\<open>Stop\<close> fails, \<^verbatim>\<open>Shutdown\<close> reports the error and leaves the component in
  \<^verbatim>\<open>Stopping\<close>, still listed and found. From then on it refuses every message, a second \<^verbatim>\<open>Shutdown\<close>
  among them, and \<^verbatim>\<open>Stop\<close> of its container, when it is the last one listed, never returns.
\<close>

theorem failed_Stop_blocks_container:
  assumes "served_by c x w" and "Stage (heap w x) = Started" and "persistOff w" and "x \<noteq> c"
    and "gotype (heap w x) = UserT ty" and "returns (Some err) (stopHook E ty)"
    and "components (cpart w c) \<noteq> []" and "childOf w c (last (components (cpart w c))) = Some x"
  shows "\<exists>w1. SendSyncMessage E halt x ControlMsgType (controlLookup Shutdown) w = Done (Some err) w1 \<and>
    Stage (heap w1 x) = Stopping \<and> mmux (heap w1 x) \<and> cpart w1 c = cpart w c \<and> tornDown w1 = tornDown w \<and>
    (\<forall>mtype lookup. SendSyncMessage E halt x mtype lookup w1 =
       Done (Some (CannotProcess (Name (heap w x)) Stopping)) w1) \<and>
    (\<forall>n. containerStop E n c w1 = Stuck)"
proof -
  let ?ctx = "withValue background ControlMsgType (ControlI Shutdown)"
  let ?w0 = "upd x (setStage E Stopping) w"
  obtain fs where fs: "stopHook E ty (userFields (heap ?w0 x)) = HookRet fs (Some err)"
    using assms(6) unfolding returns_def by blast
  let ?w1 = "upd x (\<lambda>d. d\<lparr>userFields := fs\<rparr>) ?w0"
  have f1: "componentLifecycleFSM E halt c ?ctx x w = Done None ?w0"
    using assms(2,3)
    by (simp add: componentLifecycleFSM_def stageSwitch_def controlComponent_def withValue_def)
  have "stopComponent E halt c x ?w0 = Done (Some err) ?w1"
    using assms(5) fs by (simp add: stopComponent_def virtualStop_def runHook_def)
  then have f2: "componentLifecycleFSM E halt c ?ctx x ?w0 = Done (Some err) ?w1"
    using assms(3) by (simp add: componentLifecycleFSM_def stageSwitch_def)
  have send: "SendSyncMessage E halt x ControlMsgType (controlLookup Shutdown) w = Done (Some err) ?w1"
    using f1 f2 by (simp add: SendSyncMessage_served [OF assms(1)] mmuxRound_def serveMessage_def
        controlLookup_def shutdownMessage_def reply_def Let_def)
  have part: "cpart ?w1 c = cpart w c" using assms(4) by simp
  have "containerStop E n c ?w1 = Stuck" for n
    using assms(4,7,8) by (intro containerStop_hangs [where y = x]) (simp_all add: part childOf_def)
  then show ?thesis
    using send part assms(1)
    by (intro exI [of _ ?w1]) (simp add: served_by_def SendSyncMessage_def stage_order)
qed

theorem failed_Stop_blocks_container_witness:
  "\<exists>w1. SendSyncMessage (plainEnv\<lparr>stopHook := \<lambda>ty fs. HookRet fs (Some (UserError ''busy''))\<rparr>)
      (containerStop plainEnv 3) 6 ControlMsgType (controlLookup Shutdown) (sampleJobs [''root'', ''a'', ''b'']) =
        Done (Some (UserError ''busy'')) w1 \<and>
    containerStop (plainEnv\<lparr>stopHook := \<lambda>ty fs. HookRet fs (Some (UserError ''busy''))\<rparr>) 1000 0 w1 = Stuck"
proof -
  let ?E = "plainEnv\<lparr>stopHook := \<lambda>ty fs. HookRet fs (Some (UserError ''busy''))\<rparr>"
  have "served_by 0 6 (sampleJobs [''root'', ''a'', ''b''])" by (simp add: served_by_def stage_order)
  from failed_Stop_blocks_container [OF this, of "''Job''" "UserError ''busy''" ?E "containerStop plainEnv 3"]
  show ?thesis by auto
qed

end
