(* ===== verification/Restarting.thy ===== *)
theory Restarting
  imports Messages
begin

text \<open>
  The restart of a component: the cycle through \<^verbatim>\<open>Restarting\<close> after its \<^verbatim>\<open>Start\<close> has returned, and
  what another call of the state machine does to it that gets the mutating lock between the two calls
  of the restart, after the delay. The add-on for persistence is off.
\<close>

section \<open>The two calls of the state machine\<close>

text \<open>Which delay the code sleeps: the one asked for, or five seconds when it is not positive.\<close>

definition effectiveDelay :: "int \<Rightarrow> int" where
  "effectiveDelay delay = (if delay \<le> 0 then defaultDelay else delay)"

lemma fsm_restarting:
  assumes "Stage (heap w x) = Started" and "persistOff w"
  shows "componentLifecycleFSM E halt c (restartCtx delay) x w =
    Done None ((upd x (setStage E Restarting) w)\<lparr>slept := slept w @ [delay]\<rparr>)"
  using assms by (simp add: componentLifecycleFSM_def stageSwitch_def controlComponent_def Let_def)

text \<open>After \<^verbatim>\<open>Start\<close>, however it ended, on a restartable component of the application.\<close>

lemma afterStart_restarts:
  assumes "Stage (heap w x) = Started" and "persistOff w" and "gotype (heap w x) = UserT ty"
    and "restartHook E ty (userFields (heap w x)) = (gs, True, delay)"
  shows "afterStart E halt c x w =
    Done () (addTask (ResumeTask c x (effectiveDelay delay))
      ((upd x (\<lambda>d. setStage E Restarting (d\<lparr>userFields := gs\<rparr>)) w)\<lparr>slept := slept w @ [effectiveDelay delay]\<rparr>))"
  using assms
  by (simp add: afterStart_def virtualIsRestartable_def stage_order Let_def fsm_restarting upd_upd
      flip: effectiveDelay_def)

definition startOutcome :: "env \<Rightarrow> component \<Rightarrow> gofield list" where
  "startOutcome E d = (case startResult E d of HookRet fs err \<Rightarrow> fs | HookPanic fs \<Rightarrow> fs)"

lemma startComponent_outcome:
  "startComponent E halt c x w =
     afterStart E halt c x (upd x (\<lambda>d. d\<lparr>userFields := startOutcome E (heap w x)\<rparr>) w)"
  by (simp add: startComponent_def virtualStart_def startOutcome_def split: hookResult.split)

section \<open>Properties\<close>

text \<open>
  C21: a restartable component whose \<^verbatim>\<open>Start\<close> has come to an end, by a return with or without an error
  or by a panic, is restarted: it goes to \<^verbatim>\<open>Restarting\<close>, sleeps the delay it asked for, or five seconds
  if that is not positive, and then to \<^verbatim>\<open>Started\<close> again, with new goroutines for \<^verbatim>\<open>PreStart\<close> and \<^verbatim>\<open>Start\<close>,
  the same multiplexer and the fields it had.
\<close>

theorem restart_cycle:
  assumes "Stage (heap w x) = Started" and "persistOff w" and "mmux (heap w x)" and "gotype (heap w x) = UserT ty"
    and "restartHook E ty (startOutcome E (heap w x)) = (gs, True, delay)"
  shows "\<exists>w1 w2. runTask E halt (StartTask c x) w = Done () w1 \<and>
    Stage (heap w1 x) = Restarting \<and> State (heap w1 x) = Active \<and>
    slept w1 = slept w @ [effectiveDelay delay] \<and> ResumeTask c x (effectiveDelay delay) \<in> set (tasks w1) \<and>
    runTask E halt (ResumeTask c x (effectiveDelay delay)) w1 = Done () w2 \<and>
    Stage (heap w2 x) = Started \<and> State (heap w2 x) = Active \<and> mmux (heap w2 x) \<and>
    {PreStartTask x, StartTask c x} \<subseteq> set (tasks w2) \<and> slept w2 = slept w1"
proof -
  let ?d = "effectiveDelay delay"
  let ?w0 = "upd x (\<lambda>d. d\<lparr>userFields := startOutcome E (heap w x)\<rparr>) (w\<lparr>tasks := remove1 (StartTask c x) (tasks w)\<rparr>)"
  let ?w1 = "addTask (ResumeTask c x ?d)
      ((upd x (\<lambda>d. setStage E Restarting (d\<lparr>userFields := gs\<rparr>)) ?w0)\<lparr>slept := slept ?w0 @ [?d]\<rparr>)"
  have "afterStart E halt c x ?w0 = Done () ?w1"
    using assms by (intro afterStart_restarts) simp_all
  then have 1: "runTask E halt (StartTask c x) w = Done () ?w1"
    by (simp add: runTask_def startComponent_outcome)
  let ?v = "?w1\<lparr>tasks := remove1 (ResumeTask c x ?d) (tasks ?w1)\<rparr>"
  have v: "Stage (heap ?v x) = Initialized \<or> Stage (heap ?v x) = Restarting" "persistOff ?v" "mmux (heap ?v x)"
    using assms by simp_all
  obtain d1 where d1: "componentLifecycleFSM E halt c (restartCtx ?d) x ?v =
      Done None (addTask (StartTask c x) (addTask (PreStartTask x) (upd x (\<lambda>_. d1) ?v)))" "reaches Started (heap ?v x) d1"
    using start_component [OF v] by blast
  then have 2: "runTask E halt (ResumeTask c x ?d) ?w1 =
      Done () (addTask (StartTask c x) (addTask (PreStartTask x) (upd x (\<lambda>_. d1) ?v)))"
    by (simp add: runTask_def)
  have "stateOf Restarting = Active" "stateOf Started = Active" by (simp_all add: stateOf_def running_def stage_order)
  then show ?thesis
    using 1 2 d1(2) by (intro exI [of _ ?w1] exI) (auto simp: reaches_def)
qed

theorem restart_cycle_witness:
  "\<exists>w1 w2. runTask (plainEnv\<lparr>startHook := \<lambda>ty fs. HookPanic fs, restartHook := \<lambda>ty fs. (fs, True, - 7)\<rparr>)
      (containerStop plainEnv 3) (StartTask 0 5) sampleServing = Done () w1 \<and>
    slept w1 = [5 * 10 ^ 9] \<and> Stage (heap w1 5) = Restarting \<and>
    runTask (plainEnv\<lparr>startHook := \<lambda>ty fs. HookPanic fs, restartHook := \<lambda>ty fs. (fs, True, - 7)\<rparr>)
      (containerStop plainEnv 3) (ResumeTask 0 5 (5 * 10 ^ 9)) w1 = Done () w2 \<and> Stage (heap w2 5) = Started"
proof -
  let ?E = "plainEnv\<lparr>startHook := \<lambda>ty fs. HookPanic fs, restartHook := \<lambda>ty fs. (fs, True, - 7)\<rparr>"
  have "effectiveDelay (- 7) = 5 * 10 ^ 9" by (simp add: effectiveDelay_def defaultDelay_def)
  then show ?thesis
    using restart_cycle [of sampleServing 5 "''Job''" ?E "startOutcome ?E workingJob" "- 7" "containerStop plainEnv 3" 0]
      sampleServing_ok(2) by auto
qed

text \<open>
  C35: a \<^verbatim>\<open>Shutdown\<close> message that meets a component before it is started, or between the two calls of
  the state machine that restart it, reports success but starts the component: the state machine takes
  the transition of that stage, whatever the message, and only the stage \<^verbatim>\<open>Stopping\<close> would make it
  stop. (During the delay itself the lock is held, and the call for the message waits.)
\<close>

theorem Shutdown_starts_waiting_component:
  assumes "served_by c x w" and "persistOff w" and "Stage (heap w x) = Initialized \<or> Stage (heap w x) = Restarting"
  shows "\<exists>w1. SendSyncMessage E halt x ControlMsgType (controlLookup Shutdown) w = Done None w1 \<and>
    Stage (heap w1 x) = Started \<and> {PreStartTask x, StartTask c x, RestartMmuxTask c x} \<subseteq> set (tasks w1) \<and>
    tornDown w1 = tornDown w \<and> mmux (heap w1 x)"
proof -
  let ?ctx = "withValue background ControlMsgType (ControlI Shutdown)"
  have m: "mmux (heap w x)" using assms(1) by (simp add: served_by_def)
  obtain d1 where d1: "componentLifecycleFSM E halt c ?ctx x w =
      Done None (addTask (StartTask c x) (addTask (PreStartTask x) (upd x (\<lambda>_. d1) w)))" "reaches Started (heap w x) d1"
    using start_component [OF assms(3,2) m] by blast
  let ?w1 = "addTask (StartTask c x) (addTask (PreStartTask x) (upd x (\<lambda>_. d1) w))"
  have "shutdownMessage E halt c x ?ctx LiveChan w = Done (Some None, False) ?w1"
    using d1 by (simp add: shutdownMessage_def reply_def reaches_def)
  then have "SendSyncMessage E halt x ControlMsgType (controlLookup Shutdown) w = Done None (endMmux c x ?w1)"
    by (simp add: SendSyncMessage_served [OF assms(1)] mmuxRound_def serveMessage_def controlLookup_def Let_def)
  then show ?thesis
    using d1(2) by (intro exI [of _ "endMmux c x ?w1"]) (simp add: reaches_def endMmux_def remove1_append)
qed

theorem Shutdown_starts_waiting_component_witness:
  "\<exists>w1. SendSyncMessage plainEnv (containerStop plainEnv 3) 5 ControlMsgType (controlLookup Shutdown)
      (upd 5 (setStage plainEnv Restarting) sampleServing) = Done None w1 \<and> Stage (heap w1 5) = Started"
proof -
  let ?w = "upd 5 (setStage plainEnv Restarting) sampleServing"
  have "served_by 0 5 ?w" "persistOff ?w"
    using sampleServing_ok by (simp_all add: served_by_def stage_order)
  from Shutdown_starts_waiting_component [OF this, of plainEnv "containerStop plainEnv 3"] show ?thesis by auto
qed

text \<open>
  C36: the delay of a restart is slept inside the first of its two calls of the state machine, with the
  mutating lock held, so the goroutine that is to restart a multiplexer waits; between the two calls the
  lock is free. If that goroutine gets it first, its call, meant for started components, starts the
  component in place of the restart's own second call and restores no multiplexer. That second call then
  finds the component \<^verbatim>\<open>Started\<close>, with \<^verbatim>\<open>RestartAfter\<close> in its context: it puts it back to
  \<^verbatim>\<open>Restarting\<close>, sleeps the delay a second time and leaves it there while its \<^verbatim>\<open>Start\<close> runs. The
  goroutines of both calls are gone and none serves its messages: the first one sent times out and stays
  in the channel, and every further sender blocks.
\<close>

theorem mmux_restart_disturbs_restart:
  assumes "Stage (heap w x) = Restarting" and "persistOff w" and "openMmux (heap w x)"
    and "tasks w = ResumeTask c x delay # RestartMmuxTask c x # ts" and "mmuxServer x ts = None"
  shows "\<exists>w1 w2. runTask E halt (RestartMmuxTask c x) w = Done () w1 \<and> Stage (heap w1 x) = Started \<and>
    slept w1 = slept w \<and> mmuxServer x (tasks w1) = None \<and>
    runTask E halt (ResumeTask c x delay) w1 = Done () w2 \<and> Stage (heap w2 x) = Restarting \<and>
    slept w2 = slept w @ [delay] \<and> tasks w2 = ts @ [PreStartTask x, StartTask c x] \<and>
    (\<forall>mtype lookup. \<exists>w3. SendSyncMessage E halt x mtype lookup w2 = Done (Some DeadlineExceeded) w3 \<and>
       (\<forall>mtype' lookup'. SendSyncMessage E halt x mtype' lookup' w3 = Stuck))"
proof -
  let ?ctx = "withValue background ControlMsgType (ControlI RestartMmux)"
  let ?v = "w\<lparr>tasks := ResumeTask c x delay # ts\<rparr>"
  have v: "Stage (heap ?v x) = Initialized \<or> Stage (heap ?v x) = Restarting" "persistOff ?v" "mmux (heap ?v x)"
    using assms by simp_all
  obtain d1 where d1: "componentLifecycleFSM E halt c ?ctx x ?v =
      Done None (addTask (StartTask c x) (addTask (PreStartTask x) (upd x (\<lambda>_. d1) ?v)))" "reaches Started (heap ?v x) d1"
    "mmuxBuffer d1 = mmuxBuffer (heap ?v x)"
    using start_component [OF v] by blast
  let ?w1 = "addTask (StartTask c x) (addTask (PreStartTask x) (upd x (\<lambda>_. d1) ?v))"
  have 1: "runTask E halt (RestartMmuxTask c x) w = Done () ?w1"
    using d1(1) assms(4) by (simp add: runTask_def)
  have none: "mmuxServer x (tasks ?w1) = None" using assms(5) by (simp add: mmuxServer_append)
  let ?u = "?w1\<lparr>tasks := ts @ [PreStartTask x, StartTask c x]\<rparr>"
  have u: "Stage (heap ?u x) = Started" using d1(2) by (simp add: reaches_def)
  have "persistOff ?u" using assms(2) d1(2) by (simp add: persistOff_upd_at reaches_def)
  from fsm_restarting [OF u this]
  have 2: "runTask E halt (ResumeTask c x delay) ?w1 =
      Done () ((upd x (setStage E Restarting) ?u)\<lparr>slept := slept ?u @ [delay]\<rparr>)" (is "_ = Done () ?w2")
    by (simp add: runTask_def)
  have "mmuxServer x (tasks ?w2) = None" using assms(5) by (simp add: mmuxServer_append)
  moreover have "openMmux (heap ?w2 x)" using d1(2,3) assms(3) by (simp add: reaches_def)
  moreover have "Stage (heap ?w2 x) < Stopping" by (simp add: stage_order)
  ultimately have "\<exists>w3. SendSyncMessage E halt x mtype lookup ?w2 = Done (Some DeadlineExceeded) w3 \<and>
       (\<forall>mtype' lookup'. SendSyncMessage E halt x mtype' lookup' w3 = Stuck)" for mtype lookup
    by (intro unserved_sends)
  then show ?thesis
    using 1 2 d1(2) none by (intro exI [of _ ?w1] exI [of _ ?w2]) (simp add: reaches_def)
qed

theorem mmux_restart_disturbs_restart_witness:
  "\<exists>w1 w2. runTask plainEnv (containerStop plainEnv 3) (RestartMmuxTask 0 5)
      ((upd 5 (setStage plainEnv Restarting) sampleServing)
         \<lparr>tasks := [ResumeTask 0 5 2000, RestartMmuxTask 0 5]\<rparr>) = Done () w1 \<and>
    runTask plainEnv (containerStop plainEnv 3) (ResumeTask 0 5 2000) w1 = Done () w2 \<and>
    Stage (heap w2 5) = Restarting \<and> slept w2 = [2000]"
proof -
  let ?w = "(upd 5 (setStage plainEnv Restarting) sampleServing)\<lparr>tasks := [ResumeTask 0 5 2000, RestartMmuxTask 0 5]\<rparr>"
  have "persistOff ?w" using sampleServing_ok(2) by simp
  from mmux_restart_disturbs_restart [of ?w 5, OF _ this, of 0 2000 "[]" plainEnv "containerStop plainEnv 3"]
  show ?thesis by auto
qed

end
