(* ===== verification/Whole_Program.thy ===== *)
theory Whole_Program
  imports Container_Stop Restarting
begin

text \<open>
  What holds in every world the program can reach: by any order of additions, messages, goroutines,
  HTTP requests and calls of the client interface, with any environment. The general results of the
  safety theory, spelled out over the operations a client sees.
\<close>

section \<open>A run of the program\<close>

text \<open>For examples: the job is added to the root container and shut down again.\<close>

lemma sample_run:
  "\<exists>w1 w2. reachable plainEnv sampleTree w1 \<and> reachable plainEnv sampleTree w2 \<and> reachable plainEnv w1 w2 \<and>
    Stage (heap w1 5) = Started \<and> GetComponent w1 0 ''job'' = Inr 5 \<and>
    Stage (heap w2 5) = Teareddown \<and> tornDown w2 = [5]"
proof -
  have i: "initsCleanly plainEnv (heap sampleTree 5)" and s: "stopsCleanly plainEnv (heap sampleTree 5)"
    by (simp_all add: initsCleanly_def stopsCleanly_def)
  obtain w1 where w1: "Add plainEnv (containerStop plainEnv 3) 0 (Some 5) sampleTree = Done None w1"
    "added 0 0 5 [''root''] sampleTree w1"
    using Add_child [OF canAdd_sample i] by blast
  have r1: "reachable plainEnv sampleTree w1"
    by (rule reachable.steps [OF reachable.initial step.add [OF w1(1)]])
  have run: "runningChild plainEnv 0 w1 5" "persistOff w1"
    using added_runningChild [OF canAdd_sample w1(2) s] by simp_all
  obtain F h where send: "SendSyncMessage plainEnv (containerStop plainEnv 3) 5 ControlMsgType (controlLookup Shutdown) w1 =
      Done None (endMmux 0 5
        ((updPart 0 (\<lambda>k. removeName (Name (heap w1 5)) (k\<lparr>cHandlers := h k\<rparr>)) (upd 5 F w1))
           \<lparr>tornDown := tornDown w1 @ [5]\<rparr>))" and g: "gone (heap w1 5) (F (heap w1 5))"
    using shutdown_out [OF run] by blast
  let ?w2 = "endMmux 0 5
        ((updPart 0 (\<lambda>k. removeName (Name (heap w1 5)) (k\<lparr>cHandlers := h k\<rparr>)) (upd 5 F w1))
           \<lparr>tornDown := tornDown w1 @ [5]\<rparr>)"
  have served: "served_by 0 5 w1" using run(1) by (simp add: served_by_def runningChild_def stage_order)
  then have "\<exists>r. mmuxRound plainEnv (containerStop plainEnv 3) 0 5
        \<lparr>msgCtx = background, msgType = ControlMsgType, msgsLookup = controlLookup Shutdown, errCh = LiveChan\<rparr> w1 = Done r ?w2"
    using send by (auto simp: SendSyncMessage_served)
  moreover have "MmuxTask 0 5 \<in> set (tasks w1)" "mmux (heap w1 5)"
    using w1(2) by (simp_all add: added_def reaches_def)
  ultimately have st: "step plainEnv w1 ?w2" using step.message by blast
  have "tornDown w1 = []"
  proof -
    have "tornOnce w1" by (rule tearing.invariant_reachable [OF r1]) (simp add: tornOnce_def)
    moreover have "Stage (heap w1 x) \<noteq> Teareddown" for x
      using added_others(2) [OF w1(2), of x] w1(2) by (cases "x = 5") (auto simp: added_def reaches_def)
    ultimately show ?thesis by (auto simp: tornOnce_def)
  qed
  then have t2: "tornDown ?w2 = [5]" "Stage (heap ?w2 5) = Teareddown" using g by (simp_all add: gone_def)
  have get: "GetComponent w1 0 ''job'' = Inr 5" using w1(2) by (simp add: GetComponent_def added_def)
  have "reachable plainEnv w1 ?w2" by (rule reachable.steps [OF reachable.initial st])
  moreover have "reachable plainEnv sampleTree ?w2" by (rule reachable.steps [OF r1 st])
  moreover have "Stage (heap w1 5) = Started" using run(1) by (simp add: runningChild_def)
  ultimately show ?thesis using r1 t2 get by blast
qed

section \<open>Stages\<close>

lemma edge_past_stopping: "edge\<^sup>*\<^sup>* s t \<Longrightarrow> Stopping \<le> s \<Longrightarrow> Stopping \<le> t"
proof (induction rule: rtranclp_induct)
  case (step y z)
  then show ?case by (cases y) (auto simp: stage_order)
qed

text \<open>
  C3: from any world on, every component goes through its stages along the edges of the state machine
  and no others: once it is stopping, or has failed, it never gets back to an earlier stage or becomes
  \<^verbatim>\<open>Active\<close>, and \<^verbatim>\<open>SendSyncMessage\<close> refuses every message to it for good.
\<close>

theorem stages_follow_the_state_machine:
  assumes "reachable E w0 w"
  shows "edge\<^sup>*\<^sup>* (Stage (heap w0 x)) (Stage (heap w x)) \<and>
    (Stopping \<le> Stage (heap w0 x) \<longrightarrow>
       Stopping \<le> Stage (heap w x) \<and>
       SendSyncMessage E halt x mtype lookup w = Done (Some (CannotProcess (Name (heap w x)) (Stage (heap w x)))) w)"
proof -
  have "stagesFollow w0 w" using follow.reachable_R [OF assms] by simp
  then have "edge\<^sup>*\<^sup>* (Stage (heap w0 x)) (Stage (heap w x))" by (simp add: stagesFollow_def)
  then show ?thesis using edge_past_stopping by (auto simp: SendSyncMessage_def Let_def)
qed

theorem stages_follow_the_state_machine_witness:
  "\<exists>w1 w2. reachable plainEnv sampleTree w1 \<and> reachable plainEnv w1 w2 \<and>
    edge\<^sup>*\<^sup>* Submitted (Stage (heap w1 5)) \<and> edge\<^sup>*\<^sup>* (Stage (heap w1 5)) (Stage (heap w2 5)) \<and>
    Stage (heap w1 5) = Started \<and> Stage (heap w2 5) = Teareddown"
proof -
  obtain w1 w2 where r: "reachable plainEnv sampleTree w1" "reachable plainEnv w1 w2"
    "Stage (heap w1 5) = Started" "Stage (heap w2 5) = Teareddown"
    using sample_run by blast
  have "edge\<^sup>*\<^sup>* Submitted (Stage (heap w1 5))"
    using stages_follow_the_state_machine [OF r(1), of 5] by simp
  moreover have "edge\<^sup>*\<^sup>* (Stage (heap w1 5)) (Stage (heap w2 5))"
    using stages_follow_the_state_machine [OF r(2), of 5] by simp
  ultimately show ?thesis using r by blast
qed

text \<open>
  C18: in every reachable world every component is \<^verbatim>\<open>Active\<close> exactly in the stages from \<^verbatim>\<open>Initialized\<close>
  to \<^verbatim>\<open>Started\<close>, if that was so at first: no operation leaves the two out of step.
\<close>

theorem state_agrees_with_stage:
  assumes "reachable E w0 w" and "\<forall>x. State (heap w0 x) = stateOf (Stage (heap w0 x))"
  shows "State (heap w x) = Active \<longleftrightarrow> Initialized \<le> Stage (heap w x) \<and> Stage (heap w x) \<le> Started"
proof -
  have "coherent w" using coherence.invariant_reachable [OF assms(1)] assms(2) by (simp add: coherent_def)
  then show ?thesis by (simp add: coherent_def stateOf_def running_def)
qed

theorem state_agrees_with_stage_witness:
  "\<exists>w1 w2. reachable plainEnv sampleTree w1 \<and> reachable plainEnv sampleTree w2 \<and>
    State (heap w1 5) = Active \<and> State (heap w2 5) \<noteq> Active"
proof -
  obtain w1 w2 where r: "reachable plainEnv sampleTree w1" "reachable plainEnv sampleTree w2"
    "Stage (heap w1 5) = Started" "Stage (heap w2 5) = Teareddown"
    using sample_run by blast
  have c: "\<forall>x. State (heap sampleTree x) = stateOf (Stage (heap sampleTree x))"
    by (simp add: stateOf_def running_def stage_order)
  then show ?thesis
    using r state_agrees_with_stage [OF r(1) c, of 5] state_agrees_with_stage [OF r(2) c, of 5]
    by (auto simp: stage_order)
qed

section \<open>Tables\<close>

text \<open>
  C14: in every reachable world the two tables of every container agree: the slice lists exactly the
  names under which \<^verbatim>\<open>GetComponent\<close> finds a component, each once, if no container listed anything before
  it was initialized.
\<close>

theorem tables_agree:
  assumes "reachable E w0 w" and "\<forall>c. components (cpart w0 c) = [] \<and> (\<forall>n. mapGet (cComponents (cpart w0 c)) n = None) \<and>
      (cComponents (cpart w0 c) \<noteq> None \<longrightarrow> Initializing \<le> Stage (heap w0 c))"
  shows "distinct (components (cpart w c)) \<and> (n \<in> set (components (cpart w c)) \<longleftrightarrow> (\<exists>x. GetComponent w c n = Inr x))"
proof -
  have "tablesOk w0" using assms(2) by (simp add: tablesOk_def wfPart_def)
  then have wf: "wfPart (cpart w c)"
    using tables.invariant_reachable [OF assms(1)] by (simp add: tablesOk_def)
  then have "n \<in> set (components (cpart w c)) \<longleftrightarrow> mapGet (cComponents (cpart w c)) n \<noteq> None"
    by (simp add: wfPart_def)
  also have "\<dots> \<longleftrightarrow> (\<exists>x. GetComponent w c n = Inr x)"
  proof -
    have "ccomp cc \<noteq> None" if "mapGet (cComponents (cpart w c)) n = Some cc" for cc
      using wf that unfolding wfPart_def by blast
    then show ?thesis by (auto simp: GetComponent_def split: option.split)
  qed
  finally show ?thesis using wf by (simp add: wfPart_def)
qed

theorem tables_agree_witness:
  "\<exists>w1. reachable plainEnv sampleTree w1 \<and> ''job'' \<in> set (components (cpart w1 0)) \<and> distinct (components (cpart w1 0))"
proof -
  obtain w1 where r: "reachable plainEnv sampleTree w1" "GetComponent w1 0 ''job'' = Inr 5"
    using sample_run by blast
  have "\<forall>c. components (cpart sampleTree c) = [] \<and> (\<forall>n. mapGet (cComponents (cpart sampleTree c)) n = None) \<and>
      (cComponents (cpart sampleTree c) \<noteq> None \<longrightarrow> Initializing \<le> Stage (heap sampleTree c))"
    by (simp add: cpart_def emptyPart_def stage_order) (simp add: mapGet_def)
  from tables_agree [OF r(1) this, of 0 "''job''"] show ?thesis using r by blast
qed

section \<open>Tear-down and singletons\<close>

text \<open>
  C19: in every reachable world no component has been torn down twice, and every component that was is
  \<^verbatim>\<open>Teareddown\<close> and \<^verbatim>\<open>Inactive\<close>.
\<close>

theorem torn_down_at_most_once:
  assumes "reachable E w0 w" and "tornDown w0 = []" and "\<forall>x. State (heap w0 x) = stateOf (Stage (heap w0 x))"
  shows "distinct (tornDown w) \<and> (\<forall>x \<in> set (tornDown w). Stage (heap w x) = Teareddown \<and> State (heap w x) = Inactive)"
proof -
  have "tornOnce w" by (rule tearing.invariant_reachable [OF assms(1)]) (simp add: tornOnce_def assms(2))
  moreover have "coherent w" using coherence.invariant_reachable [OF assms(1)] assms(3) by (simp add: coherent_def)
  ultimately show ?thesis by (auto simp: tornOnce_def coherent_def stateOf_def running_def stage_order)
qed

theorem torn_down_at_most_once_witness:
  "\<exists>w2. reachable plainEnv sampleTree w2 \<and> tornDown w2 = [5] \<and> State (heap w2 5) = Inactive"
proof -
  obtain w2 where r: "reachable plainEnv sampleTree w2" "tornDown w2 = [5]" using sample_run by blast
  have "\<forall>x. State (heap sampleTree x) = stateOf (Stage (heap sampleTree x))"
    by (simp add: stateOf_def running_def stage_order)
  from torn_down_at_most_once [OF r(1) _ this] show ?thesis using r by auto
qed

text \<open>
  C37: the add-ons are singletons of the process. Once \<^verbatim>\<open>Init\<close> of one database or HTTP server has run,
  whether it succeeded or returned an error, \<^verbatim>\<open>Init\<close> of every component of that type, the same one
  included, is refused in every later world and changes nothing; type and name of the component are the
  ones it had before.
\<close>

theorem add_ons_are_singletons:
  assumes "gotype (heap v y) \<in> {PersistenceT, HttpServerT}" and "virtualInit E y v = Done err v1"
    and "reachable E v1 w" and "gotype (heap v x) = gotype (heap v y)"
  shows "virtualInit E x w = Done (Some (AlreadyInitialized (Name (heap v x)))) w \<and>
    gotype (heap w x) = gotype (heap v x) \<and> Name (heap w x) = Name (heap v x)"
proof -
  have once: "gotype (heap v1 x) = gotype (heap v x)" "Name (heap v1 x) = Name (heap v x)"
    "gotype (heap v y) = PersistenceT \<longrightarrow> runOncePersistence v1" "gotype (heap v y) = HttpServerT \<longrightarrow> runOnceHttp v1"
    using assms(1,2)
    by (auto simp: virtualInit_def persistenceInit_def httpServerInit_def Let_def split: if_splits prod.splits)
  have "sameIdentity v1 w" using identity.reachable_R [OF assms(3)] by blast
  then show ?thesis
    using once assms(1,4) by (auto simp: sameIdentity_def virtualInit_def persistenceInit_def httpServerInit_def)
qed

theorem add_ons_are_singletons_witness:
  "\<exists>v1 w. virtualInit plainEnv 7 (worldOf (\<lambda>x. newComponent x HttpServerT ''web'' [] [])) = Done None v1 \<and>
    reachable plainEnv v1 w \<and> subscribers (heap w 9) = [(''me'', 4)] \<and>
    virtualInit plainEnv 9 w = Done (Some (AlreadyInitialized ''web'')) w"
proof -
  let ?v = "worldOf (\<lambda>x. newComponent x HttpServerT ''web'' [] [])"
  let ?v1 = "?v\<lparr>runOnceHttp := True\<rparr>"
  let ?w = "upd 9 (\<lambda>d. fst (Subscribe ''me'' 4 d)) ?v1"
  have i: "virtualInit plainEnv 7 ?v = Done None ?v1"
    by (simp add: virtualInit_def httpServerInit_def worldOf_def)
  have "step plainEnv ?v1 ?w" by (rule step.subscribe)
  then have r: "reachable plainEnv ?v1 ?w" using reachable.initial reachable.steps by blast
  have "subscribers (heap ?w 9) = [(''me'', 4)]"
    by (simp add: Subscribe_def newComponent_def worldOf_def)
  moreover have "virtualInit plainEnv 9 ?w = Done (Some (AlreadyInitialized ''web'')) ?w"
    using add_ons_are_singletons [OF _ i r, of 9] by (simp add: worldOf_def)
  ultimately show ?thesis using i r by blast
qed

end
