(* ===== verification/Process_Shutdown.thy ===== *)
theory Process_Shutdown
  imports Whole_Program
begin

text \<open>
  The shutdown of the process on a signal: every top level container, in the reverse order of their
  activation, with the root container last, and the components of each before the container itself.
\<close>

section \<open>Containers and what they hold\<close>

text \<open>A top level container runs: it lists itself and then what it holds, and all of that runs.\<close>

definition runningGroup :: "env \<Rightarrow> world \<Rightarrow> ctree \<Rightarrow> bool" where
  "runningGroup E w g \<longleftrightarrow>
     listed (root g) True (parts g) w \<and> (\<forall>t \<in> set (parts g). treeRuns E w (root g) t) \<and> persistReady w \<and>
     served_by (root g) (root g) w \<and> Stage (heap w (root g)) = Started \<and>
     containerType (gotype (heap w (root g))) \<and> derivable w (root g)"

text \<open>What operations on the components \<open>zs\<close> leave alone.\<close>

definition frameAll :: "cid list \<Rightarrow> world \<Rightarrow> world \<Rightarrow> bool" where
  "frameAll zs w w1 \<longleftrightarrow>
     (\<forall>y. y \<notin> set zs \<longrightarrow> heap w1 y = heap w y \<and> mmuxServer y (tasks w1) = mmuxServer y (tasks w)) \<and>
     (\<forall>y. Name (heap w1 y) = Name (heap w y) \<and> container (heap w1 y) = container (heap w y)) \<and>
     topLevelComponents w1 = topLevelComponents w \<and> (persistReady w \<longrightarrow> persistReady w1)"

lemma frameAll_refl: "frameAll [] w w"
  by (simp add: frameAll_def)

lemma frameAll_trans: "frameAll xs w w1 \<Longrightarrow> frameAll ys w1 w2 \<Longrightarrow> frameAll (ys @ xs) w w2"
  by (simp add: frameAll_def)

lemma derivable_frame: "derivable w x \<Longrightarrow> frameAll zs w w1 \<Longrightarrow> x \<notin> set zs \<Longrightarrow> derivable w1 x"
  by (rule derivable_transfer) (simp_all add: frameAll_def)

text \<open>A group still runs where its components are as they were, up to histories and callbacks.\<close>

lemma runningGroup_transfer:
  assumes "runningGroup E w g"
    and "\<And>y. y \<in> set (nodes g) \<Longrightarrow> core (heap w1 y) = core (heap w y) \<and> mmuxServer y (tasks w1) = mmuxServer y (tasks w)"
    and "\<And>y. Name (heap w1 y) = Name (heap w y) \<and> container (heap w1 y) = container (heap w y)"
    and "persistReady w \<Longrightarrow> persistReady w1"
  shows "runningGroup E w1 g"
proof -
  obtain c ts where g: "g = CNode c ts" by (cases g)
  have c: "core (heap w1 c) = core (heap w c)" "mmuxServer c (tasks w1) = mmuxServer c (tasks w)"
    using assms(2) by (simp_all add: g)
  note same = core_eqD [OF c(1)]
  have "listed c True ts w" using assms(1) by (simp add: runningGroup_def g)
  then have "listed c True ts w1" by (rule listed_transfer) (simp_all add: same assms(3))
  moreover have "treeRuns E w1 c t" if "t \<in> set ts" for t
    by (rule treeRuns_transfer [of E w]) (use assms(1-3) that in \<open>auto simp: runningGroup_def g\<close>)
  moreover have "derivable w c" using assms(1) by (simp add: runningGroup_def g)
  then have "derivable w1 c" by (rule derivable_transfer) (simp_all add: same assms(3))
  ultimately show ?thesis
    using assms(1,4) same c(2) by (simp add: runningGroup_def g served_by_def stage_order)
qed

lemma runningGroup_frame:
  assumes "runningGroup E w g" and "frameAll zs w w1" and "set (nodes g) \<inter> set zs = {}"
  shows "runningGroup E w1 g"
  by (rule runningGroup_transfer [OF assms(1)]) (use assms(2,3) in \<open>auto simp: frameAll_def\<close>)

section \<open>A Shutdown message to a container\<close>

text \<open>The end of the life of a container, after its components are gone.\<close>

lemma finish_container:
  assumes "derivable w c"
  shows "\<exists>w2. runBind (removeHttpHandlers c c w) (\<lambda>_ v. tearDownComponent E c c (upd c (setStage E Stopped) v)) =
      Done None w2 \<and> frameAll [c] w w2 \<and> tornDown w2 = tornDown w @ [c] \<and> Stage (heap w2 c) = Teareddown \<and>
      tasks w2 = tasks w \<and>
      (\<exists>u a. trace (heap w2 c) = trace (setStage E Teareddown (tearDown (setStage E Stopped
        ((heap w c)\<lparr>uri := u, asContainer := a\<rparr>)))))"
proof -
  let ?hs = "ownHandlers w c"
  obtain u where h: "removeHttpHandlers c c w =
     Done () (updPart c (\<lambda>k. k\<lparr>cHandlers := map_option (dropHandlers ?hs) (cHandlers k)\<rparr>)
               (upd c (\<lambda>d. d\<lparr>uri := u\<rparr>) w))"
    using removeHttpHandlers_Done [OF assms] by blast
  let ?w1 = "updPart c (\<lambda>k. k\<lparr>cHandlers := map_option (dropHandlers ?hs) (cHandlers k)\<rparr>) (upd c (\<lambda>d. d\<lparr>uri := u\<rparr>) w)"
  let ?F = "\<lambda>d. setStage E Teareddown (tearDown (setStage E Stopped d))"
  have T: "asPersistence (tearDown d) = asPersistence d" for d
  proof -
    have "core (tearDown d) = core (d\<lparr>mmux := False\<rparr>)" by simp
    from core_eqD(15) [OF this] show ?thesis by simp
  qed
  define w2 where "w2 = updPart c (removeName (Name (heap w c))) ((upd c ?F ?w1)\<lparr>tornDown := tornDown w @ [c]\<rparr>)"
  have "runBind (removeHttpHandlers c c w) (\<lambda>_ v. tearDownComponent E c c (upd c (setStage E Stopped) v)) = Done None w2"
    by (simp add: h tearDownComponent_def Let_def removeComponent_def w2_def upd_upd upd_tornDown)
  moreover have "frameAll [c] w w2"
  proof -
    have "persistReady w2" if "persistReady w"
    proof (rule persistReady_transfer [OF that])
      show "persistence (cpart w2 y) = persistence (cpart w y)" for y
        by (auto simp: w2_def cpart_updPart_cases) (simp_all add: cpart_def)
    qed (auto simp: w2_def persistenceOf_def T)
    then show ?thesis by (simp add: frameAll_def w2_def)
  qed
  moreover have "tornDown w2 = tornDown w @ [c]" "Stage (heap w2 c) = Teareddown" "tasks w2 = tasks w"
    by (simp_all add: w2_def)
  moreover have "trace (heap w2 c) = trace (?F ((heap w c)\<lparr>uri := u, asContainer :=
      map_option (\<lambda>k. k\<lparr>cHandlers := map_option (dropHandlers ?hs) (cHandlers k)\<rparr>) (asContainer (heap w c))\<rparr>))"
    by (simp add: w2_def)
  ultimately show ?thesis by blast
qed

lemma frameStop_frameAll: "frameStop c xs w w1 \<Longrightarrow> frameAll (c # xs) w w1"
  by (simp add: frameStop_def frameAll_def)

text \<open>Two states of a component with the same callbacks, subscribers and history.\<close>

definition seenAlike :: "component \<Rightarrow> component \<Rightarrow> bool" where
  "seenAlike d d1 \<longleftrightarrow> subscribers d1 = subscribers d \<and> callbacks d1 = callbacks d \<and> trace d1 = trace d"

lemma shutdown_container:
  assumes "runningGroup E w g" and "length (nodes g) \<le> n" and "distinct (nodes g)" and g: "g = CNode c ts"
  shows "\<exists>w2 d. SendSyncMessage E (containerStop E n) c ControlMsgType (controlLookup Shutdown) w = Done None w2 \<and>
    frameAll (nodes g) w w2 \<and> tornDown w2 = tornDown w @ shutOrder g \<and>
    (\<forall>x \<in> set (nodes g). Stage (heap w2 x) = Teareddown) \<and> seenAlike (setStage E Stopping (heap w c)) d \<and>
    trace (heap w2 c) = trace (setStage E Teareddown (tearDown (setStage E Stopped d)))"
proof -
  let ?ctx = "withValue background ControlMsgType (ControlI Shutdown)"
  have l: "listed c True ts w" "\<forall>t \<in> set ts. treeRuns E w c t"
    and r: "served_by c c w" "Stage (heap w c) = Started" "containerType (gotype (heap w c))" "derivable w c"
    and po: "persistReady w"
    using assms(1) by (simp_all add: runningGroup_def g)
  have "persistReady (upd c (setStage E Stopping) w)" using po by (simp add: persistReady_upd)
  then obtain b m D where b: "deferPersist E c (Done None (upd c (setStage E Stopping) w)) =
      Done None (stored c b m D (upd c (setStage E Stopping) w))"
    using deferPersist_ready by blast
  define w0 where "w0 = stored c b m D (upd c (setStage E Stopping) w)"
  have f1: "componentLifecycleFSM E (containerStop E n) c ?ctx c w = Done None w0"
    using r(2) b by (simp add: componentLifecycleFSM_def stageSwitch_def controlComponent_def withValue_def w0_def)
  have w0: "Stage (heap w0 c) = Stopping" "gotype (heap w0 c) = gotype (heap w c)" "persistReady w0" "tornDown w0 = tornDown w"
    using po by (simp_all add: w0_def persistReady_upd)
  have "length (allNodes ts) < n" "distinct (c # allNodes ts)" using assms(2,3) by (simp_all add: g)
  moreover have "listed c True ts w0" "\<forall>t \<in> set ts. treeRuns E w0 c t"
    using below_stopping [OF l, of b m D] assms(3) by (simp_all add: g w0_def)
  ultimately obtain w1 where w1: "containerStop E n c w0 = Done None w1" "frameStop c (allNodes ts) w0 w1"
    "\<forall>z \<in> set (allNodes ts). Stage (heap w1 z) = Teareddown" "tornDown w1 = tornDown w @ concat (map shutOrder (rev ts))"
    using containerStop_nested [of c True ts w0 E n] w0(3,4) by metis
  have "frameAll (nodes g) w w0" using w0(3) by (simp add: frameAll_def g w0_def)
  moreover have "frameAll (nodes g) w0 w1" using frameStop_frameAll [OF w1(2)] by (simp add: g)
  ultimately have fr1: "frameAll (nodes g) w w1" by (auto simp: frameAll_def)
  have "derivable w1 c" by (rule derivable_transfer [OF r(4)]) (use w1(2) in \<open>auto simp: frameStop_def w0_def\<close>)
  then obtain w2 u a where w2: "runBind (removeHttpHandlers c c w1)
      (\<lambda>_ v. tearDownComponent E c c (upd c (setStage E Stopped) v)) = Done None w2" "frameAll [c] w1 w2"
    "tornDown w2 = tornDown w1 @ [c]" "Stage (heap w2 c) = Teareddown" "tasks w2 = tasks w1"
    "trace (heap w2 c) = trace (setStage E Teareddown (tearDown (setStage E Stopped
        ((heap w1 c)\<lparr>uri := u, asContainer := a\<rparr>))))"
    using finish_container by blast
  have "persistReady w2" using w2(2) fr1 po by (simp add: frameAll_def)
  then obtain b2 m2 D2 where b2: "deferPersist E c (Done None w2) = Done None (stored c b2 m2 D2 w2)"
    using deferPersist_ready by blast
  have "stopComponent E (containerStop E n) c c w0 = Done None w2"
    using w1(1) w2(1) r(3) w0(2) by (simp add: stopComponent_def virtualStop_container)
  then have "componentLifecycleFSM E (containerStop E n) c ?ctx c w0 = Done None (stored c b2 m2 D2 w2)"
    using b2 w0(1) by (simp add: componentLifecycleFSM_def stageSwitch_def)
  let ?w3 = "endMmux c c (stored c b2 m2 D2 w2)"
  from \<open>componentLifecycleFSM E (containerStop E n) c ?ctx c w0 = _\<close>
  have "SendSyncMessage E (containerStop E n) c ControlMsgType (controlLookup Shutdown) w = Done None ?w3"
    using f1 w0(1) by (simp add: SendSyncMessage_served [OF r(1)] mmuxRound_def serveMessage_def
        controlLookup_def shutdownMessage_def reply_def Let_def)
  moreover have "frameAll (nodes g) w ?w3"
  proof -
    have "frameAll ([c] @ nodes g) w w2" by (rule frameAll_trans [OF fr1 w2(2)])
    then show ?thesis
      by (simp add: frameAll_def g mmuxServer_endMmux) (simp add: endMmux_def)
  qed
  moreover have "tornDown ?w3 = tornDown w @ shutOrder g" using w1(4) w2(3) by (simp add: g)
  moreover have "Stage (heap ?w3 x) = Teareddown" if "x \<in> set (nodes g)" for x
    using that w1(3) w2(2,4) by (cases "x = c") (auto simp: g frameAll_def)
  moreover have "seenAlike (setStage E Stopping (heap w c)) ((heap w1 c)\<lparr>uri := u, asContainer := a\<rparr>)"
  proof -
    obtain a' fs q where "heap w1 c = (heap w0 c)\<lparr>asContainer := a', userFields := fs, asPersistence := q\<rparr>"
      using w1(2) unfolding frameStop_def by blast
    then show ?thesis by (simp add: seenAlike_def w0_def)
  qed
  moreover have "trace (heap ?w3 c) = trace (setStage E Teareddown (tearDown (setStage E Stopped
      ((heap w1 c)\<lparr>uri := u, asContainer := a\<rparr>))))"
    using w2(6) by simp
  ultimately show ?thesis by blast
qed

section \<open>What the signal handler waits for\<close>

text \<open>A subscriber of a component that has no callbacks but the framework's gets every change.\<close>

definition watched :: "string \<Rightarrow> chan \<Rightarrow> component \<Rightarrow> bool" where
  "watched s ch d \<longleftrightarrow> (s, ch) \<in> set (subscribers d) \<and> set (callbacks d) \<subseteq> {StateChangeCallback}"

lemma watched_round:
  assumes "watched s ch d"
  shows "watched s ch (notifySubscribers chg (invokeCallbacks E chg d))"
    and "\<exists>es. trace (notifySubscribers chg (invokeCallbacks E chg d)) = trace d @ es \<and> SentTo s ch chg \<in> set es"
proof -
  let ?d = "invokeCallbacks E chg d"
  have d: "subscribers ?d = subscribers d" "set (callbacks ?d) \<subseteq> set (callbacks d)" "prefix (trace d) (trace ?d)"
    using invokeFrom_framework [of "callbacks d" E chg 0 d] assms by (simp_all add: invokeCallbacks_def watched_def)
  show "watched s ch (notifySubscribers chg ?d)"
    using d(1,2) assms by (auto simp: watched_def notifySubscribers_def)
  obtain es where "trace ?d = trace d @ es" using d(3) by (auto simp: prefix_def)
  moreover have "SentTo s ch chg \<in> (\<lambda>(s, c). SentTo s c chg) ` set (subscribers d)"
    using assms by (force simp: watched_def)
  ultimately show "\<exists>es. trace (notifySubscribers chg ?d) = trace d @ es \<and> SentTo s ch chg \<in> set es"
    using d(1) by (simp add: notifySubscribers_def)
qed

lemma watched_setState:
  assumes "watched s ch d"
  shows "watched s ch (setState E t d)" and "\<exists>es. trace (setState E t d) = trace d @ es"
proof -
  have "watched s ch (d\<lparr>State := t\<rparr>)" using assms by (simp add: watched_def)
  from watched_round [OF this, of "stateChange (State d) t" E]
  show "watched s ch (setState E t d)" "\<exists>es. trace (setState E t d) = trace d @ es"
    using \<open>watched s ch (d\<lparr>State := t\<rparr>)\<close> by (auto simp: setState_def Let_def)
qed

lemma watched_setStage:
  assumes "watched s ch d"
  shows "watched s ch (setStage E t d)"
    and "\<exists>es. trace (setStage E t d) = trace d @ es \<and> SentTo s ch (stageChange (Stage d) t) \<in> set es"
proof -
  let ?chg = "stageChange (Stage d) t"
  let ?d2 = "notifySubscribers ?chg (invokeCallbacks E ?chg (d\<lparr>Stage := t\<rparr>))"
  have w: "watched s ch (d\<lparr>Stage := t\<rparr>)" using assms by (simp add: watched_def)
  note r = watched_round [OF w, of ?chg E]
  show "watched s ch (setStage E t d)"
    using watched_setState(1) [OF r(1)] by (simp add: setStage_def Let_def)
  obtain es where es: "trace ?d2 = trace d @ es" "SentTo s ch ?chg \<in> set es" using r(2) by auto
  obtain fs gs where "trace (setState E Active ?d2) = trace ?d2 @ fs" "trace (setState E Inactive ?d2) = trace ?d2 @ gs"
    using watched_setState(2) [OF r(1)] by metis
  then show "\<exists>es. trace (setStage E t d) = trace d @ es \<and> SentTo s ch ?chg \<in> set es"
    using es by (auto simp: setStage_def Let_def)
qed

lemma trace_tearDown [simp]: "trace (tearDown d) = trace d"
proof -
  have 1: "trace (removeCallbacks is d) = trace d" for "is" d
    by (induction "is" arbitrary: d) (simp_all add: removeCallbackAt_def)
  have 2: "trace (unsubscribeAll ss d) = trace d" for ss d
    by (induction ss arbitrary: d) (simp_all add: Unsubscribe_def split: option.split)
  show ?thesis by (simp add: tearDown_def Let_def 1 2)
qed

text \<open>The trace only grows, whatever the callbacks do.\<close>

lemma prefix_trace_invokeFrom: "prefix (trace d) (trace (invokeFrom E ch i cbs d))"
proof (induction cbs arbitrary: i d)
  case (Cons cb cbs)
  let ?d = "runCallback E cb i ch (d\<lparr>trace := trace d @ [CallbackRun i cb ch]\<rparr>)"
  have "prefix (trace d) (trace ?d)"
    by (cases cb) (auto simp: stateChangeCallbacker_def UpdateComponentEtag_def
        removeCallbackAt_def split: change.split option.split)
  then show ?case using Cons.IH [of ?d "Suc i"] by (auto dest: append_prefixD intro: prefix_order.trans)
qed simp

lemma prefix_trace_setStage: "prefix (trace d) (trace (setStage E t d))"
proof -
  have round: "prefix (trace d) (trace (notifySubscribers ch (invokeCallbacks E ch d)))" for ch d
    using prefix_trace_invokeFrom [of d E ch 0 "callbacks d"]
    by (simp add: notifySubscribers_def invokeCallbacks_def)
  have state: "prefix (trace d) (trace (setState E s d))" for s d
    using round [of "d\<lparr>State := s\<rparr>"] by (simp add: setState_def Let_def)
  let ?d2 = "notifySubscribers (stageChange (Stage d) t) (invokeCallbacks E (stageChange (Stage d) t) (d\<lparr>Stage := t\<rparr>))"
  have "prefix (trace d) (trace ?d2)" using round [of "d\<lparr>Stage := t\<rparr>"] by simp
  then have "prefix (trace d) (trace (setState E s ?d2))" for s using state prefix_order.trans by blast
  then show ?thesis by (simp add: setStage_def Let_def)
qed

text \<open>So the handler sees the root container stopped.\<close>

lemma root_seen_stopped:
  assumes "watched ''root.init'' ch d" and "seenAlike (setStage E Stopping d) d1"
  shows "rootStopped ch (drop (length (trace d)) (trace (setStage E Teareddown (tearDown (setStage E Stopped d1)))))"
proof -
  let ?d2 = "setStage E Stopped d1"
  have w1: "watched ''root.init'' ch d1"
    using watched_setStage(1) [OF assms(1), of E Stopping] assms(2) by (simp add: watched_def seenAlike_def)
  obtain es where es: "trace d1 = trace d @ es"
    using watched_setStage(2) [OF assms(1), of E Stopping] assms(2) by (auto simp: seenAlike_def)
  obtain fs where fs: "trace ?d2 = trace d1 @ fs" "SentTo ''root.init'' ch (stageChange (Stage d1) Stopped) \<in> set fs"
    using watched_setStage(2) [OF w1, of E Stopped] by auto
  obtain gs where gs: "trace (setStage E Teareddown (tearDown ?d2)) = trace ?d2 @ gs"
    using prefix_trace_setStage [of "tearDown ?d2" E Teareddown] by (auto simp: prefix_def)
  show ?thesis
    using fs(2) unfolding gs fs(1) es
    by (force simp: rootStopped_def list_ex_iff stageChange_def)
qed

section \<open>All top level containers\<close>

definition groupsReady :: "env \<Rightarrow> nat \<Rightarrow> ctree list \<Rightarrow> world \<Rightarrow> bool" where
  "groupsReady E n gs w \<longleftrightarrow>
     distinct (allNodes gs) \<and> (\<forall>g \<in> set gs. runningGroup E w g \<and> length (nodes g) \<le> n)"

lemma groupsReady_nodes: "groupsReady E n gs w \<Longrightarrow> g \<in> set gs \<Longrightarrow> distinct (nodes g)"
  by (auto simp: groupsReady_def distinct_concat_iff)

lemma groupsReady_frame:
  assumes "groupsReady E n gs w" and "frameAll zs w w1" and "\<forall>g \<in> set gs. set (nodes g) \<inter> set zs = {}"
  shows "groupsReady E n gs w1"
  using assms(1,3) runningGroup_frame [OF _ assms(2)] by (simp add: groupsReady_def)

lemma sendShutdowns_groups:
  "groupsReady E n (take i hs) w \<Longrightarrow> topLevelComponents w = map root (g # hs) \<Longrightarrow> i \<le> length hs \<Longrightarrow>
   \<exists>w1. sendShutdowns E (containerStop E n) i w = Done () w1 \<and>
     tornDown w1 = tornDown w @ concat (map shutOrder (rev (take i hs))) \<and>
     frameAll (allNodes (take i hs)) w w1 \<and>
     (\<forall>x \<in> set (allNodes (take i hs)). Stage (heap w1 x) = Teareddown)"
proof (induction i arbitrary: w)
  case 0
  then show ?case by (simp add: frameAll_refl)
next
  case (Suc i)
  let ?h = "hs ! i"
  have t: "take (Suc i) hs = take i hs @ [?h]" using Suc.prems(3) by (simp add: take_Suc_conv_app_nth)
  have top: "topLevelComponents w ! Suc i = root ?h" using Suc.prems(2,3) by simp
  have h: "runningGroup E w ?h" "length (nodes ?h) \<le> n" "distinct (nodes ?h)"
    using Suc.prems(1) groupsReady_nodes [OF Suc.prems(1), of ?h] by (simp_all add: groupsReady_def t)
  obtain w1 where w1: "SendSyncMessage E (containerStop E n) (root ?h) ControlMsgType (controlLookup Shutdown) w = Done None w1"
    "frameAll (nodes ?h) w w1" "tornDown w1 = tornDown w @ shutOrder ?h"
    "\<forall>x \<in> set (nodes ?h). Stage (heap w1 x) = Teareddown"
    using shutdown_container [OF h, of "root ?h" "parts ?h"] by auto
  have "groupsReady E n (take i hs) w" "\<forall>g \<in> set (take i hs). set (nodes g) \<inter> set (nodes ?h) = {}"
    using Suc.prems(1) by (auto simp: groupsReady_def t)
  then have "groupsReady E n (take i hs) w1" using groupsReady_frame w1(2) by blast
  moreover have "topLevelComponents w1 = map root (g # hs)" using w1(2) Suc.prems(2) by (simp add: frameAll_def)
  ultimately obtain w2 where w2: "sendShutdowns E (containerStop E n) i w1 = Done () w2"
    "tornDown w2 = tornDown w1 @ concat (map shutOrder (rev (take i hs)))"
    "frameAll (allNodes (take i hs)) w1 w2"
    "\<forall>x \<in> set (allNodes (take i hs)). Stage (heap w2 x) = Teareddown"
    using Suc.IH [of w1] Suc.prems(3) by auto
  have "frameAll (allNodes (take i hs) @ nodes ?h) w w2" by (rule frameAll_trans [OF w1(2) w2(3)])
  moreover have "Stage (heap w2 x) = Teareddown" if "x \<in> set (nodes ?h)" for x
  proof (cases "x \<in> set (allNodes (take i hs))")
    case False
    then have "heap w2 x = heap w1 x" using w2(3) by (simp add: frameAll_def)
    then show ?thesis using w1(4) that by simp
  qed (use w2(4) in blast)
  ultimately show ?case
    using w1(1,3) w2 top by (intro exI [of _ w2]) (auto simp: t)
qed

lemma runningGroup_upd:
  assumes "runningGroup E w g" and "\<And>d. core (f d) = core d"
  shows "runningGroup E (upd r f w) g"
proof (rule runningGroup_transfer [OF assms(1)])
  note same = core_eqD [OF assms(2)]
  show "core (heap (upd r f w) y) = core (heap w y) \<and> mmuxServer y (tasks (upd r f w)) = mmuxServer y (tasks w)" for y
    by (simp add: assms(2))
  show "Name (heap (upd r f w) y) = Name (heap w y) \<and> container (heap (upd r f w) y) = container (heap w y)" for y
    by (simp add: same)
  show "persistReady w \<Longrightarrow> persistReady (upd r f w)" by (rule persistReady_upd) (simp_all add: same)
qed

lemma signalShutdown_groups:
  assumes "topLevelComponents w = map root (g # hs)" and "root g = r" and "groupsReady E n (g # hs) w"
    and "map_of (subscribers (heap w r)) ''root.init'' = None"
    and "set (callbacks (heap w r)) \<subseteq> {StateChangeCallback}"
  shows "\<exists>w1. (\<forall>usr1. signalShutdown E (containerStop E n) ch usr1 r w = (if usr1 then Done () w1 else Exited)) \<and>
    tornDown w1 = tornDown w @ concat (map shutOrder (rev (g # hs))) \<and>
    (\<forall>h \<in> set (g # hs). \<forall>x \<in> set (nodes h). Stage (heap w1 x) = Teareddown)"
proof -
  let ?w0 = "upd r (\<lambda>d. fst (Subscribe ''root.init'' ch d)) w"
  have ready: "groupsReady E n (g # hs) ?w0"
    using assms(3) runningGroup_upd [of E w _ "\<lambda>d. fst (Subscribe ''root.init'' ch d)" r] by (simp add: groupsReady_def)
  have top: "topLevelComponents ?w0 = map root (g # hs)" using assms(1) by simp
  have watch: "watched ''root.init'' ch (heap ?w0 r)"
    using assms(4,5) by (simp add: watched_def Subscribe_def)
  have "groupsReady E n (take (length hs) hs) ?w0" using ready by (simp add: groupsReady_def)
  then obtain w2 where w2: "sendShutdowns E (containerStop E n) (length hs) ?w0 = Done () w2"
    "tornDown w2 = tornDown ?w0 @ concat (map shutOrder (rev hs))" "frameAll (allNodes hs) ?w0 w2"
    "\<forall>x \<in> set (allNodes hs). Stage (heap w2 x) = Teareddown"
    using sendShutdowns_groups [OF _ top order_refl] by (metis take_all order_refl upd_sel(10))
  have dis: "set (nodes g) \<inter> set (allNodes hs) = {}"
    using ready by (auto simp: groupsReady_def)
  have g: "runningGroup E w2 g" "length (nodes g) \<le> n" "distinct (nodes g)"
    using ready runningGroup_frame [OF _ w2(3) dis] groupsReady_nodes [OF ready, of g] by (simp_all add: groupsReady_def)
  have "r \<notin> set (allNodes hs)" using dis assms(2) root_node [of g] by blast
  then have r2: "heap w2 r = heap ?w0 r" using w2(3) unfolding frameAll_def by blast
  have gr: "g = CNode r (parts g)" using assms(2) by (cases g) simp
  obtain w3 d where w3: "SendSyncMessage E (containerStop E n) r ControlMsgType (controlLookup Shutdown) w2 = Done None w3"
    "frameAll (nodes g) w2 w3" "tornDown w3 = tornDown w2 @ shutOrder g"
    "\<forall>x \<in> set (nodes g). Stage (heap w3 x) = Teareddown" "seenAlike (setStage E Stopping (heap w2 r)) d"
    "trace (heap w3 r) = trace (setStage E Teareddown (tearDown (setStage E Stopped d)))"
    using shutdown_container [OF g gr] by blast
  have seen: "rootStopped ch (drop (length (trace (heap ?w0 r))) (trace (heap w3 r)))"
    using root_seen_stopped [OF watch w3(5) [unfolded r2]] unfolding w3(6) .
  have top2: "topLevelComponents w2 = r # map root hs" using w2(3) top assms(2) by (simp add: frameAll_def)
  have run: "signalShutdown E (containerStop E n) ch b r w = (if b then Done () w3 else Exited)" for b
    using w2(1) w3(1) seen top top2 by (simp add: signalShutdown_def Let_def del: upd_sel(1))
  have "Stage (heap w3 x) = Teareddown" if "h \<in> set (g # hs)" "x \<in> set (nodes h)" for h x
  proof (cases "x \<in> set (nodes g)")
    case False
    then have "x \<in> set (allNodes hs)" "heap w3 x = heap w2 x"
      using that w3(2) by (auto simp: frameAll_def)
    then show ?thesis using w2(4) by metis
  qed (use w3(4) in blast)
  moreover have "tornDown w3 = tornDown w @ concat (map shutOrder (rev (g # hs)))"
    using w2(2) w3(3) by simp
  ultimately show ?thesis using run by (intro exI [of _ w3]) blast
qed

text \<open>
  C1: on a signal the process shuts down in good order. If every top level container runs, with all it
  holds, containers in containers to any depth, with no message waiting, the components stop without an error, persistence is off
  or works, and nothing but the framework's callback is registered with the root container, then the handler shuts the
  containers down in the reverse order of their activation, each after everything it holds, last in
  first out, and the root container at the very end; it sees the root container stop and exits the
  process. After \<^verbatim>\<open>SIGUSR1\<close> the same happens but for the exit, and every component is torn down.
\<close>

theorem signal_shuts_everything_down:
  assumes "topLevelComponents w = map root (g # hs)" and "root g = r" and "groupsReady E n (g # hs) w"
    and "map_of (subscribers (heap w r)) ''root.init'' = None"
    and "set (callbacks (heap w r)) \<subseteq> {StateChangeCallback}"
  shows "signalShutdown E (containerStop E n) ch False r w = Exited \<and>
    (\<exists>w1. signalShutdown E (containerStop E n) ch True r w = Done () w1 \<and>
       tornDown w1 = tornDown w @ concat (map shutOrder (rev (g # hs))) \<and>
       (\<forall>h \<in> set (g # hs). \<forall>x \<in> set (nodes h). Stage (heap w1 x) = Teareddown))"
proof -
  obtain w1 where w1: "\<forall>usr1. signalShutdown E (containerStop E n) ch usr1 r w = (if usr1 then Done () w1 else Exited)"
    "tornDown w1 = tornDown w @ concat (map shutOrder (rev (g # hs)))"
    "\<forall>h \<in> set (g # hs). \<forall>x \<in> set (nodes h). Stage (heap w1 x) = Teareddown"
    using signalShutdown_groups [OF assms] by blast
  then show ?thesis by (intro conjI exI [of _ w1]) (simp_all del: set_simps)
qed

text \<open>
  A root container that holds the file database and a job, and an application that holds a container,
  which holds another job.
\<close>

definition openDb :: component where
  "openDb = (newComponent 4 PersistenceT ''simpleFileDB'' [''ServeHTTP''] [])
     \<lparr>Stage := Started, State := Active, mmux := True, container := Some 0,
      asPersistence := Some \<lparr>dbHandle = Some (''/db'', False), symmetricEncryptKey = Some ''key''\<rparr>\<rparr>"

definition twoContainers :: world where
  "twoContainers = sampleServing
     \<lparr>heap := (heap sampleServing)
        (0 := busyRoot\<lparr>asContainer := Some ((listing [''root'', ''simpleFileDB'', ''a''] [0, 4, 5])\<lparr>persistence := Some 4\<rparr>)\<rparr>,
         2 := busyRoot\<lparr>self := 2, Name := ''app'', gotype := AppT,
           asContainer := Some (listing [''app'', ''box''] [2, 3])\<rparr>,
         3 := busyRoot\<lparr>self := 3, Name := ''box'', container := Some 2, asContainer := Some (listing [''b''] [6])\<rparr>,
         4 := openDb, 5 := jobNamed 5 ''a'', 6 := (jobNamed 6 ''b'')\<lparr>container := Some 3\<rparr>),
      tasks := [MmuxTask 0 0, MmuxTask 0 4, MmuxTask 0 5, MmuxTask 2 2, MmuxTask 2 3, MmuxTask 3 6],
      topLevelComponents := [0, 2]\<rparr>"

lemma twoContainers_sel [simp]:
  "Name (heap twoContainers 0) = ''root''" "container (heap twoContainers 0) = None"
  "Stage (heap twoContainers 0) = Started" "openMmux (heap twoContainers 0)" "gotype (heap twoContainers 0) = ContainerT"
  "Name (heap twoContainers 2) = ''app''" "container (heap twoContainers 2) = None"
  "Stage (heap twoContainers 2) = Started" "openMmux (heap twoContainers 2)" "gotype (heap twoContainers 2) = AppT"
  "Name (heap twoContainers 3) = ''box''" "container (heap twoContainers 3) = Some 2"
  "Stage (heap twoContainers 3) = Started" "openMmux (heap twoContainers 3)" "gotype (heap twoContainers 3) = ContainerT"
  "heap twoContainers 4 = openDb"
  "heap twoContainers 5 = jobNamed 5 ''a''" "heap twoContainers 6 = (jobNamed 6 ''b'')\<lparr>container := Some 3\<rparr>"
  "tasks twoContainers = [MmuxTask 0 0, MmuxTask 0 4, MmuxTask 0 5, MmuxTask 2 2, MmuxTask 2 3, MmuxTask 3 6]"
  "topLevelComponents twoContainers = [0, 2]" "tornDown twoContainers = []" "rootContainer twoContainers = Some 0"
  "asContainer (heap twoContainers 0) \<noteq> None" "asContainer (heap twoContainers 2) \<noteq> None"
  "asContainer (heap twoContainers 3) \<noteq> None" "persistence (cpart twoContainers 0) = Some 4"
  "components (cpart twoContainers 0) = [''root'', ''simpleFileDB'', ''a'']"
  "components (cpart twoContainers 2) = [''app'', ''box'']" "components (cpart twoContainers 3) = [''b'']"
  "childOf twoContainers 0 ''root'' = Some 0" "childOf twoContainers 0 ''a'' = Some 5"
  "childOf twoContainers 0 ''simpleFileDB'' = Some 4"
  "childOf twoContainers 2 ''app'' = Some 2" "childOf twoContainers 2 ''box'' = Some 3"
  "childOf twoContainers 3 ''b'' = Some 6"
  "subscribers (heap twoContainers 0) = []" "callbacks (heap twoContainers 0) = []"
  by (simp_all add: twoContainers_def listing_def cpart_def childOf_def emptyPart_def busyRoot_def newComponent_def)

lemma openDb_sel [simp]:
  "Name openDb = ''simpleFileDB''" "Stage openDb = Started" "openMmux openDb" "gotype openDb = PersistenceT"
  "container openDb = Some 0" "asPersistence openDb = Some \<lparr>dbHandle = Some (''/db'', False), symmetricEncryptKey = Some ''key''\<rparr>"
  by (simp_all add: openDb_def newComponent_def)

lemma twoContainers_run:
  "runningGroup plainEnv twoContainers (CNode 0 [CNode 4 [], CNode 5 []])"
  "runningGroup plainEnv twoContainers (CNode 2 [CNode 3 [CNode 6 []]])"
proof -
  have "containerPaths twoContainers None [] \<noteq> None" "containerPaths twoContainers (Some 0) [] \<noteq> None"
    "containerPaths twoContainers (Some 2) [] \<noteq> None" "containerPaths twoContainers (Some 3) [] \<noteq> None"
    by (subst containerPaths.simps, simp, (subst containerPaths.simps, simp, (subst containerPaths.simps, simp)?)?)+
  then have d: "derivable twoContainers x" if "x \<in> {0, 2, 3, 4, 5, 6}" for x
    using that by (auto simp: derivable_def)
  have p: "persistReady twoContainers"
    by (simp add: persistReady_def persistenceOf_def usable_def)
  have leaf: "leafStops plainEnv openDb" "leafStops plainEnv (jobNamed x nm)" "leafStops plainEnv ((jobNamed x nm)\<lparr>container := c\<rparr>)" for x nm c
    by (simp_all add: leafStops_def Disconnect_def)
  show "runningGroup plainEnv twoContainers (CNode 0 [CNode 4 [], CNode 5 []])"
    using p d by (simp add: runningGroup_def listed_def ownNames_def leaf served_by_def containerType_def stage_order)
  show "runningGroup plainEnv twoContainers (CNode 2 [CNode 3 [CNode 6 []]])"
    using p d by (simp add: runningGroup_def listed_def ownNames_def leaf served_by_def containerType_def stage_order)
qed

theorem signal_shuts_everything_down_witness:
  "signalShutdown plainEnv (containerStop plainEnv 3) 7 False 0 twoContainers = Exited \<and>
   (\<exists>w1. signalShutdown plainEnv (containerStop plainEnv 3) 7 True 0 twoContainers = Done () w1 \<and>
      tornDown w1 = [6, 3, 2, 5, 4, 0])"
proof -
  have "groupsReady plainEnv 3 [CNode 0 [CNode 4 [], CNode 5 []], CNode 2 [CNode 3 [CNode 6 []]]] twoContainers"
    using twoContainers_run by (simp add: groupsReady_def)
  from signal_shuts_everything_down [of twoContainers "CNode 0 [CNode 4 [], CNode 5 []]" "[CNode 2 [CNode 3 [CNode 6 []]]]" 0,
    OF _ _ this, of 7]
  show ?thesis by auto
qed

end
