(* ===== verification/Startup.thy ===== *)
theory Startup
  imports Process_Shutdown
begin

text \<open>
  The start of the process: a container that is added to itself, as the root container and the
  application are, and the program from \<^verbatim>\<open>init\<close> and \<^verbatim>\<open>main\<close> to the exit on a signal.
\<close>

section \<open>A container that holds itself\<close>

lemma persistOff_upd_part:
  assumes "persistOff w" and "asContainer (f (heap w x)) = map_option g (asContainer (heap w x))"
    and "\<And>k. persistence (g k) = persistence k"
  shows "persistOff (upd x f w)"
proof -
  have "persistence (cpart (upd x f w) y) = persistence (cpart w y)" for y
    using assms(2,3) by (cases "y = x") (auto simp: cpart_def emptyPart_def split: option.split)
  then show ?thesis using assms(1) by (cases "rootContainer w") (simp_all add: persistOff_def)
qed

lemma persistOff_topLevel: "persistOff (w\<lparr>topLevelComponents := ts\<rparr>) = persistOff w"
  by (simp add: persistOff_def cpart_def split: option.split)

definition freshTables :: "containerPart \<Rightarrow> containerPart" where
  "freshTables k = k\<lparr>cComponents := Some Map.empty, cHandlers := Some Map.empty\<rparr>"

lemma freshTables_sel [simp]:
  "cComponents (freshTables k) = Some Map.empty" "cHandlers (freshTables k) = Some Map.empty"
  "components (freshTables k) = components k" "persistence (freshTables k) = persistence k"
  "compActivationQueue (freshTables k) = compActivationQueue k"
  by (simp_all add: freshTables_def)

lemma initComponent_container:
  assumes "gotype (heap w x) = ContainerT \<or> gotype (heap w x) = AppT" and "persistOff w" and "mmux (heap w x)"
  shows "\<exists>d1. initComponent E x w = Done None (upd x (\<lambda>_. d1) w) \<and>
    reaches Initialized ((heap w x)\<lparr>asContainer := map_option freshTables (asContainer (heap w x))\<rparr>) d1"
proof -
  let ?d = "(setStage E Initializing (heap w x))\<lparr>asContainer := map_option freshTables (asContainer (heap w x))\<rparr>"
  obtain fs where fs: "initComponent E x w =
      Done None (upd x (\<lambda>_. setStage E Initialized (?d\<lparr>userFields := fs\<rparr>)) w)"
  proof (cases "gotype (heap w x) = AppT")
    case True
    then show ?thesis using assms(2)
      by (intro that) (simp add: initComponent_def virtualInit_def virtualPostInit_def containerInit_def
          appPostInit_def updPart_def upd_upd, simp add: upd_def freshTables_def [abs_def])
  next
    case False
    have "?d = ?d\<lparr>userFields := userFields ?d\<rparr>" by simp
    then show ?thesis using False assms(1,2)
      by (intro that [of "userFields ?d"])
        (simp add: initComponent_def virtualInit_def virtualPostInit_def containerInit_def
          updPart_def upd_upd, simp add: upd_def freshTables_def [abs_def])
  qed
  moreover have "reaches Initialized ((heap w x)\<lparr>asContainer := map_option freshTables (asContainer (heap w x))\<rparr>)
      (setStage E Initialized (?d\<lparr>userFields := fs\<rparr>))"
    using assms(3) by (simp add: reaches_def)
  ultimately show ?thesis by blast
qed

lemma initialize_container:
  assumes "Stage (heap w x) = Submitted" and "persistOff w"
    and "gotype (heap w x) = ContainerT \<or> gotype (heap w x) = AppT"
  shows "\<exists>d1. componentLifecycleFSM E halt c ctx x w = Done None (addTask (MmuxTask c x) (upd x (\<lambda>_. d1) w)) \<and>
    reaches Initialized ((heap w x)\<lparr>asContainer := map_option freshTables (asContainer (heap w x))\<rparr>) d1"
proof -
  obtain d0 where d0: "stageSwitch E halt c ctx x w = initComponent E x (addTask (MmuxTask c x) (upd x (\<lambda>_. d0) w))"
    "reaches Preinitialized (heap w x) d0"
    using fsm_submitted [OF assms(1)] by blast
  let ?w1 = "addTask (MmuxTask c x) (upd x (\<lambda>_. d0) w)"
  have h: "heap ?w1 x = d0" by simp
  have i: "gotype d0 = ContainerT \<or> gotype d0 = AppT" "mmux d0" using assms(3) d0(2) by (simp_all add: reaches_def)
  have po: "persistOff ?w1" using assms(2) d0(2) by (simp add: persistOff_upd_at reaches_def)
  obtain d1 where d1: "initComponent E x ?w1 = Done None (upd x (\<lambda>_. d1) ?w1)"
    "reaches Initialized (d0\<lparr>asContainer := map_option freshTables (asContainer d0)\<rparr>) d1"
    using initComponent_container [of ?w1 x E] i po unfolding h by blast
  have "persistOff (upd x (\<lambda>_. d1) ?w1)"
    by (rule persistOff_upd_part [OF po, of _ _ freshTables]) (use d1(2) in \<open>simp_all add: reaches_def\<close>)
  then have "componentLifecycleFSM E halt c ctx x w = Done None (addTask (MmuxTask c x) (upd x (\<lambda>_. d1) w))"
    using d0(1) d1(1) by (simp add: componentLifecycleFSM_def upd_addTask upd_upd)
  moreover have "reaches Initialized ((heap w x)\<lparr>asContainer := map_option freshTables (asContainer (heap w x))\<rparr>) d1"
    using d0(2) d1(2) by (simp add: reaches_def)
  ultimately show ?thesis by blast
qed

section \<open>Adding a container to itself\<close>

definition bootable :: "cid \<Rightarrow> cid \<Rightarrow> world \<Rightarrow> bool" where
  "bootable r c w \<longleftrightarrow>
     Stage (heap w c) = Submitted \<and> (gotype (heap w c) = ContainerT \<or> gotype (heap w c) = AppT) \<and>
     asContainer (heap w c) = Some emptyPart \<and> container (heap w c) = None \<and> mmuxBuffer (heap w c) = None \<and>
     httpMethods (heap w c) = [''ServeHTTP''] \<and> \<not> isNonRestEntity (heap w c) \<and>
     validateName w (Some c) = None \<and> rootContainer w = Some r \<and> addons w = [] \<and>
     (r \<noteq> c \<longrightarrow> asContainer (heap w r) \<noteq> None \<and> cHandlers (cpart w r) \<noteq> None)"

text \<open>What \<^verbatim>\<open>Add\<close> leaves: the container runs and is its own first component.\<close>

definition booted :: "cid \<Rightarrow> cid \<Rightarrow> world \<Rightarrow> world \<Rightarrow> bool" where
  "booted r c w w1 \<longleftrightarrow>
     (\<exists>a b. reaches Started ((heap w c)\<lparr>asContainer := a, persistanceCache := b\<rparr>) (heap w1 c)) \<and>
     asContainer (heap w1 c) \<noteq> None \<and>
     components (cpart w1 c) = [Name (heap w c)] \<and> childOf w1 c (Name (heap w c)) = Some c \<and>
     cComponents (cpart w1 c) = Some [Name (heap w c) \<mapsto> \<lparr>cName = Name (heap w c), ccomp = Some c\<rparr>] \<and>
     cHandlers (cpart w1 r) \<noteq> None \<and> persistence (cpart w1 r) = persistence (cpart w r) \<and>
     tasks w1 = tasks w @ [MmuxTask c c, PreStartTask c, StartTask c c] \<and>
     topLevelComponents w1 = topLevelComponents w @ [c] \<and> tornDown w1 = tornDown w \<and>
     rootContainer w1 = rootContainer w \<and> addons w1 = [] \<and>
     runOncePersistence w1 = runOncePersistence w \<and> runOnceHttp w1 = runOnceHttp w \<and>
     (\<forall>y. y \<noteq> c \<longrightarrow> (\<exists>h. heap w1 y = (heap w y)\<lparr>asContainer := map_option (\<lambda>k. k\<lparr>cHandlers := h k\<rparr>) (asContainer (heap w y))\<rparr>))"

lemma booted_other:
  assumes "booted r c w w1" and "y \<noteq> c"
  obtains f where "heap w1 y = (heap w y)\<lparr>asContainer := f\<rparr>"
  using assms unfolding booted_def by blast

lemma booted_name: "booted r c w w1 \<Longrightarrow> Name (heap w1 c) = Name (heap w c) \<and> childOf w1 c (Name (heap w c)) = Some c"
  by (auto simp: booted_def reaches_def)

lemma toCanonical_itself:
  assumes "container (heap w c) = None" and "httpMethods (heap w c) = [''ServeHTTP'']"
    and "\<not> isNonRestEntity (heap w c)" and "rootContainer w = Some r" and "cHandlers (cpart w r) = Some tbl"
  shows "\<exists>u hs. toCanonical c c w = Done \<lparr>cName = Name (heap w c), ccomp = Some c\<rparr>
    (updPart r (\<lambda>k. k\<lparr>cHandlers := Some hs\<rparr>)
       (upd c (\<lambda>d. d\<lparr>uri := u\<rparr>) (w\<lparr>topLevelComponents := topLevelComponents w @ [c]\<rparr>)))"
proof -
  let ?w1 = "w\<lparr>topLevelComponents := topLevelComponents w @ [c]\<rparr>"
  have "containerPaths ?w1 None [] = Some []" by (subst containerPaths.simps) simp
  then have "deriveHttpHandlers c ?w1 = Done (handlersOf c (componentURI [] (Name (heap w c))) [''ServeHTTP''])
      (upd c (\<lambda>d. d\<lparr>uri := componentURI [] (Name (heap w c))\<rparr>) ?w1)"
    using assms(1-3) by (simp add: deriveHttpHandlers_def Let_def)
  moreover have "cpart (upd c (\<lambda>d. d\<lparr>uri := u\<rparr>) ?w1) r = cpart w r" for u by (simp add: cpart_def)
  ultimately show ?thesis
    using assms(4,5) by (auto simp: toCanonical_def Matches_def Let_def handlersOf_def)
qed

text \<open>
  The part of the activation between the two calls of the state machine, whatever these do about
  persistence.
\<close>

definition filed :: "cid \<Rightarrow> cid \<Rightarrow> world \<Rightarrow> world \<Rightarrow> bool" where
  "filed r c w w1 \<longleftrightarrow>
     (\<exists>u k. heap w1 c = (heap w c)\<lparr>uri := u, asContainer := Some k\<rparr> \<and>
        cComponents k = Some [Name (heap w c) \<mapsto> \<lparr>cName = Name (heap w c), ccomp = Some c\<rparr>] \<and>
        components k = [Name (heap w c)] \<and> persistence k = persistence (cpart w c) \<and>
        (r = c \<longrightarrow> cHandlers k \<noteq> None)) \<and>
     (\<exists>hs. \<forall>y. y \<noteq> c \<longrightarrow> heap w1 y = (if y = r then (heap w y)\<lparr>asContainer :=
        map_option (\<lambda>k. k\<lparr>cHandlers := Some hs\<rparr>) (asContainer (heap w y))\<rparr> else heap w y)) \<and>
     topLevelComponents w1 = topLevelComponents w @ [c] \<and> rootContainer w1 = rootContainer w \<and> addons w1 = addons w \<and>
     tasks w1 = tasks w \<and> disk w1 = disk w \<and> nonces w1 = nonces w \<and> tornDown w1 = tornDown w \<and>
     runOncePersistence w1 = runOncePersistence w \<and> runOnceHttp w1 = runOnceHttp w"

lemma file_itself:
  assumes "container (heap w c) = None" and "httpMethods (heap w c) = [''ServeHTTP'']"
    and "\<not> isNonRestEntity (heap w c)" and "rootContainer w = Some r" and "cHandlers (cpart w r) \<noteq> None"
    and "asContainer (heap w c) = Some k0" and "cComponents k0 = Some Map.empty" and "components k0 = []"
    and f1: "componentLifecycleFSM E halt c background c v = Done None w"
  shows "\<exists>w3. filed r c w w3 \<and>
    (\<forall>w4. componentLifecycleFSM E halt c background c w3 = Done None w4 \<longrightarrow> gotype (heap w4 c) \<noteq> PersistenceT \<longrightarrow>
       activateComponent E halt c c v = Done None w4)"
proof -
  let ?n = "Name (heap w c)"
  obtain u hs where t: "toCanonical c c w = Done \<lparr>cName = ?n, ccomp = Some c\<rparr>
    (updPart r (\<lambda>k. k\<lparr>cHandlers := Some hs\<rparr>)
       (upd c (\<lambda>d. d\<lparr>uri := u\<rparr>) (w\<lparr>topLevelComponents := topLevelComponents w @ [c]\<rparr>)))"
    using toCanonical_itself [OF assms(1-4)] assms(5) by blast
  define w2 where "w2 = updPart r (\<lambda>k. k\<lparr>cHandlers := Some hs\<rparr>)
       (upd c (\<lambda>d. d\<lparr>uri := u\<rparr>) (w\<lparr>topLevelComponents := topLevelComponents w @ [c]\<rparr>))"
  define k2 where "k2 = (if r = c then k0\<lparr>cHandlers := Some hs\<rparr> else k0)"
  have k2: "cComponents k2 = Some Map.empty" "components k2 = []" "persistence k2 = persistence k0"
    "r = c \<longrightarrow> cHandlers k2 \<noteq> None"
    using assms(7,8) by (simp_all add: k2_def)
  have h2: "heap w2 c = (heap w c)\<lparr>uri := u, asContainer := Some k2\<rparr>"
    using assms(6) by (simp add: w2_def k2_def)
  have part2: "cpart w2 c = k2" and part: "cpart w c = k0" using assms(6) by (simp_all add: cpart_def h2)
  let ?k = "k2\<lparr>cComponents := Some [?n \<mapsto> \<lparr>cName = ?n, ccomp = Some c\<rparr>], components := [?n]\<rparr>"
  have e: "enterComponent (Name (heap w2 c)) \<lparr>cName = ?n, ccomp = Some c\<rparr> (cpart w2 c) = (?k, None)"
    using enterComponent_free [OF k2(1)] k2(2) by (simp add: part2 h2)
  define w3 where "w3 = updPart c (\<lambda>_. ?k) w2"
  have h3: "heap w3 c = (heap w c)\<lparr>uri := u, asContainer := Some ?k\<rparr>" by (simp add: w3_def h2)
  have "heap w3 y = (if y = r then (heap w y)\<lparr>asContainer :=
        map_option (\<lambda>k. k\<lparr>cHandlers := Some hs\<rparr>) (asContainer (heap w y))\<rparr> else heap w y)" if "y \<noteq> c" for y
    using that by (simp add: w3_def w2_def)
  moreover have "topLevelComponents w3 = topLevelComponents w @ [c]" "rootContainer w3 = rootContainer w"
    "addons w3 = addons w" "tasks w3 = tasks w" "disk w3 = disk w" "nonces w3 = nonces w" "tornDown w3 = tornDown w"
    "runOncePersistence w3 = runOncePersistence w" "runOnceHttp w3 = runOnceHttp w"
    by (simp_all add: w3_def w2_def)
  moreover have "\<exists>u k. heap w3 c = (heap w c)\<lparr>uri := u, asContainer := Some k\<rparr> \<and>
        cComponents k = Some [?n \<mapsto> \<lparr>cName = ?n, ccomp = Some c\<rparr>] \<and>
        components k = [?n] \<and> persistence k = persistence (cpart w c) \<and> (r = c \<longrightarrow> cHandlers k \<noteq> None)"
    using h3 k2(3,4) part by (intro exI [of _ u] exI [of _ ?k]) simp
  ultimately have "filed r c w w3" unfolding filed_def by blast
  moreover have "activateComponent E halt c c v = Done None w4"
    if "componentLifecycleFSM E halt c background c w3 = Done None w4" "gotype (heap w4 c) \<noteq> PersistenceT" for w4
    using that f1 t [folded w2_def] e k2(1)
    by (simp add: activateComponent_def registerAddon_def part2 w3_def [symmetric])
  ultimately show ?thesis by blast
qed

text \<open>
  The whole of \<^verbatim>\<open>Add\<close>, for two calls of the state machine that succeed: the first makes the tables and
  takes the component to \<^verbatim>\<open>Initialized\<close>, the second one takes it to \<^verbatim>\<open>Started\<close>.
\<close>

definition initialized :: "cid \<Rightarrow> world \<Rightarrow> world \<Rightarrow> bool" where
  "initialized c w w1 \<longleftrightarrow>
     (\<exists>b. reaches Initialized ((heap w c)\<lparr>asContainer := map_option freshTables (asContainer (heap w c)),
        persistanceCache := b\<rparr>) (heap w1 c)) \<and>
     (\<forall>y. y \<noteq> c \<longrightarrow> heap w1 y = heap w y) \<and> tasks w1 = tasks w @ [MmuxTask c c] \<and>
     rootContainer w1 = rootContainer w \<and> addons w1 = addons w \<and> topLevelComponents w1 = topLevelComponents w \<and>
     tornDown w1 = tornDown w \<and> runOncePersistence w1 = runOncePersistence w \<and> runOnceHttp w1 = runOnceHttp w"

definition started :: "cid \<Rightarrow> world \<Rightarrow> world \<Rightarrow> bool" where
  "started c w w1 \<longleftrightarrow>
     reaches Started (heap w c) (heap w1 c) \<and>
     (\<forall>y. y \<noteq> c \<longrightarrow> heap w1 y = heap w y) \<and> tasks w1 = tasks w @ [PreStartTask c, StartTask c c] \<and>
     rootContainer w1 = rootContainer w \<and> addons w1 = addons w \<and> topLevelComponents w1 = topLevelComponents w \<and>
     tornDown w1 = tornDown w \<and> runOncePersistence w1 = runOncePersistence w \<and> runOnceHttp w1 = runOnceHttp w"

lemma Add_bootable:
  assumes "bootable r c w" and "w0 = updPart c (\<lambda>k. k\<lparr>compActivationQueue := True\<rparr>) w"
    and f1: "componentLifecycleFSM E halt c background c w0 = Done None w1" and i: "initialized c w0 w1"
  shows "\<exists>w3. filed r c w1 w3 \<and>
    (\<forall>w4. componentLifecycleFSM E halt c background c w3 = Done None w4 \<longrightarrow> started c w3 w4 \<longrightarrow>
       Add E halt c (Some c) w = Done None w4 \<and> booted r c w w4)"
proof -
  let ?n = "Name (heap w c)"
  have a: "Stage (heap w c) = Submitted" "gotype (heap w c) = ContainerT \<or> gotype (heap w c) = AppT"
    "asContainer (heap w c) = Some emptyPart" "container (heap w c) = None" "httpMethods (heap w c) = [''ServeHTTP'']"
    "\<not> isNonRestEntity (heap w c)" "validateName w (Some c) = None" "rootContainer w = Some r" "addons w = []"
    using assms(1) by (simp_all add: bootable_def)
  let ?k0 = "emptyPart\<lparr>compActivationQueue := True\<rparr>"
  have h0: "heap w0 c = (heap w c)\<lparr>asContainer := Some ?k0\<rparr>" using a(3) by (simp add: assms(2))
  have other0: "heap w1 y = heap w y" if "y \<noteq> c" for y using i that by (simp add: initialized_def assms(2))
  have r1: "gotype (heap w1 c) = gotype (heap w c)" "container (heap w1 c) = None" "httpMethods (heap w1 c) = [''ServeHTTP'']"
    "\<not> isNonRestEntity (heap w1 c)" "Name (heap w1 c) = ?n" "asContainer (heap w1 c) = Some (freshTables ?k0)"
    using i a h0 by (auto simp: initialized_def reaches_def)
  have root1: "rootContainer w1 = Some r" "addons w1 = []" "tornDown w1 = tornDown w" "topLevelComponents w1 = topLevelComponents w"
    "tasks w1 = tasks w @ [MmuxTask c c]" "runOncePersistence w1 = runOncePersistence w" "runOnceHttp w1 = runOnceHttp w"
    using i a by (simp_all add: initialized_def assms(2))
  have tbl: "cHandlers (cpart w1 r) \<noteq> None"
  proof (cases "r = c")
    case False
    then have "cpart w1 r = cpart w r" by (simp add: cpart_def other0)
    then show ?thesis using assms(1) False by (auto simp: bootable_def)
  qed (use r1(6) in \<open>simp add: cpart_def\<close>)
  obtain w3 where w3: "filed r c w1 w3"
    "\<forall>w4. componentLifecycleFSM E halt c background c w3 = Done None w4 \<longrightarrow> gotype (heap w4 c) \<noteq> PersistenceT \<longrightarrow>
       activateComponent E halt c c w0 = Done None w4"
    using file_itself [OF r1(2-4) root1(1) tbl r1(6) _ _ f1] by (auto simp: emptyPart_def)
  have part1: "persistence (cpart w1 c) = None" by (simp add: cpart_def r1(6) emptyPart_def)
  obtain u k where h3: "heap w3 c = (heap w1 c)\<lparr>uri := u, asContainer := Some k\<rparr>"
    and k: "cComponents k = Some [?n \<mapsto> \<lparr>cName = ?n, ccomp = Some c\<rparr>]" "components k = [?n]"
      "persistence k = None" "r = c \<longrightarrow> cHandlers k \<noteq> None"
    using w3(1) unfolding filed_def part1 r1(5) by blast
  obtain hs where other: "\<forall>y. y \<noteq> c \<longrightarrow> heap w3 y = (if y = r then (heap w1 y)\<lparr>asContainer :=
        map_option (\<lambda>k. k\<lparr>cHandlers := Some hs\<rparr>) (asContainer (heap w1 y))\<rparr> else heap w1 y)"
    using w3(1) unfolding filed_def by blast
  have "Add E halt c (Some c) w = Done None w4 \<and> booted r c w w4"
    if f2: "componentLifecycleFSM E halt c background c w3 = Done None w4" and s: "started c w3 w4" for w4
  proof
    have g: "gotype (heap w4 c) = gotype (heap w c)" using s r1(1) h3 by (simp add: started_def reaches_def)
    then have "gotype (heap w4 c) \<noteq> PersistenceT" using a(2) by auto
    then have act: "activateComponent E halt c c w0 = Done None w4" using w3(2) f2 by blast
    have sel: "rootContainer w4 = Some r" "addons w4 = []" "tornDown w4 = tornDown w"
      "topLevelComponents w4 = topLevelComponents w @ [c]" "tasks w4 = tasks w @ [MmuxTask c c, PreStartTask c, StartTask c c]"
      "runOncePersistence w4 = runOncePersistence w" "runOnceHttp w4 = runOnceHttp w"
      using s w3(1) root1 by (simp_all add: started_def filed_def)
    have "addComponent E halt c (Some c) w = activateComponent E halt c c w0"
      using a(1,3,7) assms(2) by (simp add: addComponent_def Matches_def Let_def cpart_def emptyPart_def stage_order)
    then show "Add E halt c (Some c) w = Done None w4" using act sel by (simp add: Add_def)
    have part4: "asContainer (heap w4 c) = Some k" using s h3 by (simp add: started_def reaches_def)
    then have c4: "cpart w4 c = k" by (simp add: cpart_def)
    have y4: "heap w4 y = (if y = r then (heap w y)\<lparr>asContainer :=
        map_option (\<lambda>k. k\<lparr>cHandlers := Some hs\<rparr>) (asContainer (heap w y))\<rparr> else heap w y)" if "y \<noteq> c" for y
      using s other other0 that by (simp add: started_def)
    obtain b where "reaches Initialized ((heap w0 c)\<lparr>asContainer := map_option freshTables (asContainer (heap w0 c)),
        persistanceCache := b\<rparr>) (heap w1 c)"
      using i by (auto simp: initialized_def)
    then have "reaches Started ((heap w c)\<lparr>asContainer := Some k, persistanceCache := b\<rparr>) (heap w4 c)"
      using s unfolding started_def h3 by (simp add: reaches_def h0)
    moreover have "cHandlers (cpart w4 r) \<noteq> None \<and> persistence (cpart w4 r) = persistence (cpart w r)"
    proof (cases "r = c")
      case True
      then show ?thesis using c4 k(3,4) a(3) by (simp add: cpart_def emptyPart_def)
    next
      case False
      then show ?thesis using assms(1) y4 [OF False] by (auto simp: bootable_def cpart_def)
    qed
    moreover have "\<exists>h. heap w4 y = (heap w y)\<lparr>asContainer := map_option (\<lambda>k. k\<lparr>cHandlers := h k\<rparr>) (asContainer (heap w y))\<rparr>"
      if "y \<noteq> c" for y
      using y4 [OF that]
      by (cases "y = r") (auto simp: option.map_ident intro: exI [of _ "\<lambda>_. Some hs"] exI [of _ cHandlers])
    moreover have "childOf w4 c ?n = Some c" by (simp add: childOf_def c4 k(1))
    ultimately show "booted r c w w4"
      using sel a(8) part4 k(1,2) c4 unfolding booted_def by simp blast
  qed
  then show ?thesis using w3(1) by blast
qed

lemma Add_itself:
  assumes "bootable r c w" and "persistOff w"
  shows "\<exists>w1. Add E halt c (Some c) w = Done None w1 \<and> booted r c w w1 \<and> persistOff w1 \<and> disk w1 = disk w"
proof -
  have a: "Stage (heap w c) = Submitted" "gotype (heap w c) = ContainerT \<or> gotype (heap w c) = AppT"
    "rootContainer w = Some r" "asContainer (heap w c) = Some emptyPart"
    using assms(1) by (simp_all add: bootable_def)
  define w0 where "w0 = updPart c (\<lambda>k. k\<lparr>compActivationQueue := True\<rparr>) w"
  have po0: "persistOff w0" using assms(2) by (simp add: w0_def)
  obtain d1 where f1: "componentLifecycleFSM E halt c background c w0 = Done None (addTask (MmuxTask c c) (upd c (\<lambda>_. d1) w0))"
    and d1: "reaches Initialized ((heap w0 c)\<lparr>asContainer := map_option freshTables (asContainer (heap w0 c))\<rparr>) d1"
    using initialize_container [of w0 c E halt c background] a po0 by (auto simp: w0_def)
  let ?w1 = "addTask (MmuxTask c c) (upd c (\<lambda>_. d1) w0)"
  have "(heap w0 c)\<lparr>asContainer := b, persistanceCache := persistanceCache (heap w0 c)\<rparr> = (heap w0 c)\<lparr>asContainer := b\<rparr>" for b
    by simp
  then have "reaches Initialized ((heap w0 c)\<lparr>asContainer := map_option freshTables (asContainer (heap w0 c)),
      persistanceCache := persistanceCache (heap w0 c)\<rparr>) (heap ?w1 c)"
    using d1 by simp
  then have "\<exists>b. reaches Initialized ((heap w0 c)\<lparr>asContainer := map_option freshTables (asContainer (heap w0 c)),
      persistanceCache := b\<rparr>) (heap ?w1 c)"
    by blast
  then have i: "initialized c w0 ?w1" unfolding initialized_def by simp
  obtain w3 where w3: "filed r c ?w1 w3" "\<forall>w4. componentLifecycleFSM E halt c background c w3 = Done None w4 \<longrightarrow>
      started c w3 w4 \<longrightarrow> Add E halt c (Some c) w = Done None w4 \<and> booted r c w w4"
    using Add_bootable [OF assms(1) w0_def f1 i] by blast
  have "persistence (cpart ?w1 r) = None"
    using po0 a(3) d1 by (cases "r = c") (auto simp: persistOff_def cpart_def w0_def reaches_def emptyPart_def split: option.splits)
  then have po3: "persistOff w3"
    using w3(1) a(3) by (cases "r = c") (auto simp: filed_def persistOff_def cpart_def w0_def emptyPart_def split: option.splits)
  obtain u k where "heap w3 c = (heap ?w1 c)\<lparr>uri := u, asContainer := Some k\<rparr>" using w3(1) unfolding filed_def by blast
  then have st3: "Stage (heap w3 c) = Initialized" "mmux (heap w3 c)" using d1 by (simp_all add: reaches_def)
  obtain d4 where f2: "componentLifecycleFSM E halt c background c w3 =
      Done None (addTask (StartTask c c) (addTask (PreStartTask c) (upd c (\<lambda>_. d4) w3)))"
    and d4: "reaches Started (heap w3 c) d4"
    using start_component [of w3 c E halt c background] po3 st3 by auto
  let ?w4 = "addTask (StartTask c c) (addTask (PreStartTask c) (upd c (\<lambda>_. d4) w3))"
  have "started c w3 ?w4" using d4 by (simp add: started_def)
  moreover have "persistOff ?w4" using po3 d4 by (simp add: persistOff_upd_at reaches_def)
  moreover have "disk ?w4 = disk w" using w3(1) by (simp add: filed_def w0_def)
  ultimately show ?thesis using w3(2) f2 by blast
qed

section \<open>From the start to the exit\<close>

text \<open>A container that runs, holds itself only and is in no other container.\<close>

definition lone :: "world \<Rightarrow> cid \<Rightarrow> bool" where
  "lone w c \<longleftrightarrow>
     Stage (heap w c) = Started \<and> openMmux (heap w c) \<and> containerType (gotype (heap w c)) \<and>
     container (heap w c) = None \<and> asContainer (heap w c) \<noteq> None \<and>
     components (cpart w c) = [Name (heap w c)] \<and> childOf w c (Name (heap w c)) = Some c \<and>
     mmuxServer c (tasks w) = Some c"

lemma lone_group:
  assumes "lone w c" and "persistReady w"
  shows "runningGroup E w (CNode c [])"
proof -
  have "containerPaths w None [] \<noteq> None" by (subst containerPaths.simps) simp
  then show ?thesis
    using assms by (simp add: lone_def runningGroup_def listed_def ownNames_def served_by_def derivable_def stage_order)
qed

lemma booted_lone:
  assumes "booted r c w w1" and "bootable r c w" and "mmuxServer c (tasks w) = None"
  shows "lone w1 c"
proof -
  obtain a b where "reaches Started ((heap w c)\<lparr>asContainer := a, persistanceCache := b\<rparr>) (heap w1 c)"
    using assms(1) by (auto simp: booted_def)
  then show ?thesis
    using assms by (auto simp: lone_def booted_def bootable_def reaches_def mmuxServer_append containerType_def)
qed

lemma booted_keeps_lone:
  assumes "booted r c w w1" and "lone w y" and "y \<noteq> c"
  shows "lone w1 y"
proof -
  obtain f where f: "heap w1 y = (heap w y)\<lparr>asContainer := map_option (\<lambda>k. k\<lparr>cHandlers := f k\<rparr>) (asContainer (heap w y))\<rparr>"
    using assms(1,3) unfolding booted_def by blast
  have part: "components (cpart w1 y) = components (cpart w y)" "cComponents (cpart w1 y) = cComponents (cpart w y)"
    by (simp_all add: cpart_def f emptyPart_def split: option.split)
  then have "childOf w1 y n = childOf w y n" for n by (simp add: childOf_def)
  moreover have "mmuxServer y (tasks w1) = mmuxServer y (tasks w)"
    using assms(1,3) by (simp add: booted_def mmuxServer_append split: option.split)
  ultimately show ?thesis
    using assms(2) part by (simp add: lone_def f)
qed

lemma quiet_newComponent [simp]: "quiet (newComponent x t n ms fs)" "subscribers (newComponent x t n ms fs) = []"
  by (simp_all add: quiet_def newComponent_def)

definition rootMade :: "cid \<Rightarrow> world \<Rightarrow> world" where
  "rootMade r w = w\<lparr>heap := (heap w)(r := newComponent r ContainerT ''root'' [''ServeHTTP''] []), rootContainer := Some r\<rparr>"

lemma rootMade_sel [simp]:
  "heap (rootMade r w) r = newComponent r ContainerT ''root'' [''ServeHTTP''] []"
  "y \<noteq> r \<Longrightarrow> heap (rootMade r w) y = heap w y" "rootContainer (rootMade r w) = Some r"
  "tasks (rootMade r w) = tasks w" "addons (rootMade r w) = addons w"
  "topLevelComponents (rootMade r w) = topLevelComponents w" "tornDown (rootMade r w) = tornDown w"
  "disk (rootMade r w) = disk w" "runOncePersistence (rootMade r w) = runOncePersistence w" "runOnceHttp (rootMade r w) = runOnceHttp w"
  by (simp_all add: rootMade_def)

lemma bootable_root:
  assumes "addons w = []"
  shows "bootable r r (rootMade r w)"
proof -
  have "\<not> list_ex (\<lambda>c. \<not> allowedChar c) ''root''" by code_simp
  then show ?thesis
    using assms by (simp add: bootable_def newComponent_def validateName_def)
qed

lemma initProcess_boots:
  assumes "addons w = []"
  shows "\<exists>w1. initProcess E halt r w = Done () w1 \<and> booted r r (rootMade r w) w1 \<and> persistOff w1 \<and> disk w1 = disk w"
proof -
  have "persistOff (rootMade r w)" by (simp add: persistOff_def cpart_def newComponent_def emptyPart_def)
  then obtain w1 where w1: "Add E halt r (Some r) (rootMade r w) = Done None w1" "booted r r (rootMade r w) w1"
    "persistOff w1" "disk w1 = disk w"
    using Add_itself [OF bootable_root [OF assms]] by fastforce
  moreover have "initProcess E halt r w = Done () w1"
    using w1(1) by (simp add: initProcess_def AttachComponent_def rootMade_def)
  ultimately show ?thesis by blast
qed

lemma root_lone:
  assumes "booted r r (rootMade r w) w1" and "addons w = []" and "mmuxServer r (tasks w) = None"
  shows "lone w1 r" and "quiet (heap w1 r)" and "subscribers (heap w1 r) = []"
proof -
  show "lone w1 r" by (rule booted_lone [OF assms(1) bootable_root [OF assms(2)]]) (simp add: assms(3))
  show "quiet (heap w1 r)" "subscribers (heap w1 r) = []"
    using assms(1) by (auto simp: booted_def reaches_def)
qed

definition appMade :: "cid \<Rightarrow> world \<Rightarrow> world" where
  "appMade a w = w\<lparr>heap := (heap w)(a := newApp a)\<rparr>"

lemma appMade_sel [simp]:
  "heap (appMade a w) a = newApp a" "y \<noteq> a \<Longrightarrow> heap (appMade a w) y = heap w y"
  "y \<noteq> a \<Longrightarrow> cpart (appMade a w) y = cpart w y" "rootContainer (appMade a w) = rootContainer w"
  "tasks (appMade a w) = tasks w" "addons (appMade a w) = addons w"
  "topLevelComponents (appMade a w) = topLevelComponents w" "tornDown (appMade a w) = tornDown w"
  "disk (appMade a w) = disk w"
  by (simp_all add: appMade_def cpart_def)

lemma bootable_app:
  assumes "rootContainer w = Some r" and "addons w = []" and "r \<noteq> a"
    and "asContainer (heap w r) \<noteq> None" and "cHandlers (cpart w r) \<noteq> None"
  shows "bootable r a (appMade a w)"
proof -
  have "\<not> list_ex (\<lambda>c. \<not> allowedChar c) ''kinesis''" by code_simp
  then show ?thesis
    using assms by (simp add: bootable_def validateName_def) (simp add: newComponent_def newApp_def)
qed

lemma startProcess_boots:
  assumes "r \<noteq> a"
  shows "\<exists>w1. startProcess E halt r None None a (worldOf h) = Done () w1 \<and>
    lone w1 r \<and> lone w1 a \<and> persistOff w1 \<and> topLevelComponents w1 = [r, a] \<and>
    tornDown w1 = [] \<and> Name (heap w1 a) = ''kinesis'' \<and> childOf w1 a ''kinesis'' = Some a \<and>
    tasks w1 = [MmuxTask r r, PreStartTask r, StartTask r r, MmuxTask a a, PreStartTask a, StartTask a a] \<and>
    quiet (heap w1 r) \<and> subscribers (heap w1 r) = []"
proof -
  let ?v = "worldOf h"
  have v: "addons ?v = []" "tasks ?v = []" "topLevelComponents ?v = []" "tornDown ?v = []" by (simp_all add: worldOf_def)
  obtain w1 where w1: "initProcess E halt r ?v = Done () w1" "booted r r (rootMade r ?v) w1" "persistOff w1"
    using initProcess_boots [OF v(1)] by blast
  have lone1: "lone w1 r" "quiet (heap w1 r)" "subscribers (heap w1 r) = []"
    using root_lone [OF w1(2) v(1)] v(2) by simp_all
  have t1: "tasks w1 = [MmuxTask r r, PreStartTask r, StartTask r r]" "topLevelComponents w1 = [r]" "tornDown w1 = []"
    "rootContainer w1 = Some r" "addons w1 = []" "cHandlers (cpart w1 r) \<noteq> None" "asContainer (heap w1 r) \<noteq> None"
    using w1(2) v by (simp_all add: booted_def)
  let ?w2 = "appMade a w1"
  have b2: "bootable r a ?w2" using bootable_app [OF t1(4,5) assms t1(7,6)] .
  moreover have "persistOff ?w2" using w1(3) assms t1(4) by (simp add: persistOff_def)
  ultimately obtain w3 where w3: "Add E halt a (Some a) ?w2 = Done None w3" "booted r a ?w2 w3" "persistOff w3"
    using Add_itself by blast
  have start: "startProcess E halt r None None a ?v = Done () w3"
    using w1(1) w3(1) by (simp add: startProcess_def mainFunction_def appMade_def)
  have g2: "lone w3 a" by (rule booted_lone [OF w3(2) b2]) (use assms t1 in simp)
  have "lone ?w2 r" using lone1(1) assms by (simp add: lone_def childOf_def)
  then have g3: "lone w3 r" using booted_keeps_lone [OF w3(2)] assms by simp
  obtain f where "heap w3 r = (heap ?w2 r)\<lparr>asContainer := f\<rparr>"
    using booted_other [OF w3(2) assms] .
  then have "heap w3 r = (heap w1 r)\<lparr>asContainer := f\<rparr>" using assms by simp
  then have "quiet (heap w3 r)" "subscribers (heap w3 r) = []" using lone1 by simp_all
  moreover have "Name (newApp a) = ''kinesis''" by (simp add: newApp_def newComponent_def)
  then have "Name (heap w3 a) = ''kinesis''" "childOf w3 a ''kinesis'' = Some a"
    using booted_name [OF w3(2)] by simp_all
  moreover have "tasks w3 = tasks w1 @ [MmuxTask a a, PreStartTask a, StartTask a a]" "topLevelComponents w3 = [r, a]"
    "tornDown w3 = []"
    using w3(2) t1 by (simp_all add: booted_def)
  ultimately show ?thesis using start g2 g3 w3(3) t1(1) by (intro exI [of _ w3]) simp
qed

text \<open>
  The program without add-ons, from its start to its exit. \<^verbatim>\<open>init\<close> and \<^verbatim>\<open>main\<close> bring the root container
  and the application up, whatever was in memory: both are \<^verbatim>\<open>Started\<close>, the root container is the first
  top level component, and each has a multiplexer, a \<^verbatim>\<open>PreStart\<close> and a \<^verbatim>\<open>Start\<close> goroutine; no step
  panics, blocks or ends the process. A signal then tears the application down, after it the root
  container, and the process exits (after \<^verbatim>\<open>SIGUSR1\<close> it does not).
\<close>

theorem start_and_signal:
  assumes "r \<noteq> a" and "0 < n"
  shows "\<exists>w1. startProcess E (containerStop E n) r None None a (worldOf h) = Done () w1 \<and>
    Stage (heap w1 r) = Started \<and> Stage (heap w1 a) = Started \<and> topLevelComponents w1 = [r, a] \<and>
    GetComponent w1 a ''kinesis'' = Inr a \<and>
    tasks w1 = [MmuxTask r r, PreStartTask r, StartTask r r, MmuxTask a a, PreStartTask a, StartTask a a] \<and>
    signalShutdown E (containerStop E n) ch False r w1 = Exited \<and>
    (\<exists>w2. signalShutdown E (containerStop E n) ch True r w1 = Done () w2 \<and> tornDown w2 = [a, r] \<and>
       Stage (heap w2 r) = Teareddown \<and> Stage (heap w2 a) = Teareddown)"
proof -
  obtain w1 where w1: "startProcess E (containerStop E n) r None None a (worldOf h) = Done () w1"
    "lone w1 r" "lone w1 a" "persistOff w1" "topLevelComponents w1 = [r, a]" "tornDown w1 = []"
    "Name (heap w1 a) = ''kinesis''" "childOf w1 a ''kinesis'' = Some a"
    "tasks w1 = [MmuxTask r r, PreStartTask r, StartTask r r, MmuxTask a a, PreStartTask a, StartTask a a]"
    "quiet (heap w1 r)" "subscribers (heap w1 r) = []"
    using startProcess_boots [OF assms(1)] by blast
  have "groupsReady E n [CNode r [], CNode a []] w1"
    using lone_group w1(2,3) persistOff_ready [OF w1(4)] assms by (simp add: groupsReady_def)
  then obtain w2 where "\<forall>usr1. signalShutdown E (containerStop E n) ch usr1 r w1 = (if usr1 then Done () w2 else Exited)"
    "tornDown w2 = [a, r]" "Stage (heap w2 r) = Teareddown" "Stage (heap w2 a) = Teareddown"
    using signalShutdown_groups [of w1 "CNode r []" "[CNode a []]" r E n ch] w1 by (auto simp: quiet_def)
  moreover have "Stage (heap w1 r) = Started" "Stage (heap w1 a) = Started" using w1(2,3) by (simp_all add: lone_def)
  moreover have "GetComponent w1 a ''kinesis'' = Inr a"
    using w1(8) by (auto simp: GetComponent_def childOf_def split: option.splits bind_splits)
  ultimately show ?thesis using w1 by (intro exI [of _ w1]) auto
qed

theorem start_and_signal_witness:
  "\<exists>w1. startProcess plainEnv (containerStop plainEnv 1) 0 None None 1 (worldOf freshJob) = Done () w1 \<and>
    signalShutdown plainEnv (containerStop plainEnv 1) 7 False 0 w1 = Exited"
  using start_and_signal [of 0 1 1 plainEnv freshJob 7] by auto

end
