(* ===== verification/Persisted_App.thy ===== *)
theory Persisted_App
  imports Startup
begin

text \<open>
  The application with the file database: it is loaded when it is initialized, counts the execution
  in \<^verbatim>\<open>PostInit\<close>, and is stored by the state machine. The root container with its database, the
  application and the disk together, from process to process.
\<close>

section \<open>What is stored of an application\<close>

definition appFields :: "int \<Rightarrow> string \<Rightarrow> gofield list" where
  "appFields k t =
     [StructField ''Container'' ''Container'' True True [],
      Field ''PreviousExecutions'' ''int'' (Some ''native'') True (VInt 64 k),
      Field ''LastExecutedDateTime'' ''string'' (Some ''native'') True (VString t)]"

definition appDoc :: "int \<Rightarrow> string \<Rightarrow> ptype list" where
  "appDoc k t =
     [\<lparr>pName = ''PreviousExecutions'', pTypeHierarchy = ''App'', pValue = PText (formatInt k), pIsEncrypted = False\<rparr>,
      \<lparr>pName = ''LastExecutedDateTime'', pTypeHierarchy = ''App'', pValue = PText t, pIsEncrypted = False\<rparr>]"

lemma marshal_app: "marshalType E key ''App'' (appFields k t) (n, []) = (n, appDoc k t)"
  by (simp add: appFields_def appDoc_def marshalField_def)

lemma newApp_fields [simp]:
  "userFields (newApp a) = appFields 0 []" "Name (newApp a) = ''kinesis''" "gotype (newApp a) = AppT"
  "persistanceCache (newApp a) = None" "Stage (newApp a) = Submitted" "quiet (newApp a)"
  "asContainer (newApp a) = Some emptyPart"
  by (simp_all add: newApp_def appFields_def) (simp_all add: newComponent_def)

definition countable :: "int \<Rightarrow> string \<Rightarrow> bool" where
  "countable k t \<longleftrightarrow> 0 \<le> k \<and> k < 2 ^ 63 \<and> validUtf8 t"

lemma app_leaves:
  "leaves ''App'' (appFields k t) =
     [(''App'', ''PreviousExecutions'', ''native'', VInt 64 k), (''App'', ''LastExecutedDateTime'', ''native'', VString t)]"
  by (simp add: appFields_def)

lemma app_leaves_ok:
  assumes "countable k t"
  shows "\<forall>l \<in> set (leaves ''App'' (appFields k t)). restorableLeaf l \<and> utf8Leaf l"
    and "distinct (map leafName (leaves ''App'' (appFields k t)))"
    and "settableFields False (appFields k t)"
proof -
  have "ascii (formatInt k)"
    using assms formatNat_digits [of _ "nat k"] by (force simp: ascii_def formatInt_def countable_def)
  moreover have "ascii ''App''" "ascii ''PreviousExecutions''" "ascii ''LastExecutedDateTime''"
    by (simp_all add: ascii_def byteOf_def)
  ultimately have "validUtf8 (formatInt k)" "validUtf8 ''App''" "validUtf8 ''PreviousExecutions''" "validUtf8 ''LastExecutedDateTime''"
    using validUtf8_ascii by blast+
  then show "\<forall>l \<in> set (leaves ''App'' (appFields k t)). restorableLeaf l \<and> utf8Leaf l"
    using assms by (simp add: app_leaves restorableLeaf_def utf8Leaf_def countable_def)
  show "distinct (map leafName (leaves ''App'' (appFields k t)))" by (simp add: app_leaves leafName_def)
  show "settableFields False (appFields k t)" by (simp add: appFields_def)
qed

lemma agree_app: "agreeUnpersisted (appFields k t) (appFields j s)"
  by (simp add: appFields_def)

lemma load_app:
  assumes "aeadCorrect E" and "countable k t"
  shows "unmarshalToType E key False ''App'' (pTypeMap (appDoc k t)) (appFields j s) = (appFields k t, False)"
  using app_leaves_ok [OF assms(2)]
  by (intro unmarshal_marshal_fields [OF assms(1) agree_app _ _ _ marshal_app [of E key k t 0]]) blast+

lemma count_app:
  assumes "0 \<le> k" and "k + 1 < 2 ^ 63"
  shows "map (appField E) (appFields k t) = appFields (k + 1) (nowText E)"
proof -
  have "signed_take_bit 63 (k + 1) = k + 1"
    using assms by (intro signed_take_bit_int_eq_self) simp_all
  then show ?thesis by (simp add: appFields_def)
qed

text \<open>What the database holds: the document, or nothing when the application never ran.\<close>

definition storedApp :: "int \<Rightarrow> string \<Rightarrow> dbFile \<times> disk \<Rightarrow> bool" where
  "storedApp k t d \<longleftrightarrow>
     storeReady d \<and>
     (storeFind ''kinesis'' d = Ret (appDoc k t, None) \<or> storeFind ''kinesis'' d = Ret ([], None) \<and> k = 0 \<and> t = [])"

lemma textual_app: "countable k t \<Longrightarrow> textualDoc (appDoc k t)"
  unfolding textualDoc_def using textualDoc_marshal [OF marshal_app] app_leaves_ok(1) by blast

lemma store_app:
  assumes "storeReady (db, D)" and "countable k t"
  shows "\<exists>D1. Update db ''kinesis'' (appDoc k t) D = Ret (D1, None) \<and> storedApp k t (db, D1)"
proof -
  have p: "plainName ''kinesis''" by (simp add: plainName_def)
  obtain d1 where d1: "storeUpdate ''kinesis'' (appDoc k t) (db, D) = Ret (d1, None)" "storeReady d1"
    using fileStore.update_ready [OF assms(1) p] by blast
  then have "storeFind ''kinesis'' d1 = Ret (appDoc k t, None)"
    using fileStore.find_updated [OF assms(1) p textual_app [OF assms(2)]] by blast
  moreover obtain D1 where "Update db ''kinesis'' (appDoc k t) D = Ret (D1, None)" "d1 = (db, D1)"
    using d1(1) by (auto simp: storeUpdate_def)
  ultimately show ?thesis using d1(2) by (auto simp: storedApp_def)
qed

section \<open>The state machine with the database\<close>

text \<open>The root container \<open>r\<close> has the add-on \<open>p\<close>, with its key and its open database.\<close>

definition persistsTo :: "cid \<Rightarrow> cid \<Rightarrow> string \<Rightarrow> dbFile \<Rightarrow> world \<Rightarrow> bool" where
  "persistsTo r p key db w \<longleftrightarrow>
     rootContainer w = Some r \<and> persistence (cpart w r) = Some p \<and>
     persistenceOf w p = \<lparr>dbHandle = db, symmetricEncryptKey = Some key\<rparr>"

lemma withPersistence_on: "persistsTo r p key db w \<Longrightarrow> withPersistence f w = f r w"
  by (simp add: persistsTo_def withPersistence_def)

lemma persistsTo_transfer:
  assumes "persistsTo r p key db w" and "rootContainer w1 = rootContainer w"
    and "persistence (cpart w1 r) = persistence (cpart w r)" and "asPersistence (heap w1 p) = asPersistence (heap w p)"
  shows "persistsTo r p key db w1"
  using assms by (simp add: persistsTo_def persistenceOf_def)

lemma persistsTo_upd: "persistsTo r p key db w \<Longrightarrow> x \<noteq> r \<Longrightarrow> x \<noteq> p \<Longrightarrow> persistsTo r p key db (upd x f w)"
  by (rule persistsTo_transfer) simp_all

lemma persistsTo_sel [simp]:
  "persistsTo r p key db (addTask t w) = persistsTo r p key db w"
  "persistsTo r p key db (w\<lparr>disk := D\<rparr>) = persistsTo r p key db w"
  by (simp_all add: persistsTo_def persistenceOf_def cpart_def)

lemma load_stored:
  assumes "aeadCorrect E" and "persistsTo r p key db w" and "storedApp k t (db, disk w)" and "countable k t"
    and "Name (heap w a) = ''kinesis''" and "gotype (heap w a) = AppT" and "userFields (heap w a) = appFields 0 []"
  shows "load E r a w = Done None (upd a (\<lambda>d. d\<lparr>userFields := appFields k t\<rparr>) w)"
proof -
  have "upd a (\<lambda>d. d\<lparr>userFields := appFields 0 []\<rparr>) w = w" using assms(7) by (simp add: upd_id)
  moreover have "appDoc k t \<noteq> []" by (simp add: appDoc_def)
  ultimately show ?thesis
    using assms load_app [OF assms(1,4)]
    by (auto simp: load_def persistsTo_def storedApp_def storeFind_def)
qed

lemma persist_app:
  assumes "persistsTo r p key db w" and "storeReady (db, disk w)" and "countable k t"
    and "Name (heap w a) = ''kinesis''" and "gotype (heap w a) = AppT" and "userFields (heap w a) = appFields k t"
    and "persistanceCache (heap w a) = None"
  shows "\<exists>D. persist E r a w = Done None ((upd a (\<lambda>d. d\<lparr>persistanceCache := Some (marshalPTypes (appDoc k t))\<rparr>) w)\<lparr>disk := D\<rparr>) \<and>
    storedApp k t (db, D)"
proof -
  have m: "marshalType E key (typeName (gotype (heap w a))) (userFields (heap w a)) (nonces w, []) = (nonces w, appDoc k t)"
    using assms(5,6) by (simp add: marshal_app)
  obtain D where D: "Update db ''kinesis'' (appDoc k t) (disk w) = Ret (D, None)" "storedApp k t (db, D)"
    using store_app [OF assms(2,3)] by blast
  have "appDoc k t \<noteq> []" by (simp add: appDoc_def)
  then have "persist E r a w = Done None ((upd a (\<lambda>d. d\<lparr>persistanceCache := Some (marshalPTypes (appDoc k t))\<rparr>) w)\<lparr>disk := D\<rparr>)"
    using persist_step [of w r p key E a, OF _ _ m] assms(1,4,7) D(1) by (simp add: persistsTo_def Let_def)
  then show ?thesis using D(2) by blast
qed

text \<open>Once stored, a component whose fields have not changed is not written again.\<close>

lemma persist_cached:
  assumes "persistsTo r p key db w" and "gotype (heap w a) = AppT" and "userFields (heap w a) = appFields k t"
    and "persistanceCache (heap w a) = Some (marshalPTypes (appDoc k t))"
  shows "persist E r a w = Done None w"
proof -
  have m: "marshalType E key (typeName (gotype (heap w a))) (userFields (heap w a)) (nonces w, []) = (nonces w, appDoc k t)"
    using assms(2,3) by (simp add: marshal_app)
  show ?thesis using persist_step [of w r p key E a, OF _ _ m] assms(1,4) by (simp add: persistsTo_def)
qed

lemma initComponent_app:
  assumes "aeadCorrect E" and "persistsTo r p key db w" and "storedApp k t (db, disk w)" and "countable k t"
    and "k + 1 < 2 ^ 63" and "a \<noteq> r" and "a \<noteq> p" and "quiet (heap w a)" and "mmux (heap w a)"
    and "Name (heap w a) = ''kinesis''" and "gotype (heap w a) = AppT" and "userFields (heap w a) = appFields 0 []"
  shows "\<exists>d1. initComponent E a w = Done None (upd a (\<lambda>_. d1) w) \<and>
    reaches Initialized ((heap w a)\<lparr>asContainer := map_option freshTables (asContainer (heap w a))\<rparr>) d1 \<and>
    userFields d1 = appFields (k + 1) (nowText E)"
proof -
  let ?w1 = "upd a (setStage E Initializing) w"
  have "persistsTo r p key db ?w1" by (rule persistsTo_upd [OF assms(2,6,7)])
  then have l: "withPersistence (\<lambda>r. load E r a) ?w1 = Done None (upd a (\<lambda>d. d\<lparr>userFields := appFields k t\<rparr>) ?w1)"
    using load_stored [OF assms(1) _ _ assms(4), of r p key db ?w1 a] assms(3,8,10-12)
    by (simp add: withPersistence_on userFields_setStage)
  have c: "map (appField E) (appFields k t) = appFields (k + 1) (nowText E)"
    using assms(4,5) by (intro count_app) (simp_all add: countable_def)
  let ?d = "(setStage E Initializing (heap w a))\<lparr>asContainer := map_option freshTables (asContainer (heap w a)),
      userFields := appFields (k + 1) (nowText E)\<rparr>"
  have "initComponent E a w = Done None (upd a (\<lambda>_. setStage E Initialized ?d) w)"
    using assms(11)
    by (simp add: initComponent_def l virtualInit_def virtualPostInit_def containerInit_def appPostInit_def c
        updPart_def upd_upd, simp add: upd_def c freshTables_def [abs_def])
  moreover have "quiet ?d" using assms(8) by simp
  then have "userFields (setStage E Initialized ?d) = appFields (k + 1) (nowText E)" by (simp add: userFields_setStage)
  moreover have "reaches Initialized ((heap w a)\<lparr>asContainer := map_option freshTables (asContainer (heap w a))\<rparr>)
      (setStage E Initialized ?d)"
    using assms(9) by (simp add: reaches_def)
  ultimately show ?thesis by blast
qed

lemma initialize_app:
  assumes "aeadCorrect E" and "persistsTo r p key db w" and "storedApp k t (db, disk w)" and "countable k t"
    and "countable (k + 1) (nowText E)" and "a \<noteq> r" and "a \<noteq> p" and "quiet (heap w a)"
    and "Stage (heap w a) = Submitted" and "Name (heap w a) = ''kinesis''" and "gotype (heap w a) = AppT"
    and "userFields (heap w a) = appFields 0 []" and "persistanceCache (heap w a) = None"
  shows "\<exists>w1. componentLifecycleFSM E halt c ctx a w = Done None w1 \<and> persistsTo r p key db w1 \<and>
    storedApp (k + 1) (nowText E) (db, disk w1) \<and> (c = a \<longrightarrow> initialized a w w1) \<and>
    quiet (heap w1 a) \<and> userFields (heap w1 a) = appFields (k + 1) (nowText E) \<and>
    persistanceCache (heap w1 a) = Some (marshalPTypes (appDoc (k + 1) (nowText E)))"
proof -
  obtain d0 where d0: "stageSwitch E halt c ctx a w = initComponent E a (addTask (MmuxTask c a) (upd a (\<lambda>_. d0) w))"
    "reaches Preinitialized (heap w a) d0" "userFields d0 = appFields 0 []"
    using fsm_submitted [OF assms(9), of E halt c ctx] assms(8,12) by auto
  let ?w1 = "addTask (MmuxTask c a) (upd a (\<lambda>_. d0) w)"
  have r0: "quiet d0" "mmux d0" "Name d0 = ''kinesis''" "gotype d0 = AppT" "persistanceCache d0 = None"
    using d0(2) assms(8,10,11,13) by (simp_all add: reaches_def)
  have p1: "persistsTo r p key db ?w1" using persistsTo_upd [OF assms(2,6,7)] by simp
  have h: "heap ?w1 a = d0" by simp
  obtain d1 where d1: "initComponent E a ?w1 = Done None (upd a (\<lambda>_. d1) ?w1)"
    "reaches Initialized (d0\<lparr>asContainer := map_option freshTables (asContainer d0)\<rparr>) d1"
    "userFields d1 = appFields (k + 1) (nowText E)"
    using initComponent_app [OF assms(1) p1 _ assms(4) _ assms(6,7)] assms(3,5) r0 d0(3) unfolding h countable_def by auto
  let ?w2 = "upd a (\<lambda>_. d1) ?w1"
  have p2: "persistsTo r p key db ?w2" by (rule persistsTo_upd [OF p1 assms(6,7)])
  have "storeReady (db, disk ?w2)" using assms(3) by (simp add: storedApp_def)
  then obtain D where D: "persist E r a ?w2 =
      Done None ((upd a (\<lambda>d. d\<lparr>persistanceCache := Some (marshalPTypes (appDoc (k + 1) (nowText E)))\<rparr>) ?w2)\<lparr>disk := D\<rparr>)"
    "storedApp (k + 1) (nowText E) (db, D)"
    using persist_app [OF p2 _ assms(5), of a E] d1(2,3) r0 by (auto simp: reaches_def)
  let ?w3 = "(upd a (\<lambda>d. d\<lparr>persistanceCache := Some (marshalPTypes (appDoc (k + 1) (nowText E)))\<rparr>) ?w2)\<lparr>disk := D\<rparr>"
  have "componentLifecycleFSM E halt c ctx a w = Done None ?w3"
    using d0(1) d1(1) D(1) by (simp add: componentLifecycleFSM_def deferPersist_def withPersistence_on [OF p2])
  moreover have "persistsTo r p key db ?w3" using persistsTo_upd [OF p2 assms(6,7)] by simp
  moreover have "initialized a w ?w3" if "c = a"
    using d0(2) d1(2) that unfolding initialized_def
    by (intro conjI exI [of _ "Some (marshalPTypes (appDoc (k + 1) (nowText E)))"]) (simp_all add: reaches_def)
  moreover have "quiet (heap ?w3 a)" using d1(2) r0(1) by (simp add: reaches_def)
  ultimately show ?thesis using D(2) d1(3) by (intro exI [of _ ?w3]) simp
qed

lemma start_app:
  assumes "persistsTo r p key db w" and "a \<noteq> r" and "a \<noteq> p" and "quiet (heap w a)"
    and "Stage (heap w a) = Initialized" and "mmux (heap w a)" and "gotype (heap w a) = AppT"
    and "userFields (heap w a) = appFields k t" and "persistanceCache (heap w a) = Some (marshalPTypes (appDoc k t))"
  shows "\<exists>w1. componentLifecycleFSM E halt a ctx a w = Done None w1 \<and> persistsTo r p key db w1 \<and>
    disk w1 = disk w \<and> started a w w1 \<and> userFields (heap w1 a) = appFields k t"
proof -
  let ?d1 = "setStage E Started (setStage E Starting (heap w a))"
  let ?w1 = "addTask (StartTask a a) (addTask (PreStartTask a) (upd a (\<lambda>_. ?d1) w))"
  have "stageSwitch E halt a ctx a w = Done None ?w1"
    using assms(5) by (simp add: stageSwitch_def runComponent_def upd_addTask upd_upd) (simp add: upd_def)
  moreover have p1: "persistsTo r p key db ?w1" using persistsTo_upd [OF assms(1-3)] by simp
  moreover have u: "userFields (heap ?w1 a) = appFields k t" using assms(4,8) by (simp add: userFields_setStage)
  moreover have "persist E r a ?w1 = Done None ?w1"
    using persist_cached [OF p1 _ u] assms(7,9) by simp
  ultimately have "componentLifecycleFSM E halt a ctx a w = Done None ?w1"
    by (simp add: componentLifecycleFSM_def deferPersist_def withPersistence_on [OF p1])
  moreover have "started a w ?w1" using assms(6) by (simp add: started_def reaches_def)
  ultimately show ?thesis using p1 u by (intro exI [of _ ?w1]) simp
qed

text \<open>\<^verbatim>\<open>Add\<close> of a new application to itself, as \<^verbatim>\<open>main\<close> does.\<close>

lemma Add_app:
  assumes "aeadCorrect E" and "persistsTo r p key db w" and "storedApp k t (db, disk w)" and "countable k t"
    and "countable (k + 1) (nowText E)" and "a \<noteq> r" and "a \<noteq> p" and "heap w a = newApp a" and "bootable r a w"
  shows "\<exists>w1. Add E halt a (Some a) w = Done None w1 \<and> booted r a w w1 \<and> persistsTo r p key db w1 \<and>
    storedApp (k + 1) (nowText E) (db, disk w1) \<and> userFields (heap w1 a) = appFields (k + 1) (nowText E)"
proof -
  define w0 where "w0 = updPart a (\<lambda>k. k\<lparr>compActivationQueue := True\<rparr>) w"
  have p0: "persistsTo r p key db w0" unfolding w0_def updPart_def by (rule persistsTo_upd [OF assms(2,6,7)])
  have s0: "storedApp k t (db, disk w0)" using assms(3) by (simp add: w0_def)
  obtain w1 where w1: "componentLifecycleFSM E halt a background a w0 = Done None w1" "persistsTo r p key db w1"
    "storedApp (k + 1) (nowText E) (db, disk w1)" "initialized a w0 w1" "quiet (heap w1 a)"
    "userFields (heap w1 a) = appFields (k + 1) (nowText E)"
    "persistanceCache (heap w1 a) = Some (marshalPTypes (appDoc (k + 1) (nowText E)))"
    using initialize_app [OF assms(1) p0 s0 assms(4-7), of halt a background] assms(8) by (auto simp: w0_def)
  obtain w3 where w3: "filed r a w1 w3" "\<forall>w4. componentLifecycleFSM E halt a background a w3 = Done None w4 \<longrightarrow>
      started a w3 w4 \<longrightarrow> Add E halt a (Some a) w = Done None w4 \<and> booted r a w w4"
    using Add_bootable [OF assms(9) w0_def w1(1,4)] by blast
  obtain u k3 where h3: "heap w3 a = (heap w1 a)\<lparr>uri := u, asContainer := Some k3\<rparr>"
    using w3(1) unfolding filed_def by blast
  have other: "asPersistence (heap w3 p) = asPersistence (heap w1 p)" "persistence (cpart w3 r) = persistence (cpart w1 r)"
    using w3(1) assms(6,7) unfolding filed_def by (auto simp: cpart_def split: option.split)
  have p3: "persistsTo r p key db w3"
    by (rule persistsTo_transfer [OF w1(2)]) (use w3(1) other in \<open>simp_all add: filed_def\<close>)
  have i: "Stage (heap w1 a) = Initialized" "mmux (heap w1 a)" "gotype (heap w1 a) = AppT"
    using w1(4) assms(8) by (auto simp: initialized_def reaches_def w0_def)
  have q3: "quiet (heap w3 a)" "Stage (heap w3 a) = Initialized" "mmux (heap w3 a)" "gotype (heap w3 a) = AppT"
    "userFields (heap w3 a) = appFields (k + 1) (nowText E)"
    "persistanceCache (heap w3 a) = Some (marshalPTypes (appDoc (k + 1) (nowText E)))"
    using w1(5-7) i by (simp_all add: h3)
  obtain w4 where w4: "componentLifecycleFSM E halt a background a w3 = Done None w4" "persistsTo r p key db w4"
    "disk w4 = disk w3" "started a w3 w4" "userFields (heap w4 a) = appFields (k + 1) (nowText E)"
    using start_app [OF p3 assms(6,7) q3(1-6)] by blast
  have "disk w3 = disk w1" using w3(1) by (simp add: filed_def)
  then show ?thesis using w3(2) w4 w1(3) by auto
qed

end
