(* ===== verification/Root_Addons.thy ===== *)
theory Root_Addons
  imports Startup
begin

text \<open>
  The root container once \<^verbatim>\<open>init\<close> has run, and the add-ons that attach themselves to it when their
  packages are initialized: what \<^verbatim>\<open>Add\<close> needs of them holds, whatever the add-on.
\<close>

definition rootRuns :: "cid \<Rightarrow> world \<Rightarrow> bool" where
  "rootRuns r w \<longleftrightarrow>
     Name (heap w r) = ''root'' \<and> Stage (heap w r) = Started \<and> container (heap w r) = None \<and>
     asContainer (heap w r) \<noteq> None \<and> cComponents (cpart w r) \<noteq> None \<and>
     cHandlers (cpart w r) \<noteq> None \<and> rootContainer w = Some r \<and> addons w = []"

definition nameFree :: "string \<Rightarrow> cid \<Rightarrow> world \<Rightarrow> bool" where
  "nameFree n r w \<longleftrightarrow> mapGet (cComponents (cpart w r)) n = None"

section \<open>What the root container holds\<close>

text \<open>The root container runs, lists itself and then the add-ons \<open>xs\<close>, which run.\<close>

abbreviation leaf :: "cid \<Rightarrow> ctree" where
  "leaf x \<equiv> CNode x []"

definition addonRuns :: "env \<Rightarrow> cid \<Rightarrow> world \<Rightarrow> cid \<Rightarrow> bool" where
  "addonRuns E r w x \<longleftrightarrow>
     Stage (heap w x) = Started \<and> openMmux (heap w x) \<and> mmuxServer x (tasks w) = Some r \<and>
     container (heap w x) = Some r \<and> leafStops E (heap w x)"

definition rootHolds :: "env \<Rightarrow> cid \<Rightarrow> cid list \<Rightarrow> world \<Rightarrow> bool" where
  "rootHolds E r xs w \<longleftrightarrow>
     listed r True (map leaf xs) w \<and> (\<forall>x \<in> set xs. addonRuns E r w x) \<and> container (heap w r) = None \<and>
     Stage (heap w r) = Started \<and> containerType (gotype (heap w r)) \<and> openMmux (heap w r) \<and>
     mmuxServer r (tasks w) = Some r \<and> quiet (heap w r) \<and> subscribers (heap w r) = []"

lemma leafStops_part [simp]: "leafStops E (d\<lparr>asContainer := f\<rparr>) = leafStops E d"
  by (simp add: leafStops_def split: gotype.split)

lemma rootHolds_group:
  assumes "rootHolds E r xs w" and "persistReady w"
  shows "runningGroup E w (CNode r (map leaf xs))"
proof -
  have "container (heap w r) = None" using assms(1) by (simp add: rootHolds_def)
  then have "containerPaths w None [] \<noteq> None" "containerPaths w (Some r) [] \<noteq> None"
    by (subst containerPaths.simps, simp, (subst containerPaths.simps, simp)?)+
  then have "derivable w r" "\<forall>x \<in> set xs. derivable w x"
    using assms(1) by (auto simp: rootHolds_def addonRuns_def derivable_def)
  then show ?thesis
    using assms by (auto simp: rootHolds_def addonRuns_def runningGroup_def served_by_def stage_order)
qed

text \<open>It still does when these components change in their container tables only, and the root container not even there.\<close>

lemma rootHolds_transfer:
  assumes "rootHolds E r xs w"
    and same: "\<And>y. y \<in> set (r # xs) \<Longrightarrow> (\<exists>f. heap w1 y = (heap w y)\<lparr>asContainer := f\<rparr>) \<and>
      mmuxServer y (tasks w1) = mmuxServer y (tasks w)"
    and "asContainer (heap w1 r) \<noteq> None" and "components (cpart w1 r) = components (cpart w r)"
    and "cComponents (cpart w1 r) = cComponents (cpart w r)"
  shows "rootHolds E r xs w1"
proof -
  obtain f where r: "heap w1 r = (heap w r)\<lparr>asContainer := f\<rparr>" using same [of r] by auto
  have xs: "addonRuns E r w1 x \<and> Name (heap w1 x) = Name (heap w x)" if x: "x \<in> set xs" for x
  proof -
    obtain g where "heap w1 x = (heap w x)\<lparr>asContainer := g\<rparr>" "mmuxServer x (tasks w1) = mmuxServer x (tasks w)"
      using same [of x] x by auto
    moreover have "addonRuns E r w x" using assms(1) x by (simp add: rootHolds_def)
    ultimately show ?thesis by (simp add: addonRuns_def)
  qed
  then have m: "map (\<lambda>t. Name (heap w1 (root t))) (map leaf xs) = map (\<lambda>t. Name (heap w (root t))) (map leaf xs)" by simp
  have c: "childOf w1 r = childOf w r" using assms(5) by (simp add: childOf_def fun_eq_iff)
  have o: "ownNames True r w1 = ownNames True r w" "Name (heap w1 r) = Name (heap w r)" by (simp_all add: ownNames_def r)
  have l: "listed r True (map leaf xs) w" using assms(1) by (simp add: rootHolds_def)
  then have k: "components (cpart w r) = ownNames True r w @ map (\<lambda>t. Name (heap w (root t))) (map leaf xs)"
    "distinct (components (cpart w r))" "childOf w r (Name (heap w r)) = Some r"
    unfolding listed_def by blast+
  have j: "\<forall>t \<in> set (map leaf xs). childOf w r (Name (heap w1 (root t))) = Some (root t)"
    using l xs by (simp add: listed_def)
  have "listed r True (map leaf xs) w1"
    unfolding listed_def
  proof (intro conjI impI)
    show "components (cpart w1 r) = ownNames True r w1 @ map (\<lambda>t. Name (heap w1 (root t))) (map leaf xs)"
      using k(1) m o(1) assms(4) by metis
    show "distinct (components (cpart w1 r))" using k(2) assms(4) by metis
    show "childOf w1 r (Name (heap w1 r)) = Some r" using k(3) c o(2) by metis
    show "\<forall>t \<in> set (map leaf xs). childOf w1 r (Name (heap w1 (root t))) = Some (root t)" using j c by metis
  qed (rule assms(3))
  moreover have "\<forall>x \<in> set xs. addonRuns E r w1 x" using xs by blast
  moreover have "mmuxServer r (tasks w1) = mmuxServer r (tasks w)" using same [of r] by simp
  ultimately show ?thesis
    using assms(1) unfolding rootHolds_def r by (elim conjE) (simp add: quiet_def)
qed

lemma rootHolds_added:
  assumes "rootHolds E r xs w" and "canAdd E r r x ps w" and "added r r x ps w w1" and "x \<notin> set xs"
    and "mmuxServer x (tasks w) = None" and "leafStops E (heap w1 x)"
  shows "rootHolds E r (xs @ [x]) w1"
proof -
  let ?n = "Name (heap w x)"
  have x: "x \<noteq> r" "mapGet (cComponents (cpart w r)) ?n = None" using assms(2) by (simp_all add: canAdd_def)
  have h: "heap w1 y = (heap w y)\<lparr>asContainer := asContainer (heap w1 y)\<rparr>" if "y \<noteq> x" for y
    using assms(3) that unfolding added_def by blast
  have t: "tasks w1 = tasks w @ [MmuxTask r x, PreStartTask x, StartTask r x]"
    and xn: "reaches Started ((heap w x)\<lparr>container := Some r\<rparr>) (heap w1 x)"
    and comps: "components (cpart w1 r) = components (cpart w r) @ [?n]"
    and child: "\<And>n. childOf w1 r n = (if n = ?n then Some x else childOf w r n)"
    and "asContainer (heap w1 r) \<noteq> None" and b: "mmuxBuffer (heap w1 x) = None"
    using assms(3) by (simp_all add: added_def childOf_def)
  have l: "listed r True (map leaf xs) w" using assms(1) by (simp add: rootHolds_def)
  have "childOf w r ?n = None" using x(2) by (simp add: childOf_def)
  then have fresh: "Name (heap w r) \<noteq> ?n" "\<forall>y \<in> set xs. Name (heap w y) \<noteq> ?n"
    using l by (auto simp: listed_def)
  have name: "Name (heap w1 y) = Name (heap w y)" for y
    using added_others(1) [OF assms(3)] xn by (cases "y = x") (simp_all add: reaches_def)
  have "listed r True (map leaf (xs @ [x])) w1"
    using l fresh \<open>asContainer (heap w1 r) \<noteq> None\<close> by (auto simp: listed_def ownNames_def comps child name)
  moreover have "addonRuns E r w1 y" if "y \<in> set xs" for y
  proof -
    have "y \<noteq> x" using that assms(4) by auto
    then have "heap w1 y = (heap w y)\<lparr>asContainer := asContainer (heap w1 y)\<rparr>" by (rule h)
    then obtain f where "heap w1 y = (heap w y)\<lparr>asContainer := f\<rparr>" by blast
    moreover have "addonRuns E r w y" using assms(1) that by (simp add: rootHolds_def)
    ultimately show ?thesis by (simp add: addonRuns_def t mmuxServer_append)
  qed
  moreover have "addonRuns E r w1 x"
    using xn b assms(5,6) by (simp add: addonRuns_def reaches_def t mmuxServer_append)
  moreover obtain f where "heap w1 r = (heap w r)\<lparr>asContainer := f\<rparr>" using h [of r] x(1) by blast
  ultimately show ?thesis using assms(1) by (auto simp: rootHolds_def t mmuxServer_append quiet_def)
qed

section \<open>After init\<close>

lemma initProcess_root:
  assumes "addons w = []"
  shows "\<exists>w1. initProcess E halt r w = Done () w1 \<and> rootRuns r w1 \<and> (\<forall>n. n \<noteq> ''root'' \<longrightarrow> nameFree n r w1) \<and>
    persistOff w1 \<and> disk w1 = disk w \<and> tornDown w1 = tornDown w \<and>
    (tasks w = [] \<longrightarrow> rootHolds E r [] w1 \<and> tasks w1 = [MmuxTask r r, PreStartTask r, StartTask r r]) \<and>
    runOncePersistence w1 = runOncePersistence w \<and> runOnceHttp w1 = runOnceHttp w \<and> topLevelComponents w1 = topLevelComponents w @ [r]"
proof -
  obtain w1 where w1: "initProcess E halt r w = Done () w1" "booted r r (rootMade r w) w1" "persistOff w1" "disk w1 = disk w"
    using initProcess_boots [OF assms] by blast
  let ?d = "newComponent r ContainerT ''root'' [''ServeHTTP''] []"
  have d: "Name ?d = ''root''" "container ?d = None" by (simp_all add: newComponent_def)
  have n: "Name (heap w1 r) = ''root''" "container (heap w1 r) = None" "Stage (heap w1 r) = Started"
    using w1(2) d by (auto simp: booted_def reaches_def)
  have "cComponents (cpart w1 r) \<noteq> None" "\<forall>n. n \<noteq> ''root'' \<longrightarrow> nameFree n r w1"
    using w1(2) d by (simp_all add: booted_def nameFree_def)
  moreover from this n w1(2) have "rootRuns r w1" by (simp add: rootRuns_def booted_def)
  moreover have "rootHolds E r [] w1 \<and> tasks w1 = [MmuxTask r r, PreStartTask r, StartTask r r]" if t: "tasks w = []"
  proof -
    have "lone w1 r" "quiet (heap w1 r)" "subscribers (heap w1 r) = []"
      using root_lone [OF w1(2) assms] t by simp_all
    moreover have "tasks w1 = [MmuxTask r r, PreStartTask r, StartTask r r]"
      using w1(2) t by (auto simp: booted_def)
    ultimately show ?thesis by (simp add: lone_def rootHolds_def listed_def ownNames_def)
  qed
  ultimately show ?thesis using w1 by (auto simp: booted_def)
qed

text \<open>An add-on that has been made at an address.\<close>

definition addonMade :: "component \<Rightarrow> cid \<Rightarrow> world \<Rightarrow> world" where
  "addonMade d x w = w\<lparr>heap := (heap w)(x := d)\<rparr>"

lemma addonMade_sel [simp]:
  "heap (addonMade d x w) y = (if y = x then d else heap w y)"
  "y \<noteq> x \<Longrightarrow> cpart (addonMade d x w) y = cpart w y" "rootContainer (addonMade d x w) = rootContainer w"
  "addons (addonMade d x w) = addons w" "tasks (addonMade d x w) = tasks w" "disk (addonMade d x w) = disk w"
  "runOncePersistence (addonMade d x w) = runOncePersistence w" "runOnceHttp (addonMade d x w) = runOnceHttp w"
  "topLevelComponents (addonMade d x w) = topLevelComponents w"
  by (simp_all add: addonMade_def cpart_def)

lemma canAdd_addon:
  assumes "rootRuns r w" and "persistOff w" and "p \<noteq> r" and "nameFree (Name d) r w"
    and "Stage d = Submitted" and "Name d \<noteq> ''root''" and "Name d \<noteq> []" and "\<not> list_ex (\<lambda>c. \<not> allowedChar c) (Name d)"
  shows "canAdd E r r p [''root''] (addonMade d p w)"
proof -
  have r: "Name (heap w r) = ''root''" "Stage (heap w r) = Started" "container (heap w r) = None"
    "asContainer (heap w r) \<noteq> None" "cComponents (cpart w r) \<noteq> None" "cHandlers (cpart w r) \<noteq> None"
    "rootContainer w = Some r" "addons w = []"
    using assms(1) by (simp_all add: rootRuns_def)
  have "persistOff (addonMade d p w)" using assms(2,3) r(7) by (simp add: persistOff_def)
  moreover have "containerPaths (upd p (setContainer r) (addonMade d p w)) (Some r) [] = Some [toLower ''root'']"
    using assms(3) r(1,3) by (subst containerPaths.simps, subst containerPaths.simps) simp
  moreover have "toLower ''root'' = ''root''" by code_simp
  ultimately show ?thesis
    using r assms by (simp add: canAdd_def validateName_def stage_order nameFree_def)
qed

lemma rootHolds_made:
  assumes "rootHolds E r xs w" and "x \<notin> set (r # xs)"
  shows "rootHolds E r xs (withQueue r (addonMade d x w))"
proof (rule rootHolds_transfer [OF assms(1)])
  let ?a = "addonMade d x w"
  have r: "x \<noteq> r" using assms(2) by simp
  have part: "asContainer (heap w r) \<noteq> None" using assms(1) by (simp add: rootHolds_def listed_def)
  show "(\<exists>f. heap (withQueue r ?a) y = (heap w y)\<lparr>asContainer := f\<rparr>) \<and>
      mmuxServer y (tasks (withQueue r ?a)) = mmuxServer y (tasks w)" if y: "y \<in> set (r # xs)" for y
  proof -
    have "heap ?a y = heap w y" using y assms(2) by auto
    moreover have "heap w y = (heap w y)\<lparr>asContainer := asContainer (heap w y)\<rparr>" by simp
    ultimately show ?thesis
      by (cases "y = r") (metis heap_withQueue(2) withQueue_sel(3) addonMade_sel(5), metis heap_withQueue(1) withQueue_sel(3) addonMade_sel(5))
  qed
  show "asContainer (heap (withQueue r ?a) r) \<noteq> None" using part r by (simp add: withQueue_def)
  show "components (cpart (withQueue r ?a) r) = components (cpart w r)"
    "cComponents (cpart (withQueue r ?a) r) = cComponents (cpart w r)"
    using r by (simp_all add: withQueue_def cpart_updPart_cases)
qed

text \<open>Nothing else of the process matters.\<close>

lemma rootHolds_same:
  assumes "rootHolds E r xs w" and "\<And>y. y \<in> set (r # xs) \<Longrightarrow> heap w1 y = heap w y" and "tasks w1 = tasks w"
  shows "rootHolds E r xs w1"
proof (rule rootHolds_transfer [OF assms(1)])
  show "(\<exists>f. heap w1 y = (heap w y)\<lparr>asContainer := f\<rparr>) \<and> mmuxServer y (tasks w1) = mmuxServer y (tasks w)"
    if "y \<in> set (r # xs)" for y
    using assms(2) [OF that] assms(3) by (intro conjI exI [of _ "asContainer (heap w y)"]) simp_all
  have "heap w1 r = heap w r" using assms(2) by simp
  then show "asContainer (heap w1 r) \<noteq> None" "components (cpart w1 r) = components (cpart w r)"
    "cComponents (cpart w1 r) = cComponents (cpart w r)"
    using assms(1) by (simp_all add: rootHolds_def listed_def cpart_def)
qed

lemma rootHolds_booted:
  assumes "rootHolds E r xs w" and "booted r a w w1" and "a \<notin> set (r # xs)"
  shows "rootHolds E r xs w1"
proof (rule rootHolds_transfer [OF assms(1)])
  have h: "\<exists>f. heap w1 y = (heap w y)\<lparr>asContainer := map_option (\<lambda>k. k\<lparr>cHandlers := f k\<rparr>) (asContainer (heap w y))\<rparr>"
    if "y \<noteq> a" for y
    using assms(2) that unfolding booted_def by blast
  show "(\<exists>f. heap w1 y = (heap w y)\<lparr>asContainer := f\<rparr>) \<and> mmuxServer y (tasks w1) = mmuxServer y (tasks w)"
    if y: "y \<in> set (r # xs)" for y
  proof -
    have "y \<noteq> a" using y assms(3) by auto
    then show ?thesis using h [of y] assms(2) by (auto simp: booted_def mmuxServer_append split: option.split)
  qed
  obtain f where f: "heap w1 r = (heap w r)\<lparr>asContainer := map_option (\<lambda>k. k\<lparr>cHandlers := f k\<rparr>) (asContainer (heap w r))\<rparr>"
    using h [of r] assms(3) by auto
  then show "asContainer (heap w1 r) \<noteq> None" using assms(1) by (simp add: rootHolds_def listed_def)
  show "components (cpart w1 r) = components (cpart w r)" "cComponents (cpart w1 r) = cComponents (cpart w r)"
    using assms(1) f by (auto simp: rootHolds_def listed_def cpart_def)
qed

end
