(* ===== verification/Executions.thy ===== *)
theory Executions
  imports Persisted_App Root_Addons
begin

text \<open>
  The program with the file database, from process to process: the database attaches itself to the
  root container and opens its directory, \<^verbatim>\<open>main\<close> adds the application, which finds what the process
  before has left.
\<close>

section \<open>Attaching the database\<close>

definition dbOpened :: "cid \<Rightarrow> string \<Rightarrow> dbFile \<Rightarrow> disk \<Rightarrow> world \<Rightarrow> world" where
  "dbOpened x key db D w =
     (upd x (\<lambda>d. d\<lparr>asPersistence := Some \<lparr>dbHandle = db, symmetricEncryptKey = Some key\<rparr>\<rparr>) w)
       \<lparr>runOncePersistence := True, disk := D\<rparr>"

lemma dbOpened_sel [simp]:
  "heap (dbOpened x key db D w) y = (if y = x
     then (heap w x)\<lparr>asPersistence := Some \<lparr>dbHandle = db, symmetricEncryptKey = Some key\<rparr>\<rparr> else heap w y)"
  "cpart (dbOpened x key db D w) y = cpart w y" "rootContainer (dbOpened x key db D w) = rootContainer w"
  "addons (dbOpened x key db D w) = addons w" "tasks (dbOpened x key db D w) = tasks w" "disk (dbOpened x key db D w) = D"
  "topLevelComponents (dbOpened x key db D w) = topLevelComponents w"
  by (simp_all add: dbOpened_def cpart_def)

text \<open>What the environment must give: the directory, by the connection string, and a key.\<close>

definition dbEnv :: "env \<Rightarrow> string \<Rightarrow> bool" where
  "dbEnv E dir \<longleftrightarrow>
     getenv E ''KINESIS_DB_CONNECTION'' = filePrefix @ dir \<and> getenv E ''KINESIS_DB_SYMMETRIC_ENCRYPT_KEY'' \<noteq> ''''"

definition dbKey :: "env \<Rightarrow> string" where
  "dbKey E = hexEncode (deriveKey E (getenv E ''KINESIS_DB_SYMMETRIC_ENCRYPT_KEY''))"

lemma Connect_again:
  assumes "storeReady (Some (dir, False), D)"
  shows "Connect [StringI (filePrefix @ dir)] (None, D) = ((Some (dir, False), D), None)"
  using assms by (auto simp: Connect_def storeReady_def hasPrefix_def Let_def)

lemma persistenceInit_opens:
  assumes "dbEnv E dir" and "storeReady (Some (dir, False), disk w)" and "\<not> runOncePersistence w"
    and "asPersistence (heap w x) = Some \<lparr>dbHandle = None, symmetricEncryptKey = None\<rparr>"
  shows "persistenceInit E x w = Done None (dbOpened x (dbKey E) (Some (dir, False)) (disk w) w)"
proof -
  have "filePrefix @ dir \<noteq> []" by (simp add: filePrefix_def)
  then show ?thesis
    using assms Connect_again [OF assms(2)]
    by (simp add: persistenceInit_def dbEnv_def dbKey_def Let_def persistenceOf_def dbOpened_def upd_def)
qed

lemma initialize_db:
  assumes "dbEnv E dir" and "storeReady (Some (dir, False), disk w)" and "\<not> runOncePersistence w"
    and "asPersistence (heap w x) = Some \<lparr>dbHandle = None, symmetricEncryptKey = None\<rparr>"
    and "gotype (heap w x) = PersistenceT" and "Stage (heap w x) = Submitted" and "persistOff w"
  defines "w1 \<equiv> dbOpened x (dbKey E) (Some (dir, False)) (disk w) w"
  shows "\<exists>d1. componentLifecycleFSM E halt c ctx x w = Done None (addTask (MmuxTask c x) (upd x (\<lambda>_. d1) w1)) \<and>
    reaches Initialized (heap w1 x) d1 \<and> mmuxBuffer d1 = None"
proof -
  obtain d0 where d0: "stageSwitch E halt c ctx x w = initComponent E x (addTask (MmuxTask c x) (upd x (\<lambda>_. d0) w))"
    "reaches Preinitialized (heap w x) d0" "mmuxBuffer d0 = None"
    using fsm_submitted [OF assms(6), of E halt c ctx] by blast
  let ?v = "addTask (MmuxTask c x) (upd x (\<lambda>_. d0) w)"
  let ?v1 = "upd x (setStage E Initializing) ?v"
  let ?P = "\<lparr>dbHandle = Some (dir, False), symmetricEncryptKey = Some (dbKey E)\<rparr>"
  have ap: "asPersistence d0 = Some \<lparr>dbHandle = None, symmetricEncryptKey = None\<rparr>" "gotype d0 = PersistenceT" "mmux d0"
    using d0(2) assms(4,5) by (simp_all add: reaches_def)
  have po: "persistOff ?v" using assms(7) d0(2) by (simp add: persistOff_upd_at reaches_def)
  then have po1: "persistOff ?v1" by simp
  have i: "persistenceInit E x ?v1 = Done None (dbOpened x (dbKey E) (Some (dir, False)) (disk w) ?v1)"
    using persistenceInit_opens [OF assms(1), of ?v1 x] assms(2,3) ap by simp
  let ?d1 = "setStage E Initialized ((setStage E Initializing d0)\<lparr>asPersistence := Some ?P\<rparr>)"
  let ?w2 = "addTask (MmuxTask c x) (upd x (\<lambda>_. ?d1) w1)"
  have "initComponent E x ?v = Done None ?w2"
    using po1 i ap(2)
    by (simp add: initComponent_def virtualInit_def virtualPostInit_def) (simp add: w1_def dbOpened_def upd_def addTask_def)
  moreover have "persistOff ?w2"
    using assms(7) d0(2) by (auto simp: persistOff_def cpart_def w1_def reaches_def split: option.splits)
  ultimately have "componentLifecycleFSM E halt c ctx x w = Done None ?w2"
    using d0(1) by (simp add: componentLifecycleFSM_def)
  moreover have "reaches Initialized (heap w1 x) ?d1" using d0(2) by (simp add: reaches_def w1_def)
  moreover have "mmuxBuffer ?d1 = None" using d0(3) by simp
  ultimately show ?thesis by blast
qed

text \<open>The database that attaches itself to the root container.\<close>

abbreviation dbMade :: "cid \<Rightarrow> world \<Rightarrow> world" where
  "dbMade x w \<equiv> addonMade (fileDbAddon x) x w"

lemma fileDbAddon_sel [simp]:
  "gotype (fileDbAddon x) = PersistenceT" "Stage (fileDbAddon x) = Submitted" "Name (fileDbAddon x) = ''simpleFileDB''"
  "asPersistence (fileDbAddon x) = Some \<lparr>dbHandle = None, symmetricEncryptKey = None\<rparr>" "asContainer (fileDbAddon x) = None"
  by (simp_all add: fileDbAddon_def newComponent_def)

lemma attachFileDb_persists:
  assumes "dbEnv E dir" and "storeReady (Some (dir, False), disk w)" and "\<not> runOncePersistence w"
    and "rootRuns r w" and "nameFree ''simpleFileDB'' r w" and "persistOff w" and "p \<noteq> r"
  shows "\<exists>w1. attachFileDb E halt p w = Done () w1 \<and>
    persistsTo r p (dbKey E) (Some (dir, False)) w1 \<and> disk w1 = disk w \<and> rootContainer w1 = Some r \<and> addons w1 = [] \<and>
    asContainer (heap w1 r) \<noteq> None \<and> cHandlers (cpart w1 r) \<noteq> None \<and> Stage (heap w1 p) = Started \<and>
    Stage (heap w1 r) = Started \<and> topLevelComponents w1 = topLevelComponents w \<and> tornDown w1 = tornDown w \<and>
    Name (heap w1 r) = ''root'' \<and> tasks w1 = tasks w @ [MmuxTask r p, PreStartTask p, StartTask r p] \<and>
    (\<forall>xs. rootHolds E r xs w \<longrightarrow> p \<notin> set xs \<longrightarrow> mmuxServer p (tasks w) = None \<longrightarrow> rootHolds E r (xs @ [p]) w1)"
proof -
  let ?v = "withQueue r (dbMade p w)"
  let ?db = "Some (dir, False)"
  have r: "Name (heap w r) = ''root''" "Stage (heap w r) = Started" "rootContainer w = Some r" "addons w = []"
    using assms(4) by (simp_all add: rootRuns_def)
  have hv: "heap ?v p = fileDbAddon p" using heap_withQueue(1) [of p r "dbMade p w"] assms(7) by simp
  have env: "disk ?v = disk w" "\<not> runOncePersistence ?v" "topLevelComponents ?v = topLevelComponents w"
    using assms(3) by (simp_all add: withQueue_def)
  have "\<not> list_ex (\<lambda>c. \<not> allowedChar c) ''simpleFileDB''" by code_simp
  then have can: "canAdd E r r p [''root''] (dbMade p w)"
    using canAdd_addon [OF assms(4,6,7), of "fileDbAddon p"] assms(5) by simp
  then have pov: "persistOff ?v" by (simp add: canAdd_def)
  let ?w1 = "dbOpened p (dbKey E) ?db (disk w) ?v"
  have n1: "Name (heap ?w1 p) = Name (heap ?v p)" by simp
  have pre: "storeReady (?db, disk ?v)" "gotype (heap ?v p) = PersistenceT" "Stage (heap ?v p) = Submitted"
    "asPersistence (heap ?v p) = Some \<lparr>dbHandle = None, symmetricEncryptKey = None\<rparr>"
    using assms(2) env(1) unfolding hv by simp_all
  obtain d1 where d1: "componentLifecycleFSM E halt r background p ?v = Done None (addTask (MmuxTask r p) (upd p (\<lambda>_. d1) ?w1))"
    "reaches Initialized (heap ?w1 p) d1" "mmuxBuffer d1 = None"
    using initialize_db [OF assms(1) pre(1) env(2) pre(4,2,3) pov, of halt r background] unfolding env(1) n1 by blast
  have can1: "canAdd E r r p [''root''] ?w1"
  proof -
    have "containerPaths (upd p (setContainer r) ?v) (Some r) [] = Some [''root'']"
      using canAdd_withQueue(1) [OF can] by (simp add: canAdd_def)
    then have "containerPaths (upd p (setContainer r) ?w1) (Some r) [] = Some [''root'']"
      by (rule containerPaths_transfer) (simp add: setContainer_def)
    moreover have "validateName ?v (Some p) = None"
      using canAdd_withQueue(1) [OF can] unfolding canAdd_def by blast
    then have "validateName ?w1 (Some p) = None" unfolding validateName_def option.case n1 .
    moreover have "persistOff ?w1" using pov by (simp add: persistOff_def split: option.splits)
    ultimately show ?thesis
      using canAdd_withQueue(1) [OF can] assms(7) hv by (simp add: canAdd_def)
  qed
  obtain w2 where w2: "activateComponent E halt r p ?v = Done None (registerAddon r p w2)"
    "added r r p [''root''] ?w1 w2" "sameProcess ?w1 w2"
    using activate_after_init [OF can1 d1] by auto
  have s2: "rootContainer w2 = Some r" "addons w2 = []" "asContainer (heap w2 r) \<noteq> None" "cHandlers (cpart w2 r) \<noteq> None"
    using w2(2) r(3) by (simp_all add: added_def)
  have p2: "gotype (heap w2 p) = PersistenceT" "Stage (heap w2 p) = Started"
    "asPersistence (heap w2 p) = Some \<lparr>dbHandle = ?db, symmetricEncryptKey = Some (dbKey E)\<rparr>"
    using w2(2) hv by (simp_all add: added_def reaches_def)
  let ?w3 = "updPart r (\<lambda>k. k\<lparr>persistence := Some p\<rparr>) w2"
  have reg: "registerAddon r p w2 = ?w3" using p2(1) by (simp add: registerAddon_def)
  have "attachFileDb E halt p w = Done () ?w3"
    using Add_passes [OF can, of halt] w2(1) r(3) s2
    by (simp add: attachFileDb_def AttachComponent_def addonMade_def [symmetric] Add_def reg)
  moreover have "persistsTo r p (dbKey E) ?db ?w3"
    using s2 p2(3) assms(7) by (simp add: persistsTo_def persistenceOf_def)
  moreover have "Stage (heap ?w3 r) = Started" "Stage (heap ?w3 p) = Started"
    using added_others(2) [OF w2(2), of r] r(2) assms(7) p2(2) by simp_all
  moreover have "disk ?w3 = disk w" "topLevelComponents ?w3 = topLevelComponents w"
    using w2(3) env by (simp_all add: sameProcess_def)
  moreover have "Name (heap ?w3 r) = ''root''" using added_others(1) [OF w2(2), of r] r(1) assms(7) by simp
  moreover have "tornDown ?w3 = tornDown w" using w2(3) by (simp add: sameProcess_def dbOpened_def addonMade_def)
  moreover have "tasks ?w3 = tasks w @ [MmuxTask r p, PreStartTask p, StartTask r p]"
    using w2(2) by (simp add: added_def)
  moreover have "rootHolds E r (xs @ [p]) ?w3" if x: "rootHolds E r xs w" "p \<notin> set xs" "mmuxServer p (tasks w) = None" for xs
  proof -
    have "rootHolds E r xs ?v" by (rule rootHolds_made [OF x(1)]) (use assms(7) x(2) in simp)
    then have h1: "rootHolds E r xs ?w1" by (rule rootHolds_same) (use assms(7) x(2) in auto)
    have "leafStops E (heap w2 p)" using p2 by (simp add: leafStops_def Disconnect_def)
    then have h2: "rootHolds E r (xs @ [p]) w2"
      using rootHolds_added [OF h1 can1 w2(2) x(2)] x(3) by simp
    show ?thesis
    proof (rule rootHolds_transfer [OF h2])
      show "(\<exists>f. heap ?w3 y = (heap w2 y)\<lparr>asContainer := f\<rparr>) \<and> mmuxServer y (tasks ?w3) = mmuxServer y (tasks w2)" for y
        by (cases "y = r") (auto intro: exI [of _ "asContainer (heap w2 y)"])
    qed (use s2(3) in \<open>auto simp: cpart_def\<close>)
  qed
  moreover have "asContainer (heap ?w3 r) \<noteq> None" "cHandlers (cpart ?w3 r) \<noteq> None" using s2 by simp_all
  ultimately show ?thesis using s2 by (intro exI [of _ ?w3]) simp
qed

section \<open>One process\<close>

text \<open>The program with the database, started on a disk.\<close>

lemma startProcess_counts:
  assumes "aeadCorrect E" and "dbEnv E dir" and "distinct [r, p, a]"
    and "storedApp k t (Some (dir, False), D)" and "countable k t" and "countable (k + 1) (nowText E)"
  shows "\<exists>w1. startProcess E halt r None (Some p) a ((worldOf h)\<lparr>disk := D\<rparr>) = Done () w1 \<and>
    Stage (heap w1 a) = Started \<and> Stage (heap w1 r) = Started \<and> Stage (heap w1 p) = Started \<and>
    topLevelComponents w1 = [r, a] \<and> userFields (heap w1 a) = appFields (k + 1) (nowText E) \<and>
    storedApp (k + 1) (nowText E) (Some (dir, False), disk w1)"
proof -
  let ?w = "(worldOf h)\<lparr>disk := D\<rparr>"
  have v: "addons ?w = []" "disk ?w = D" "\<not> runOncePersistence ?w" "topLevelComponents ?w = []" by (simp_all add: worldOf_def)
  obtain w1 where w1: "initProcess E halt r ?w = Done () w1" "rootRuns r w1" "persistOff w1" "disk w1 = D"
    "\<not> runOncePersistence w1" "topLevelComponents w1 = [r]" "nameFree ''simpleFileDB'' r w1"
    using initProcess_root [OF v(1), of E halt r] v by (simp only: append_Nil) auto
  have ready: "storeReady (Some (dir, False), disk w1)" using assms(4) w1(4) by (simp add: storedApp_def)
  have pr: "p \<noteq> r" "a \<noteq> r" "a \<noteq> p" using assms(3) by auto
  obtain w2 where w2: "attachFileDb E halt p w1 = Done () w2" "persistsTo r p (dbKey E) (Some (dir, False)) w2"
    "disk w2 = D" "rootContainer w2 = Some r" "addons w2 = []" "asContainer (heap w2 r) \<noteq> None"
    "cHandlers (cpart w2 r) \<noteq> None" "Stage (heap w2 p) = Started" "Stage (heap w2 r) = Started" "topLevelComponents w2 = [r]"
    using attachFileDb_persists [OF assms(2) ready w1(5,2,7,3) pr(1), of halt] w1(4,6) by auto
  let ?v = "appMade a w2"
  have b: "bootable r a ?v" using bootable_app [OF w2(4,5) _ w2(6,7)] pr by simp
  have pv: "persistsTo r p (dbKey E) (Some (dir, False)) ?v"
    by (rule persistsTo_transfer [OF w2(2)]) (use pr in simp_all)
  have sv: "storedApp k t (Some (dir, False), disk ?v)" using assms(4) w2(3) by simp
  obtain w3 where w3: "Add E halt a (Some a) ?v = Done None w3" "booted r a ?v w3"
    "storedApp (k + 1) (nowText E) (Some (dir, False), disk w3)" "userFields (heap w3 a) = appFields (k + 1) (nowText E)"
    using Add_app [OF assms(1) pv sv assms(5,6) pr(2,3) appMade_sel(1) b, of halt] by blast
  have "startProcess E halt r None (Some p) a ?w = Done () w3"
    using w1(1) w2(1) w3(1) by (simp add: startProcess_def mainFunction_def appMade_def)
  moreover have "Stage (heap w3 a) = Started" using w3(2) by (auto simp: booted_def reaches_def)
  moreover have "Stage (heap w3 y) = Stage (heap w2 y)" if ya: "y \<noteq> a" for y
  proof -
    obtain f where "heap w3 y = (heap ?v y)\<lparr>asContainer := f\<rparr>" using booted_other [OF w3(2) ya] .
    then show ?thesis using ya by simp
  qed
  moreover have "topLevelComponents w3 = [r, a]" using w3(2) w2(10) by (simp add: booted_def)
  ultimately show ?thesis using w3(3,4) w2(8,9) pr by (intro exI [of _ w3]) auto
qed

section \<open>Process after process\<close>

text \<open>
  A process that is started at a time, on the disk its predecessors have left; and the disk after
  processes started one after the other, each of them killed once \<^verbatim>\<open>main\<close> waits.
\<close>

definition processAt :: "env \<Rightarrow> nat \<Rightarrow> cid \<Rightarrow> cid \<Rightarrow> cid \<Rightarrow> (cid \<Rightarrow> component) \<Rightarrow> string \<Rightarrow> disk \<Rightarrow> unit run" where
  "processAt E n r p a h t D =
     startProcess (E\<lparr>nowText := t\<rparr>) (containerStop (E\<lparr>nowText := t\<rparr>) n) r None (Some p) a ((worldOf h)\<lparr>disk := D\<rparr>)"

fun diskAfter :: "env \<Rightarrow> nat \<Rightarrow> cid \<Rightarrow> cid \<Rightarrow> cid \<Rightarrow> (cid \<Rightarrow> component) \<Rightarrow> string list \<Rightarrow> disk \<Rightarrow> disk option" where
  "diskAfter E n r p a h [] D = Some D"
| "diskAfter E n r p a h (t # ts) D =
     (case processAt E n r p a h t D of Done _ w \<Rightarrow> diskAfter E n r p a h ts (disk w) | _ \<Rightarrow> None)"

lemma processAt_counts:
  assumes "aeadCorrect E" and "dbEnv E dir" and "distinct [r, p, a]"
    and "storedApp k s (Some (dir, False), D)" and "countable k s" and "countable (k + 1) t"
  shows "\<exists>w1. processAt E n r p a h t D = Done () w1 \<and>
    Stage (heap w1 a) = Started \<and> Stage (heap w1 r) = Started \<and> Stage (heap w1 p) = Started \<and>
    userFields (heap w1 a) = appFields (k + 1) t \<and> storedApp (k + 1) t (Some (dir, False), disk w1)"
proof -
  let ?E = "E\<lparr>nowText := t\<rparr>"
  have "aeadCorrect ?E" "dbEnv ?E dir" "countable (k + 1) (nowText ?E)"
    using assms by (simp_all add: aeadCorrect_def dbEnv_def)
  then show ?thesis
    using startProcess_counts [of ?E dir r p a k s D "containerStop ?E n" h] assms(3-5) by (auto simp: processAt_def)
qed

lemma diskAfter_counts:
  assumes "aeadCorrect E" and "dbEnv E dir" and "distinct [r, p, a]"
    and "storedApp k s (Some (dir, False), D)" and "countable k s"
    and "k + int (length ts) < 2 ^ 63" and "\<forall>t \<in> set ts. validUtf8 t"
  shows "\<exists>D1 u. diskAfter E n r p a h ts D = Some D1 \<and> validUtf8 u \<and>
    storedApp (k + int (length ts)) u (Some (dir, False), D1)"
  using assms(4-)
proof (induction ts arbitrary: k s D)
  case Nil
  then show ?case by (auto simp: countable_def)
next
  case (Cons t ts)
  have "countable (k + 1) t" using Cons.prems(2-4) by (simp add: countable_def)
  then obtain w1 where w1: "processAt E n r p a h t D = Done () w1" "storedApp (k + 1) t (Some (dir, False), disk w1)"
    using processAt_counts [OF assms(1-3) Cons.prems(1,2)] by blast
  obtain D1 u where "diskAfter E n r p a h ts (disk w1) = Some D1" "validUtf8 u"
    "storedApp (k + 1 + int (length ts)) u (Some (dir, False), D1)"
    using Cons.IH [OF w1(2) \<open>countable (k + 1) t\<close>] Cons.prems(3,4) by auto
  then show ?case using w1(1) by (auto simp: algebra_simps)
qed

text \<open>
  C6: the application counts its executions. When the database starts with an empty directory, then
  after any number of processes the next one comes up with its database and its application \<^verbatim>\<open>Started\<close>,
  and \<^verbatim>\<open>PreviousExecutions\<close> is the number of processes so far, itself included; \<^verbatim>\<open>LastExecutedDateTime\<close>
  is the time of its start. The number goes through \<^verbatim>\<open>load\<close>, \<^verbatim>\<open>PostInit\<close>, \<^verbatim>\<open>persist\<close>, the JSON text and the
  file in every process; it is bounded by the 64 bits of the field.
\<close>

theorem executions_are_counted:
  assumes "aeadCorrect E" and "dbEnv E dir" and "distinct [r, p, a]"
    and "storeReady (Some (dir, False), D)" and "storeFind ''kinesis'' (Some (dir, False), D) = Ret ([], None)"
    and "int (length ts) + 1 < 2 ^ 63" and "\<forall>u \<in> set (t # ts). validUtf8 u"
  shows "\<exists>D1 w1. diskAfter E n r p a h ts D = Some D1 \<and> processAt E n r p a h t D1 = Done () w1 \<and>
    Stage (heap w1 r) = Started \<and> Stage (heap w1 p) = Started \<and> Stage (heap w1 a) = Started \<and>
    Field ''PreviousExecutions'' ''int'' (Some ''native'') True (VInt 64 (int (length ts) + 1)) \<in> set (userFields (heap w1 a)) \<and>
    Field ''LastExecutedDateTime'' ''string'' (Some ''native'') True (VString t) \<in> set (userFields (heap w1 a))"
proof -
  have s: "storedApp 0 [] (Some (dir, False), D)" "countable 0 []"
    using assms(4,5) by (simp_all add: storedApp_def countable_def)
  obtain D1 u where D1: "diskAfter E n r p a h ts D = Some D1" "validUtf8 u"
    "storedApp (int (length ts)) u (Some (dir, False), D1)"
    using diskAfter_counts [OF assms(1-3) s, of ts n h] assms(6,7) by auto
  have "countable (int (length ts)) u" "countable (int (length ts) + 1) t"
    using D1(2) assms(6,7) by (simp_all add: countable_def)
  then show ?thesis
    using processAt_counts [OF assms(1-3) D1(3), of t n h] D1(1) by (fastforce simp: appFields_def)
qed

text \<open>An environment with a database and a key, and the third process on it.\<close>

definition dbSampleEnv :: env where
  "dbSampleEnv = plainEnv\<lparr>getenv := \<lambda>s. if s = ''KINESIS_DB_CONNECTION'' then ''file:///db'' else ''secret''\<rparr>"

theorem executions_are_counted_witness:
  "\<exists>D1 w1. diskAfter dbSampleEnv 3 0 1 2 freshJob [''monday'', ''tuesday''] sampleDisk = Some D1 \<and>
    processAt dbSampleEnv 3 0 1 2 freshJob ''friday'' D1 = Done () w1 \<and> Stage (heap w1 2) = Started \<and>
    Field ''PreviousExecutions'' ''int'' (Some ''native'') True (VInt 64 3) \<in> set (userFields (heap w1 2))"
proof -
  have "aeadCorrect dbSampleEnv" by (simp add: dbSampleEnv_def aeadCorrect_def)
  moreover have "dbEnv dbSampleEnv ''/db''" by (simp add: dbEnv_def dbSampleEnv_def filePrefix_def)
  moreover have "storeFind ''kinesis'' (Some (''/db'', False), sampleDisk) = Ret ([], None)"
    by (simp add: storeFind_def FindOne_def collFilePath_def walkPath_def sampleDisk_def)
  moreover have "validUtf8 ''monday''" "validUtf8 ''tuesday''" "validUtf8 ''friday''"
    by (intro validUtf8_ascii, simp add: ascii_def byteOf_def)+
  ultimately show ?thesis
    using executions_are_counted [of dbSampleEnv "''/db''" 0 1 2 sampleDisk "[''monday'', ''tuesday'']" "''friday''" 3 freshJob]
      sample_ready by auto
qed

section \<open>A document that is not as expected\<close>

text \<open>A stored value that is not text, such as a JSON number, under the name of the counter.\<close>

definition badCount :: "ptype list \<Rightarrow> bool" where
  "badCount ps \<longleftrightarrow>
     (\<exists>q. pTypeMap ps ''PreviousExecutions'' = Some q \<and> pTypeHierarchy q = ''App'' \<and> pValue q = POther)"

lemma load_bad:
  assumes "persistsTo r p key db w" and "storeFind ''kinesis'' (db, disk w) = Ret (ps, None)" and "badCount ps"
    and "Name (heap w a) = ''kinesis''" and "gotype (heap w a) = AppT" and "userFields (heap w a) = appFields 0 []"
  shows "load E r a w = Crash w"
proof -
  have "unmarshalToType E key False ''App'' (pTypeMap ps) (appFields 0 []) = (appFields 0 [], True)"
    using assms(3) by (auto simp: badCount_def appFields_def unmarshalField_def storedText_def)
  moreover have "ps \<noteq> []" using assms(3) by (auto simp: badCount_def pTypeMap_def)
  moreover have "upd a (\<lambda>d. d\<lparr>userFields := appFields 0 []\<rparr>) w = w" using assms(6) by (simp add: upd_id)
  ultimately show ?thesis
    using assms by (simp add: load_def persistsTo_def storeFind_def)
qed

lemma initialize_bad:
  assumes "persistsTo r p key db w" and "storeReady (db, disk w)" and "storeFind ''kinesis'' (db, disk w) = Ret (ps, None)"
    and "badCount ps" and "a \<noteq> r" and "a \<noteq> p" and "quiet (heap w a)"
    and "Stage (heap w a) = Submitted" and "Name (heap w a) = ''kinesis''" and "gotype (heap w a) = AppT"
    and "userFields (heap w a) = appFields 0 []" and "persistanceCache (heap w a) = None"
  shows "\<exists>w1. componentLifecycleFSM E halt c ctx a w = Crash w1 \<and> storedApp 0 [] (db, disk w1)"
proof -
  obtain d0 where d0: "stageSwitch E halt c ctx a w = initComponent E a (addTask (MmuxTask c a) (upd a (\<lambda>_. d0) w))"
    "reaches Preinitialized (heap w a) d0" "userFields d0 = appFields 0 []"
    using fsm_submitted [OF assms(8), of E halt c ctx] assms(7,11) by auto
  let ?w2 = "upd a (setStage E Initializing) (addTask (MmuxTask c a) (upd a (\<lambda>_. d0) w))"
  have r0: "quiet d0" "Name d0 = ''kinesis''" "gotype d0 = AppT" "persistanceCache d0 = None"
    using d0(2) assms(7,9,10,12) by (simp_all add: reaches_def)
  have p2: "persistsTo r p key db ?w2" using persistsTo_upd assms(1,5,6) by simp
  have f: "userFields (heap ?w2 a) = appFields 0 []" using r0(1) d0(3) by (simp add: userFields_setStage)
  have "load E r a ?w2 = Crash ?w2" using load_bad [OF p2 _ assms(4) _ _ f] assms(3) r0 by simp
  then have "initComponent E a (addTask (MmuxTask c a) (upd a (\<lambda>_. d0) w)) = Crash ?w2"
    by (simp add: initComponent_def withPersistence_on [OF p2])
  moreover obtain D where "persist E r a ?w2 =
      Done None ((upd a (\<lambda>d. d\<lparr>persistanceCache := Some (marshalPTypes (appDoc 0 []))\<rparr>) ?w2)\<lparr>disk := D\<rparr>)" "storedApp 0 [] (db, D)"
    using persist_app [OF p2 _ _ _ _ f, of E] assms(2) r0 by (auto simp: countable_def)
  ultimately show ?thesis
    using d0(1) by (simp add: componentLifecycleFSM_def deferPersist_def withPersistence_on [OF p2])
qed

text \<open>A document in which the counter is a JSON number.\<close>

definition badText :: string where
  "badText = CHR ''['' # CHR ''{'' # jsonString ''name'' @ CHR '':'' # jsonString ''PreviousExecutions'' @
     CHR '','' # jsonString ''typeHierarchy'' @ CHR '':'' # jsonString ''App'' @
     CHR '','' # jsonString ''value'' @ '':3}]''"

definition badDisk :: disk where
  "badDisk = sampleDisk([''db'', ''kinesis''] \<mapsto> FileN badText)"

lemma badText_parsed:
  "unmarshalPTypes badText =
     Some [\<lparr>pName = ''PreviousExecutions'', pTypeHierarchy = ''App'', pValue = POther, pIsEncrypted = False\<rparr>]"
  by code_simp

text \<open>
  C40: a stored value that is not text makes the type assertion in \<^verbatim>\<open>unmarshalToType\<close> panic, and
  nothing recovers: the process ends in \<^verbatim>\<open>main\<close>. On its way out the deferred function of the state
  machine stores the application as it is, over the document. The next process comes up, but has lost
  the count: it starts again at one.
\<close>

theorem bad_document_resets_count:
  assumes "aeadCorrect E" and "dbEnv E dir" and "distinct [r, p, a]"
    and "storeReady (Some (dir, False), D)" and "storeFind ''kinesis'' (Some (dir, False), D) = Ret (ps, None)"
    and "badCount ps" and "validUtf8 t"
  shows "\<exists>w1 w2. processAt E n r p a h s D = Crash w1 \<and> processAt E n r p a h t (disk w1) = Done () w2 \<and>
    Field ''PreviousExecutions'' ''int'' (Some ''native'') True (VInt 64 1) \<in> set (userFields (heap w2 a))"
proof -
  let ?w = "(worldOf h)\<lparr>disk := D\<rparr>"
  let ?E = "E\<lparr>nowText := s\<rparr>"
  let ?halt = "containerStop ?E n"
  have env: "dbEnv ?E dir" using assms(2) by (simp add: dbEnv_def)
  have v: "addons ?w = []" "disk ?w = D" "\<not> runOncePersistence ?w" "topLevelComponents ?w = []" by (simp_all add: worldOf_def)
  obtain w1 where w1: "initProcess ?E ?halt r ?w = Done () w1" "rootRuns r w1" "persistOff w1" "disk w1 = D"
    "\<not> runOncePersistence w1" "topLevelComponents w1 = [r]" "nameFree ''simpleFileDB'' r w1"
    using initProcess_root [OF v(1), of ?E ?halt r] v by (simp only: append_Nil) auto
  have pr: "p \<noteq> r" "a \<noteq> r" "a \<noteq> p" using assms(3) by auto
  obtain w2 where w2: "attachFileDb ?E ?halt p w1 = Done () w2" "persistsTo r p (dbKey ?E) (Some (dir, False)) w2"
    "disk w2 = D" "rootContainer w2 = Some r" "addons w2 = []" "asContainer (heap w2 r) \<noteq> None" "cHandlers (cpart w2 r) \<noteq> None"
    using attachFileDb_persists [OF env _ w1(5,2,7,3) pr(1), of ?halt] assms(4) w1(4) by auto
  let ?u = "appMade a w2"
  let ?q = "updPart a (\<lambda>k. k\<lparr>compActivationQueue := True\<rparr>) ?u"
  have b: "bootable r a ?u" using bootable_app [OF w2(4,5) _ w2(6,7)] pr by simp
  have "persistsTo r p (dbKey ?E) (Some (dir, False)) ?u"
    by (rule persistsTo_transfer [OF w2(2)]) (use pr in simp_all)
  then have "persistsTo r p (dbKey ?E) (Some (dir, False)) ?q" unfolding updPart_def by (rule persistsTo_upd [OF _ pr(2,3)])
  then obtain w3 where w3: "componentLifecycleFSM ?E ?halt a background a ?q = Crash w3" "storedApp 0 [] (Some (dir, False), disk w3)"
    using initialize_bad [of r p "dbKey ?E" "Some (dir, False)" ?q ps a ?E ?halt a background] assms(4-6) pr w2(3) by auto
  have "addComponent ?E ?halt a (Some a) ?u = activateComponent ?E ?halt a a ?q"
    using b by (simp add: addComponent_def Matches_def Let_def cpart_def emptyPart_def bootable_def stage_order)
  then have "Add ?E ?halt a (Some a) ?u = Crash w3" using w3(1) by (simp add: Add_def activateComponent_def)
  then have crash: "processAt E n r p a h s D = Crash w3"
    using w1(1) w2(1) by (simp add: processAt_def startProcess_def mainFunction_def appMade_def)
  have "countable 0 []" "countable (0 + 1) t" using assms(7) by (simp_all add: countable_def)
  then obtain w4 where "processAt E n r p a h t (disk w3) = Done () w4" "userFields (heap w4 a) = appFields (0 + 1) t"
    using processAt_counts [OF assms(1-3) w3(2)] by blast
  then show ?thesis using crash by (intro exI [of _ w3] exI [of _ w4]) (simp add: appFields_def)
qed

theorem bad_document_resets_count_witness:
  "\<exists>w1 w2. processAt dbSampleEnv 3 0 1 2 freshJob ''monday'' badDisk = Crash w1 \<and>
    processAt dbSampleEnv 3 0 1 2 freshJob ''tuesday'' (disk w1) = Done () w2 \<and>
    Field ''PreviousExecutions'' ''int'' (Some ''native'') True (VInt 64 1) \<in> set (userFields (heap w2 2))"
proof (rule bad_document_resets_count)
  show "aeadCorrect dbSampleEnv" by (simp add: dbSampleEnv_def aeadCorrect_def)
  show "dbEnv dbSampleEnv ''/db''" by (simp add: dbEnv_def dbSampleEnv_def filePrefix_def)
  show "storeReady (Some (''/db'', False), badDisk)"
    by (auto simp: storeReady_def badDisk_def sampleDisk_def walkPath_def)
  show "storeFind ''kinesis'' (Some (''/db'', False), badDisk) =
      Ret ([\<lparr>pName = ''PreviousExecutions'', pTypeHierarchy = ''App'', pValue = POther, pIsEncrypted = False\<rparr>], None)"
    using badText_parsed by (simp add: storeFind_def FindOne_def collFilePath_def walkPath_def badDisk_def sampleDisk_def)
  show "badCount [\<lparr>pName = ''PreviousExecutions'', pTypeHierarchy = ''App'', pValue = POther, pIsEncrypted = False\<rparr>]"
    by (simp add: badCount_def pTypeMap_def)
  show "validUtf8 ''tuesday''" by (intro validUtf8_ascii, simp add: ascii_def byteOf_def)
qed simp

end
