(* ===== verification/Http_Start.thy ===== *)
theory Http_Start
  imports Root_Addons
begin

text \<open>
  The program with the HTTP server: the server attaches itself to the root container, and its \<^verbatim>\<open>Start\<close>
  goroutine serves on the default port.
\<close>

section \<open>Attaching the server\<close>

lemma httpServerAddon_sel [simp]:
  "gotype (httpServerAddon x) = HttpServerT" "Stage (httpServerAddon x) = Submitted"
  "Name (httpServerAddon x) = ''httpserver''" "asContainer (httpServerAddon x) = None" "quiet (httpServerAddon x)"
  "userFields (httpServerAddon x) = [Field ''HttpPort'' ''string'' None True (VString [])]"
  "isNonRestEntity (httpServerAddon x)"
  by (simp_all add: httpServerAddon_def newComponent_def quiet_def)

lemma initialize_http:
  assumes "\<not> runOnceHttp w" and "gotype (heap w x) = HttpServerT" and "Stage (heap w x) = Submitted"
    and "persistOff w" and "quiet (heap w x)"
  defines "w1 \<equiv> w\<lparr>runOnceHttp := True\<rparr>"
  shows "\<exists>d1. componentLifecycleFSM E halt c ctx x w = Done None (addTask (MmuxTask c x) (upd x (\<lambda>_. d1) w1)) \<and>
    reaches Initialized (heap w1 x) d1 \<and> mmuxBuffer d1 = None \<and>
    userFields d1 = userFields (heap w x)"
proof -
  obtain d0 where d0: "stageSwitch E halt c ctx x w = initComponent E x (addTask (MmuxTask c x) (upd x (\<lambda>_. d0) w))"
    "reaches Preinitialized (heap w x) d0" "mmuxBuffer d0 = None"
    "userFields d0 = userFields (heap w x)"
    using fsm_submitted [OF assms(3), of E halt c ctx] assms(5) by blast
  let ?v = "addTask (MmuxTask c x) (upd x (\<lambda>_. d0) w)"
  let ?d1 = "setStage E Initialized (setStage E Initializing d0)"
  let ?w2 = "addTask (MmuxTask c x) (upd x (\<lambda>_. ?d1) w1)"
  have r0: "gotype d0 = HttpServerT" "quiet d0" "mmux d0" using d0(2) assms(2,5) by (simp_all add: reaches_def)
  have po: "persistOff ?v" using assms(4) d0(2) by (simp add: persistOff_upd_at reaches_def)
  then have "initComponent E x ?v = Done None ?w2"
    using r0(1) assms(1)
    by (simp add: initComponent_def virtualInit_def virtualPostInit_def httpServerInit_def)
      (simp add: w1_def upd_def addTask_def)
  moreover have "persistOff ?w2"
    using assms(4) d0(2) by (auto simp: persistOff_def cpart_def w1_def reaches_def split: option.splits)
  ultimately have "componentLifecycleFSM E halt c ctx x w = Done None ?w2"
    using d0(1) by (simp add: componentLifecycleFSM_def)
  moreover have "reaches Initialized (heap w1 x) ?d1" using d0(2) by (simp add: reaches_def w1_def)
  moreover have "userFields ?d1 = userFields (heap w x)" using r0(2) d0(4) by (simp add: userFields_setStage)
  moreover have "mmuxBuffer ?d1 = None" using d0(3) by (simp add: w1_def)
  ultimately show ?thesis by blast
qed

lemma attachHttpServer_starts:
  assumes "rootRuns r w" and "nameFree ''httpserver'' r w" and "persistOff w" and "h \<noteq> r" and "\<not> runOnceHttp w"
  shows "\<exists>w1. attachHttpServer E halt h w = Done () w1 \<and> rootRuns r w1 \<and> persistOff w1 \<and> runOnceHttp w1 \<and>
    Stage (heap w1 h) = Started \<and> gotype (heap w1 h) = HttpServerT \<and>
    userFields (heap w1 h) = [Field ''HttpPort'' ''string'' None True (VString [])] \<and>
    tasks w1 = tasks w @ [MmuxTask r h, PreStartTask h, StartTask r h] \<and>
    topLevelComponents w1 = topLevelComponents w \<and> disk w1 = disk w \<and>
    runOncePersistence w1 = runOncePersistence w \<and> tornDown w1 = tornDown w \<and>
    (\<forall>n. n \<noteq> ''httpserver'' \<longrightarrow> nameFree n r w \<longrightarrow> nameFree n r w1) \<and>
    (\<forall>xs. rootHolds E r xs w \<longrightarrow> h \<notin> set xs \<longrightarrow> mmuxServer h (tasks w) = None \<longrightarrow>
       (returns None (stopHook E ''HttpServer'')) \<longrightarrow> rootHolds E r (xs @ [h]) w1)"
proof -
  let ?a = "addonMade (httpServerAddon h) h w"
  let ?v = "withQueue r ?a"
  let ?w1 = "?v\<lparr>runOnceHttp := True\<rparr>"
  have r: "Name (heap w r) = ''root''" "Stage (heap w r) = Started" "container (heap w r) = None"
    "rootContainer w = Some r" "addons w = []"
    using assms(1) by (simp_all add: rootRuns_def)
  have hv: "heap ?v h = httpServerAddon h" using heap_withQueue(1) [of h r ?a] assms(4) by simp
  have env: "disk ?v = disk w" "\<not> runOnceHttp ?v" "topLevelComponents ?v = topLevelComponents w"
    using assms(5) by (simp_all add: withQueue_def)
  have "\<not> list_ex (\<lambda>c. \<not> allowedChar c) ''httpserver''" by code_simp
  then have can: "canAdd E r r h [''root''] ?a"
    using canAdd_addon [OF assms(1,3,4), of "httpServerAddon h"] assms(2) by simp
  then have pov: "persistOff ?v" by (simp add: canAdd_def)
  have pre: "gotype (heap ?v h) = HttpServerT" "Stage (heap ?v h) = Submitted" "quiet (heap ?v h)"
    unfolding hv by simp_all
  obtain d1 where d1: "componentLifecycleFSM E halt r background h ?v = Done None (addTask (MmuxTask r h) (upd h (\<lambda>_. d1) ?w1))"
    "reaches Initialized (heap ?w1 h) d1" "mmuxBuffer d1 = None"
    "userFields d1 = userFields (heap ?v h)"
    using initialize_http [OF env(2) pre(1,2) pov pre(3), of E halt r background] by blast
  have can1: "canAdd E r r h [''root''] ?w1"
  proof -
    have "containerPaths (upd h (setContainer r) ?v) (Some r) [] = Some [''root'']"
      using canAdd_withQueue(1) [OF can] by (simp add: canAdd_def)
    then have "containerPaths (upd h (setContainer r) ?w1) (Some r) [] = Some [''root'']"
      by (rule containerPaths_transfer) (simp add: setContainer_def)
    moreover have "validateName ?v (Some h) = None" using canAdd_withQueue(1) [OF can] unfolding canAdd_def by blast
    then have "validateName ?w1 (Some h) = None" by (simp add: validateName_def split: if_splits)
    moreover have cp: "cpart ?w1 = cpart ?v" by (simp add: cpart_def fun_eq_iff)
    moreover have "persistOff ?w1 = persistOff ?v" unfolding persistOff_def cp by simp
    ultimately show ?thesis using canAdd_withQueue(1) [OF can] pov assms(4) by (simp add: canAdd_def)
  qed
  obtain w2 where w2: "activateComponent E halt r h ?v = Done None (registerAddon r h w2)"
    "added r r h [''root''] ?w1 w2" "sameProcess ?w1 w2" "quiet d1 \<longrightarrow> userFields (heap w2 h) = userFields d1"
    using activate_after_init [OF can1 d1(1-3)] by auto
  have s2: "rootContainer w2 = Some r" "addons w2 = []" "asContainer (heap w2 r) \<noteq> None" "cHandlers (cpart w2 r) \<noteq> None"
    "persistOff w2" "tasks w2 = tasks w @ [MmuxTask r h, PreStartTask h, StartTask r h]"
    using w2(2) r(4) by (simp_all add: added_def)
  have h2: "gotype (heap w2 h) = HttpServerT" "Stage (heap w2 h) = Started"
    using w2(2) hv by (simp_all add: added_def reaches_def)
  have "quiet d1" using d1(2) hv by (simp add: reaches_def)
  then have f2: "userFields (heap w2 h) = [Field ''HttpPort'' ''string'' None True (VString [])]"
    using w2(4) d1(4) hv by simp
  have "registerAddon r h w2 = w2" using h2(1) by (simp add: registerAddon_other)
  then have "attachHttpServer E halt h w = Done () w2"
    using Add_passes [OF can, of halt] w2(1) r(4) s2
    by (simp add: attachHttpServer_def AttachComponent_def addonMade_def [symmetric] Add_def)
  moreover have "Name (heap w2 r) = ''root''" "Stage (heap w2 r) = Started" "container (heap w2 r) = None"
    using added_others [OF w2(2), of r] r(1-3) assms(4) by simp_all
  moreover have "mapGet (cComponents (cpart w2 r)) ''httpserver'' \<noteq> None" using w2(2) hv by (simp add: added_def)
  then have "cComponents (cpart w2 r) \<noteq> None" by (auto simp: mapGet_def split: option.splits)
  moreover have "disk w2 = disk w" "topLevelComponents w2 = topLevelComponents w" "runOnceHttp w2"
    "runOncePersistence w2 = runOncePersistence w" "tornDown w2 = tornDown w"
    using w2(3) env by (simp_all add: sameProcess_def withQueue_def addonMade_def)
  moreover have "nameFree n r w2" if "n \<noteq> ''httpserver''" "nameFree n r w" for n
  proof -
    have "cComponents (cpart ?w1 r) = cComponents (cpart w r)"
      using assms(4) by (cases "asContainer (heap w r)") (simp_all add: cpart_def withQueue_def emptyPart_def)
    then show ?thesis using w2(2) that hv by (simp add: added_def nameFree_def)
  qed
  moreover have "rootHolds E r (xs @ [h]) w2" if x: "rootHolds E r xs w" "h \<notin> set xs" "mmuxServer h (tasks w) = None"
    "returns None (stopHook E ''HttpServer'')" for xs
  proof (rule rootHolds_added [OF _ can1 w2(2) x(2)])
    have "rootHolds E r xs ?v" by (rule rootHolds_made [OF x(1)]) (use assms(4) x(2) in simp)
    then show "rootHolds E r xs ?w1" by (rule rootHolds_same) simp_all
    show "leafStops E (heap w2 h)" using h2(1) x(4) by (simp add: leafStops_def)
  qed (use x(3) in simp)
  ultimately show ?thesis using s2 h2 f2 by (intro exI [of _ w2]) (simp add: rootRuns_def)
qed

section \<open>The server listens\<close>

definition defaultServer :: httpServerConfig where
  "defaultServer =
     \<lparr>Addr = ''0.0.0.0:8080'', WriteTimeout = 15000000000, ReadTimeout = 15000000000, IdleTimeout = 60000000000\<rparr>"

lemma httpServerStart_default:
  "httpServerStart E [Field ''HttpPort'' ''string'' None True (VString [])] =
     HookRet [Field ''HttpPort'' ''string'' None True (VString ''8080'')] (listenAndServe E defaultServer)"
  by (simp add: httpServerStart_def defaultServer_def goSecond_def)

text \<open>
  C10: the program with the HTTP server, up to its goroutine. The root container, the server and the
  application are all \<^verbatim>\<open>Started\<close>, and the goroutine that runs the server's \<^verbatim>\<open>Start\<close> listens on every
  address at port 8080, which it enters into \<^verbatim>\<open>HttpPort\<close>, with the time-outs of 15 and 60 seconds.
  Once it no longer serves, whatever the error, the server is still \<^verbatim>\<open>Started\<close>: it is not restarted, as
  it does not say it can be.
\<close>

theorem http_server_listens:
  assumes "distinct [r, h, a]"
  shows "\<exists>w1 w2. startProcess E halt r (Some h) None a (worldOf h0) = Done () w1 \<and>
    Stage (heap w1 r) = Started \<and> Stage (heap w1 h) = Started \<and> Stage (heap w1 a) = Started \<and>
    StartTask r h \<in> set (tasks w1) \<and> virtualStart E h w1 = Done (listenAndServe E defaultServer) w2 \<and>
    userFields (heap w2 h) = [Field ''HttpPort'' ''string'' None True (VString ''8080'')] \<and>
    startComponent E halt r h w1 = Done () w2 \<and> Stage (heap w2 h) = Started"
proof -
  let ?v = "worldOf h0"
  have v: "addons ?v = []" "topLevelComponents ?v = []" "\<not> runOnceHttp ?v" by (simp_all add: worldOf_def)
  obtain w1 where w1: "initProcess E halt r ?v = Done () w1" "rootRuns r w1" "nameFree ''httpserver'' r w1" "persistOff w1"
    "\<not> runOnceHttp w1"
    using initProcess_root [OF v(1), of E halt r] v(3) by auto
  have ne: "h \<noteq> r" "a \<noteq> r" "a \<noteq> h" using assms by auto
  obtain w2 where w2: "attachHttpServer E halt h w1 = Done () w2" "rootRuns r w2" "persistOff w2"
    "Stage (heap w2 h) = Started" "gotype (heap w2 h) = HttpServerT"
    "userFields (heap w2 h) = [Field ''HttpPort'' ''string'' None True (VString [])]" "StartTask r h \<in> set (tasks w2)"
    using attachHttpServer_starts [OF w1(2-4) ne(1) w1(5), of E halt] by auto
  let ?u = "appMade a w2"
  have r2: "rootContainer w2 = Some r" "addons w2 = []" "asContainer (heap w2 r) \<noteq> None" "cHandlers (cpart w2 r) \<noteq> None"
    "Stage (heap w2 r) = Started"
    using w2(2) by (simp_all add: rootRuns_def)
  have b: "bootable r a ?u" using bootable_app [OF r2(1,2) _ r2(3,4)] ne by simp
  have "persistOff ?u" using w2(3) r2(1) ne by (simp add: persistOff_def)
  then obtain w3 where w3: "Add E halt a (Some a) ?u = Done None w3" "booted r a ?u w3"
    using Add_itself [OF b] by blast
  have p: "startProcess E halt r (Some h) None a ?v = Done () w3"
    using w1(1) w2(1) w3(1) by (simp add: startProcess_def mainFunction_def appMade_def)
  have other: "Stage (heap w3 y) = Stage (heap w2 y) \<and> gotype (heap w3 y) = gotype (heap w2 y) \<and>
      userFields (heap w3 y) = userFields (heap w2 y)" if ya: "y \<noteq> a" for y
  proof -
    obtain f where "heap w3 y = (heap ?u y)\<lparr>asContainer := f\<rparr>" using booted_other [OF w3(2) ya] .
    then show ?thesis using ya by simp
  qed
  have t: "StartTask r h \<in> set (tasks w3)" "Stage (heap w3 a) = Started"
    using w3(2) w2(7) by (auto simp: booted_def reaches_def)
  have h3: "gotype (heap w3 h) = HttpServerT" "Stage (heap w3 h) = Started" "Stage (heap w3 r) = Started"
    "userFields (heap w3 h) = [Field ''HttpPort'' ''string'' None True (VString [])]"
    using other [of h] other [of r] w2(4-6) r2(5) ne by simp_all
  let ?w4 = "upd h (\<lambda>d. d\<lparr>userFields := [Field ''HttpPort'' ''string'' None True (VString ''8080'')]\<rparr>) w3"
  have s: "virtualStart E h w3 = Done (listenAndServe E defaultServer) ?w4"
    using h3(1,4) by (simp add: virtualStart_def startResult_def httpServerStart_default)
  have "virtualIsRestartable E h ?w4 = ((False, 0), ?w4)"
    using h3(1) by (simp add: virtualIsRestartable_def upd_def)
  then have "startComponent E halt r h w3 = Done () ?w4"
    using s h3(2) by (simp add: startComponent_def afterStart_def stage_order)
  then show ?thesis using p s t h3(2,3) by (intro exI [of _ w3] exI [of _ ?w4]) simp
qed

theorem http_server_listens_witness:
  "\<exists>w1. startProcess plainEnv (containerStop plainEnv 1) 0 (Some 1) None 2 (worldOf freshJob) = Done () w1 \<and>
    Stage (heap w1 1) = Started \<and> StartTask 0 1 \<in> set (tasks w1)"
  using http_server_listens [of 0 1 2 plainEnv "containerStop plainEnv 1" freshJob] by auto

end
