(* ===== verification/Full_Life.thy ===== *)
theory Full_Life
  imports Executions Http_Start
begin

text \<open>
  The program in each of its four builds, with the HTTP server, with the file database, with both and
  with neither: from \<^verbatim>\<open>init\<close> to the shutdown on a signal.
\<close>

section \<open>Attaching the add-ons\<close>

text \<open>The add-ons of a build, in the order in which their packages are initialized.\<close>

definition addonsOf :: "cid option \<Rightarrow> cid option \<Rightarrow> cid list" where
  "addonsOf http db = (case http of None \<Rightarrow> [] | Some h \<Rightarrow> [h]) @ (case db of None \<Rightarrow> [] | Some p \<Rightarrow> [p])"

text \<open>The root container is up with the add-ons \<open>xs\<close>, and no other component has a multiplexer.\<close>

definition rootUp :: "env \<Rightarrow> cid \<Rightarrow> cid list \<Rightarrow> disk \<Rightarrow> world \<Rightarrow> bool" where
  "rootUp E r xs D w \<longleftrightarrow>
     rootHolds E r xs w \<and> rootContainer w = Some r \<and> addons w = [] \<and> cHandlers (cpart w r) \<noteq> None \<and> disk w = D \<and>
     Name (heap w r) = ''root'' \<and> topLevelComponents w = [r] \<and> tornDown w = [] \<and>
     (\<forall>y. y \<notin> set (r # xs) \<longrightarrow> mmuxServer y (tasks w) = None)"

lemma initProcess_up:
  "\<exists>w1. initProcess E halt r ((worldOf h0)\<lparr>disk := D\<rparr>) = Done () w1 \<and> rootUp E r [] D w1 \<and> rootRuns r w1 \<and> persistOff w1 \<and>
    nameFree ''httpserver'' r w1 \<and> nameFree ''simpleFileDB'' r w1 \<and> \<not> runOnceHttp w1 \<and> \<not> runOncePersistence w1"
proof -
  let ?w = "(worldOf h0)\<lparr>disk := D\<rparr>"
  have v: "addons ?w = []" "tasks ?w = []" "disk ?w = D" "topLevelComponents ?w = []" "tornDown ?w = []"
    "\<not> runOnceHttp ?w" "\<not> runOncePersistence ?w"
    by (simp_all add: worldOf_def)
  obtain w1 where w1: "initProcess E halt r ?w = Done () w1" "rootRuns r w1" "\<forall>n. n \<noteq> ''root'' \<longrightarrow> nameFree n r w1" "persistOff w1"
    "disk w1 = D" "rootHolds E r [] w1" "tasks w1 = [MmuxTask r r, PreStartTask r, StartTask r r]"
    "\<not> runOnceHttp w1" "\<not> runOncePersistence w1" "topLevelComponents w1 = [r]" "tornDown w1 = []"
    using initProcess_root [OF v(1), of E halt r] v by auto
  then have "rootUp E r [] D w1" by (simp add: rootUp_def rootRuns_def)
  then show ?thesis using w1 by (intro exI [of _ w1]) simp
qed

lemma attach_http_up:
  assumes "rootUp E r [] D w" and "rootRuns r w" and "persistOff w" and "nameFree ''httpserver'' r w"
    and "nameFree ''simpleFileDB'' r w" and "\<not> runOnceHttp w" and "\<not> runOncePersistence w" and "http \<noteq> Some r"
    and "http \<noteq> None \<Longrightarrow> returns None (stopHook E ''HttpServer'')"
  shows "\<exists>w1. (case http of None \<Rightarrow> Done () w | Some h \<Rightarrow> attachHttpServer E halt h w) = Done () w1 \<and>
    rootUp E r (addonsOf http None) D w1 \<and> rootRuns r w1 \<and> persistOff w1 \<and> nameFree ''simpleFileDB'' r w1 \<and> \<not> runOncePersistence w1"
proof (cases http)
  case None
  then show ?thesis using assms by (simp add: addonsOf_def)
next
  case (Some h)
  have hr: "h \<noteq> r" and hook: "returns None (stopHook E ''HttpServer'')" using assms(8,9) Some by auto
  obtain w1 where w1: "attachHttpServer E halt h w = Done () w1" "rootRuns r w1" "persistOff w1"
    "tasks w1 = tasks w @ [MmuxTask r h, PreStartTask h, StartTask r h]" "topLevelComponents w1 = topLevelComponents w"
    "disk w1 = disk w" "runOncePersistence w1 = runOncePersistence w" "tornDown w1 = tornDown w"
    "nameFree ''simpleFileDB'' r w1"
    "\<forall>xs. rootHolds E r xs w \<longrightarrow> h \<notin> set xs \<longrightarrow> mmuxServer h (tasks w) = None \<longrightarrow>
       (returns None (stopHook E ''HttpServer'')) \<longrightarrow> rootHolds E r (xs @ [h]) w1"
    using attachHttpServer_starts [OF assms(2,4,3) hr assms(6), of E halt] assms(5) by auto
  have "rootHolds E r [h] w1" using w1(10) hook assms(1) hr by (fastforce simp: rootUp_def)
  then have "rootUp E r [h] D w1"
    using assms(1) w1 by (auto simp: rootUp_def rootRuns_def mmuxServer_append)
  then show ?thesis using w1(1-3,7,9) assms(7) Some by (simp add: addonsOf_def)
qed

text \<open>What a build with the database needs: the directory and its document, a key, a clock.\<close>

definition dbGiven :: "env \<Rightarrow> string \<Rightarrow> disk \<Rightarrow> int \<Rightarrow> string \<Rightarrow> bool" where
  "dbGiven E dir D k t \<longleftrightarrow>
     aeadCorrect E \<and> dbEnv E dir \<and> storedApp k t (Some (dir, False), D) \<and> countable k t \<and> countable (k + 1) (nowText E)"

lemma attach_db_up:
  assumes "rootUp E r xs D w" and "rootRuns r w" and "persistOff w" and "nameFree ''simpleFileDB'' r w"
    and "\<not> runOncePersistence w" and "\<And>p. db = Some p \<Longrightarrow> p \<notin> set (r # xs)" and "db \<noteq> None \<Longrightarrow> dbGiven E dir D k t"
  shows "\<exists>w1. (case db of None \<Rightarrow> Done () w | Some p \<Rightarrow> attachFileDb E halt p w) = Done () w1 \<and>
    rootUp E r (xs @ addonsOf None db) D w1 \<and>
    (case db of None \<Rightarrow> persistOff w1 | Some p \<Rightarrow> persistsTo r p (dbKey E) (Some (dir, False)) w1)"
proof (cases db)
  case None
  then show ?thesis using assms by (simp add: addonsOf_def)
next
  case (Some p)
  have g: "dbEnv E dir" "storeReady (Some (dir, False), disk w)" and p: "p \<noteq> r" "p \<notin> set xs"
    using assms(1,6,7) Some by (auto simp: dbGiven_def storedApp_def rootUp_def)
  obtain w1 where w1: "attachFileDb E halt p w = Done () w1" "persistsTo r p (dbKey E) (Some (dir, False)) w1" "disk w1 = disk w"
    "rootContainer w1 = Some r" "addons w1 = []" "cHandlers (cpart w1 r) \<noteq> None"
    "topLevelComponents w1 = topLevelComponents w" "tornDown w1 = tornDown w"
    "tasks w1 = tasks w @ [MmuxTask r p, PreStartTask p, StartTask r p]" "Name (heap w1 r) = ''root''"
    "rootHolds E r (xs @ [p]) w1"
    using attachFileDb_persists [OF g assms(5,2,4,3) p(1), of halt] assms(1) p by (auto simp: rootUp_def)
  then have "rootUp E r (xs @ [p]) D w1" using assms(1) by (auto simp: rootUp_def mmuxServer_append)
  then show ?thesis using w1(1,2) Some by (simp add: addonsOf_def)
qed

section \<open>The application\<close>

lemma persistsTo_ready: "persistsTo r p key (Some (dir, cl)) w \<Longrightarrow> persistReady w"
  by (simp add: persistsTo_def persistReady_def usable_def)

lemma application_up:
  assumes "rootUp E r xs D w" and "a \<notin> set (r # xs)" and "db \<noteq> None \<Longrightarrow> the db \<in> set xs" and "db \<noteq> None \<Longrightarrow> dbGiven E dir D k t"
    and "case db of None \<Rightarrow> persistOff w | Some p \<Rightarrow> persistsTo r p (dbKey E) (Some (dir, False)) w"
  shows "\<exists>w1. mainFunction E halt a w = Done () w1 \<and> rootHolds E r xs w1 \<and> lone w1 a \<and> persistReady w1 \<and>
    topLevelComponents w1 = [r, a] \<and> tornDown w1 = [] \<and> Name (heap w1 r) = ''root'' \<and>
    (db \<noteq> None \<longrightarrow> userFields (heap w1 a) = appFields (k + 1) (nowText E) \<and>
       storedApp (k + 1) (nowText E) (Some (dir, False), disk w1))"
proof -
  let ?u = "appMade a w"
  have up: "rootHolds E r xs w" "rootContainer w = Some r" "addons w = []" "cHandlers (cpart w r) \<noteq> None"
    "topLevelComponents w = [r]" "tornDown w = []" "Name (heap w r) = ''root''" "mmuxServer a (tasks w) = None" "disk w = D"
    and ar: "a \<noteq> r" "r \<noteq> a"
    using assms(1,2) by (auto simp: rootUp_def)
  have "asContainer (heap w r) \<noteq> None" using up(1) by (simp add: rootHolds_def listed_def)
  then have b: "bootable r a ?u" using bootable_app [OF up(2,3) ar(2) _ up(4)] by blast
  obtain w1 where w1: "Add E halt a (Some a) ?u = Done None w1" "booted r a ?u w1" "persistReady w1"
    "db \<noteq> None \<longrightarrow> userFields (heap w1 a) = appFields (k + 1) (nowText E) \<and>
       storedApp (k + 1) (nowText E) (Some (dir, False), disk w1)"
  proof (cases db)
    case None
    then have "persistOff ?u" using assms(5) up(2) ar by (simp add: persistOff_def)
    then obtain w1 where "Add E halt a (Some a) ?u = Done None w1" "booted r a ?u w1" "persistOff w1"
      using Add_itself [OF b] by blast
    then show thesis using that None persistOff_ready by blast
  next
    case (Some p)
    then have g: "aeadCorrect E" "countable k t" "countable (k + 1) (nowText E)" "storedApp k t (Some (dir, False), disk ?u)"
      and p: "persistsTo r p (dbKey E) (Some (dir, False)) w" "a \<noteq> p"
      using assms(2-5) up(9) by (auto simp: dbGiven_def)
    have "persistsTo r p (dbKey E) (Some (dir, False)) ?u" by (rule persistsTo_transfer [OF p(1)]) (use ar p(2) in simp_all)
    then obtain w1 where "Add E halt a (Some a) ?u = Done None w1" "booted r a ?u w1" "persistsTo r p (dbKey E) (Some (dir, False)) w1"
      "storedApp (k + 1) (nowText E) (Some (dir, False), disk w1)" "userFields (heap w1 a) = appFields (k + 1) (nowText E)"
      using Add_app [OF g(1) _ g(4,2,3) ar(1) p(2) appMade_sel(1) b, of "dbKey E" halt] by blast
    then show thesis using that persistsTo_ready by blast
  qed
  have "rootHolds E r xs ?u" by (rule rootHolds_same [OF up(1)]) (use assms(2) in \<open>auto intro!: appMade_sel(2)\<close>)
  then have "rootHolds E r xs w1" using rootHolds_booted [OF _ w1(2) assms(2)] by blast
  moreover have "lone w1 a" by (rule booted_lone [OF w1(2) b]) (simp add: up(8))
  moreover obtain f where "heap w1 r = (heap ?u r)\<lparr>asContainer := f\<rparr>" using booted_other [OF w1(2) ar(2)] .
  then have "Name (heap w1 r) = ''root''" using up(7) ar by simp
  moreover have "mainFunction E halt a w = Done () w1" using w1(1) by (simp add: mainFunction_def appMade_def)
  moreover have "topLevelComponents w1 = [r, a]" "tornDown w1 = []" using w1(2) up by (simp_all add: booted_def)
  ultimately show ?thesis using w1(3,4) by (intro exI [of _ w1]) simp
qed

section \<open>From the start to the exit\<close>

text \<open>
  C2: the program in any of its builds, from its start to its exit. \<^verbatim>\<open>init\<close> and \<^verbatim>\<open>main\<close> bring the root
  container, its add-ons and the application up, whatever was in memory: all are \<^verbatim>\<open>Started\<close>, the root
  container lists itself and its add-ons, and no step panics, blocks or ends the process. With the
  database on a directory that other processes have used, the application has been loaded, has counted
  the execution and is stored. A signal then tears down the application, the add-ons in the reverse
  order, the root container, and the process exits (after \<^verbatim>\<open>SIGUSR1\<close> it does not).
\<close>

theorem every_build_starts_and_stops:
  assumes "distinct (r # a # addonsOf http db)" and "length (addonsOf http db) < n"
    and "http \<noteq> None \<Longrightarrow> returns None (stopHook E ''HttpServer'')" and "db \<noteq> None \<Longrightarrow> dbGiven E dir D k t"
  shows "\<exists>w1. startProcess E (containerStop E n) r http db a ((worldOf h0)\<lparr>disk := D\<rparr>) = Done () w1 \<and>
    (\<forall>x \<in> set (r # a # addonsOf http db). Stage (heap w1 x) = Started) \<and> topLevelComponents w1 = [r, a] \<and>
    components (cpart w1 r) = ''root'' # map (\<lambda>x. Name (heap w1 x)) (addonsOf http db) \<and>
    (db \<noteq> None \<longrightarrow> userFields (heap w1 a) = appFields (k + 1) (nowText E) \<and>
       storedApp (k + 1) (nowText E) (Some (dir, False), disk w1)) \<and>
    signalShutdown E (containerStop E n) ch False r w1 = Exited \<and>
    (\<exists>w2. signalShutdown E (containerStop E n) ch True r w1 = Done () w2 \<and>
       tornDown w2 = a # rev (addonsOf http db) @ [r] \<and>
       (\<forall>x \<in> set (r # a # addonsOf http db). Stage (heap w2 x) = Teareddown))"
proof -
  let ?halt = "containerStop E n" and ?xs = "addonsOf http db"
  have xs: "?xs = addonsOf http None @ addonsOf None db" by (simp add: addonsOf_def)
  have ne: "http \<noteq> Some r" "\<And>p. db = Some p \<Longrightarrow> p \<notin> set (r # addonsOf http None)" "db \<noteq> None \<Longrightarrow> the db \<in> set ?xs"
    "a \<notin> set (r # ?xs)"
    using assms(1) by (auto simp: addonsOf_def split: option.splits)
  obtain w1 where w1: "initProcess E ?halt r ((worldOf h0)\<lparr>disk := D\<rparr>) = Done () w1" "rootUp E r [] D w1" "rootRuns r w1"
    "persistOff w1" "nameFree ''httpserver'' r w1" "nameFree ''simpleFileDB'' r w1" "\<not> runOnceHttp w1" "\<not> runOncePersistence w1"
    using initProcess_up by blast
  obtain w2 where w2: "(case http of None \<Rightarrow> Done () w1 | Some h \<Rightarrow> attachHttpServer E ?halt h w1) = Done () w2"
    "rootUp E r (addonsOf http None) D w2" "rootRuns r w2" "persistOff w2" "nameFree ''simpleFileDB'' r w2" "\<not> runOncePersistence w2"
    using attach_http_up [OF w1(2-8) ne(1) assms(3), where halt = ?halt] by blast
  obtain w3 where w3: "(case db of None \<Rightarrow> Done () w2 | Some p \<Rightarrow> attachFileDb E ?halt p w2) = Done () w3" "rootUp E r ?xs D w3"
    "case db of None \<Rightarrow> persistOff w3 | Some p \<Rightarrow> persistsTo r p (dbKey E) (Some (dir, False)) w3"
    using attach_db_up [OF w2(2-6) ne(2) assms(4), where halt = ?halt] unfolding xs by blast
  obtain w4 where w4: "mainFunction E ?halt a w3 = Done () w4" "rootHolds E r ?xs w4" "lone w4 a" "persistReady w4"
    "topLevelComponents w4 = [r, a]" "tornDown w4 = []" "Name (heap w4 r) = ''root''"
    "db \<noteq> None \<longrightarrow> userFields (heap w4 a) = appFields (k + 1) (nowText E) \<and>
       storedApp (k + 1) (nowText E) (Some (dir, False), disk w4)"
    using application_up [OF w3(2) ne(4,3) assms(4) w3(3), where halt = ?halt] by blast
  have start: "startProcess E ?halt r http db a ((worldOf h0)\<lparr>disk := D\<rparr>) = Done () w4"
    using w1(1) w2(1) w3(1) w4(1) by (simp add: startProcess_def)
  let ?g = "CNode r (map leaf ?xs)"
  have nodes: "concat (map (nodes \<circ> leaf) xs) = xs" "concat (map (shutOrder \<circ> leaf) xs) = xs" for xs
    by (induction xs) simp_all
  have "groupsReady E n [?g, leaf a] w4"
    using rootHolds_group [OF w4(2,4)] lone_group [OF w4(3,4)] assms(1,2) by (simp add: groupsReady_def nodes)
  then obtain w5 where w5: "\<forall>usr1. signalShutdown E ?halt ch usr1 r w4 = (if usr1 then Done () w5 else Exited)"
    "tornDown w5 = a # rev ?xs @ [r]" "\<forall>x \<in> set (r # a # ?xs). Stage (heap w5 x) = Teareddown"
    using signalShutdown_groups [of w4 ?g "[leaf a]" r E n ch] w4(2,5,6) by (auto simp: nodes quiet_def rootHolds_def rev_map)
  have "components (cpart w4 r) = ''root'' # map (\<lambda>x. Name (heap w4 x)) ?xs"
    using w4(2,7) by (simp add: rootHolds_def listed_def ownNames_def comp_def)
  moreover have "\<forall>x \<in> set (r # a # ?xs). Stage (heap w4 x) = Started"
    using w4(2,3) by (auto simp: rootHolds_def addonRuns_def lone_def)
  ultimately show ?thesis using start w4(5,8) w5 by (intro exI [of _ w4]) simp
qed

theorem every_build_starts_and_stops_witness:
  "\<exists>w1. startProcess dbSampleEnv (containerStop dbSampleEnv 3) 0 (Some 1) (Some 2) 3 ((worldOf freshJob)\<lparr>disk := sampleDisk\<rparr>) = Done () w1 \<and>
    components (cpart w1 0) = [''root'', Name (heap w1 1), Name (heap w1 2)] \<and>
    signalShutdown dbSampleEnv (containerStop dbSampleEnv 3) 7 False 0 w1 = Exited \<and>
    (\<exists>w2. signalShutdown dbSampleEnv (containerStop dbSampleEnv 3) 7 True 0 w1 = Done () w2 \<and> tornDown w2 = [3, 2, 1, 0])"
proof -
  have "validUtf8 (nowText dbSampleEnv)"
    by (intro validUtf8_ascii, simp add: dbSampleEnv_def plainEnv_def ascii_def byteOf_def)
  moreover have "storeFind ''kinesis'' (Some (''/db'', False), sampleDisk) = Ret ([], None)"
    by (simp add: storeFind_def FindOne_def collFilePath_def walkPath_def sampleDisk_def)
  ultimately have "dbGiven dbSampleEnv ''/db'' sampleDisk 0 []"
    using sample_ready
    by (simp add: dbGiven_def dbSampleEnv_def aeadCorrect_def dbEnv_def filePrefix_def storedApp_def countable_def)
  moreover have "returns None (stopHook dbSampleEnv ''HttpServer'')" by (simp add: dbSampleEnv_def)
  ultimately show ?thesis
    using every_build_starts_and_stops [of 0 3 "Some 1" "Some 2" 3 dbSampleEnv "''/db''" sampleDisk 0 "[]" freshJob 7]
    by (auto simp: addonsOf_def)
qed

end
