(* ===== verification/Load_Types.thy ===== *)
theory Load_Types
  imports Component_Methods
begin

text \<open>
  Type safety of \<^verbatim>\<open>load\<close>: whatever the file of a component holds, the fields that reflection sets keep
  their kinds, integers stay in the range of their size, and nothing but tagged fields changes.
\<close>

section \<open>Fields that fit\<close>

text \<open>The value a field may get: one of its kind, and an integer its size can hold.\<close>

fun valueFits :: "fieldValue \<Rightarrow> fieldValue \<Rightarrow> bool" where
  "valueFits (VBool b) (VBool b') = True"
| "valueFits (VInt n i) (VInt n' i') = (n = n' \<and> (i' = i \<or> - (2 ^ (n - 1)) \<le> i' \<and> i' < 2 ^ (n - 1)))"
| "valueFits (VString s) (VString s') = True"
| "valueFits (VOther s) (VOther s') = (s = s')"
| "valueFits _ _ = False"

definition persisted :: "string \<Rightarrow> string option \<Rightarrow> bool" where
  "persisted ty tag \<longleftrightarrow> ty \<noteq> ''SimpleComponent'' \<and> tag \<in> {Some ''native'', Some ''encrypt''}"

fun fieldsFit :: "gofield list \<Rightarrow> gofield list \<Rightarrow> bool" where
  "fieldsFit [] [] = True"
| "fieldsFit (Field name ty tag exported v # fs) (Field name' ty' tag' exported' v' # fs') =
     (name = name' \<and> ty = ty' \<and> tag = tag' \<and> exported = exported' \<and>
      (if persisted ty tag then valueFits v v' else v = v') \<and> fieldsFit fs fs')"
| "fieldsFit (StructField name ty exported embedded gs # fs) (StructField name' ty' exported' embedded' gs' # fs') =
     (name = name' \<and> ty = ty' \<and> exported = exported' \<and> embedded = embedded' \<and>
      (if ty = ''SimpleComponent'' then gs = gs' else fieldsFit gs gs') \<and> fieldsFit fs fs')"
| "fieldsFit _ _ = False"

lemma valueFits_refl [simp]: "valueFits v v"
  by (cases v) simp_all

lemma fieldsFit_eq: "fs = fs' \<Longrightarrow> fieldsFit fs fs'"
  by (induction fs fs' rule: fieldsFit.induct) auto

lemma fieldsFit_refl [simp]: "fieldsFit fs fs"
  by (simp add: fieldsFit_eq)

lemma setFieldValue_fits: "setFieldValue settable v s = Ret v' \<Longrightarrow> valueFits v v'"
proof (cases v)
  case (VInt n i)
  assume "setFieldValue settable v s = Ret v'"
  then have "v' = VInt n (signed_take_bit (n - 1) (atoi s))" using VInt by (simp add: setFieldValue_def split: if_splits)
  then show ?thesis
    using VInt signed_take_bit_int_greater_eq_minus_exp [of "n - 1" "atoi s"] signed_take_bit_int_less_exp [of "n - 1" "atoi s"]
    by simp
qed (auto simp: setFieldValue_def split: if_splits)

lemma unmarshalField_fits: "unmarshalField E key settable h m name v = Ret v' \<Longrightarrow> valueFits v v'"
  by (auto simp: unmarshalField_def intro: setFieldValue_fits split: option.splits if_splits outcome.splits)

lemma unmarshalToType_fits:
  "fieldsFit fs (fst (unmarshalToType E key sticky h m fs))"
proof (induction E key sticky h m fs rule: unmarshalToType.induct)
  case (2 E key sticky h m name ty tag exported v fs)
  then show ?case by (auto simp: persisted_def Let_def dest: unmarshalField_fits split: outcome.split prod.split)
next
  case (3 E key sticky h m name ty exported embedded gs fs)
  then show ?case by (auto simp: Let_def split: prod.split)
qed simp

text \<open>Fitting is kept along any number of loads.\<close>

lemma valueFits_trans: "valueFits u v \<Longrightarrow> valueFits v w \<Longrightarrow> valueFits u w"
  by (cases u; cases v; cases w) auto

lemma fieldsFit_trans: "fieldsFit fs gs \<Longrightarrow> fieldsFit gs hs \<Longrightarrow> fieldsFit fs hs"
proof (induction fs gs arbitrary: hs rule: fieldsFit.induct)
  case (2 name ty tag exported v fs name' ty' tag' exported' v' fs')
  then show ?case by (cases hs; cases "hd hs") (auto intro: valueFits_trans split: if_splits)
next
  case (3 name ty exported embedded gs fs name' ty' exported' embedded' gs' fs')
  then show ?case by (cases hs; cases "hd hs") (auto split: if_splits)
qed auto

section \<open>Property\<close>

text \<open>
  C11: \<^verbatim>\<open>load\<close> is type safe. Whatever is on the disk, and whatever decryption makes of it, \<^verbatim>\<open>load\<close> changes
  nothing but the fields of its component, and these keep their names, types and tags, the kinds of
  their values, and the range of their integers; fields without a tag keep their values. The same
  holds of the fields it leaves behind when it panics.
\<close>

theorem load_keeps_types:
  "case load E c x w of
     Done err w1 \<Rightarrow> \<exists>fs. w1 = upd x (\<lambda>d. d\<lparr>userFields := fs\<rparr>) w \<and> fieldsFit (userFields (heap w x)) fs
   | Crash w1 \<Rightarrow> \<exists>fs. w1 = upd x (\<lambda>d. d\<lparr>userFields := fs\<rparr>) w \<and> fieldsFit (userFields (heap w x)) fs
   | _ \<Rightarrow> False"
proof -
  have same: "\<exists>fs. w = upd x (\<lambda>d. d\<lparr>userFields := fs\<rparr>) w \<and> fieldsFit (userFields (heap w x)) fs"
    by (intro exI [of _ "userFields (heap w x)"]) (simp add: upd_def)
  have fits: "unmarshalToType E key sticky h m fs = (fs', b) \<Longrightarrow> fieldsFit fs fs'" for key sticky h m fs fs' b
    using unmarshalToType_fits [of fs E key sticky h m] by simp
  show ?thesis
    using same fits by (fastforce simp: load_def Let_def split: option.split outcome.split prod.split)
qed

end
