(* ===== verification/Serving.thy ===== *)
theory Serving
  imports Messages Http_Server
begin

text \<open>
  From \<^verbatim>\<open>Add\<close> to a request: the server of the root container dispatches a request for a URI of a
  component that was added to that component, and what becomes of its routes when it is shut down.
\<close>

section \<open>The routes of one component\<close>

lemma methodURI_own: "methodURI u mth = u \<longleftrightarrow> mth = ''ServeHTTP''"
  by (simp add: methodURI_def)

text \<open>A method no other method of the component differs from in case only.\<close>

definition plainMethod :: "component \<Rightarrow> string \<Rightarrow> bool" where
  "plainMethod d mth \<longleftrightarrow>
     \<not> isNonRestEntity d \<and> mth \<in> set (httpMethods d) \<and>
     (\<forall>other \<in> set (httpMethods d). toLower other = toLower mth \<longrightarrow> other = mth)"

lemma methodURI_plain:
  assumes "plainMethod d mth" and "other \<in> set (httpMethods d)" and "methodURI u other = methodURI u mth"
  shows "other = mth"
  using assms by (auto simp: methodURI_def plainMethod_def split: if_splits)

lemma published_route:
  assumes "plainMethod d mth"
  shows "addHandlers (publishedAs ps x d) tbl (methodURI (componentURI ps (Name d)) mth) = Some (x, mth)"
proof -
  let ?u = "methodURI (componentURI ps (Name d)) mth"
  let ?hs = "handlersOf x (componentURI ps (Name d)) (httpMethods d)"
  have "?u \<in> fst ` set (rev ?hs)" using assms by (force simp: handlersOf_def plainMethod_def)
  then obtain v where v: "map_of (rev ?hs) ?u = Some v"
    by (metis map_of_eq_None_iff not_None_eq)
  then have "(?u, v) \<in> set ?hs" by (metis map_of_SomeD set_rev)
  then obtain m where "v = (x, m)" "m \<in> set (httpMethods d)" "methodURI (componentURI ps (Name d)) m = ?u"
    by (auto simp: handlersOf_def)
  then have "v = (x, mth)" using methodURI_plain [OF assms] by blast
  with v assms show ?thesis
    by (simp add: publishedAs_def plainMethod_def addHandlers_map_of map_add_def)
qed

lemma GetHttpHandler_hit:
  "mapGet (cHandlers (cpart w c)) u = Some h \<Longrightarrow> u \<noteq> '''' \<Longrightarrow> GetHttpHandler w c u = Ret (Some h)"
  by (subst GetHttpHandler_def, subst findHandler.simps) simp

lemma componentURI_not_empty: "methodURI (componentURI ps n) mth \<noteq> ''''"
  by (simp add: methodURI_def componentURI_def)

lemma added_ownHandlers:
  assumes "canAdd E r c x ps w" and "added r c x ps w w1"
  shows "ownHandlers w1 x = publishedAs ps x (heap w x)"
proof -
  have "reaches Started ((heap w x)\<lparr>container := Some c\<rparr>) (heap w1 x)"
    using assms(2) by (simp add: added_def)
  then show ?thesis
    using added_paths [OF assms] by (simp add: ownHandlers_def publishedAs_def reaches_def)
qed

section \<open>Properties\<close>

text \<open>
  C27: a component that was added answers requests. A request for the URI of one of its exported
  handlers reaches that handler of that component, with a trace identifier in the request and in the
  headers of the response; the URI of the component itself, unless its type has a \<^verbatim>\<open>ServeHTTP\<close> of its
  own, gives status 200, its JSON form as it is now, and its ETag, and changes nothing.
\<close>

theorem added_component_answers:
  assumes "canAdd E r c x ps w" and "initsCleanly E (heap w x)" and "plainMethod (heap w x) mth"
    and "path req = methodURI (componentURI ps (Name (heap w x))) mth"
  shows "\<exists>w1. Add E (containerStop E n) c (Some x) w = Done None w1 \<and>
    (let traceID = traceIdFor fresh (reqHeaders req); hs = [''Traceid'' \<mapsto> traceID];
         reached = callHandler E H (x, mth) (req\<lparr>traceValue := Some traceID\<rparr>) hs w1
     in httpHandlerFunc E H fresh (Some r) req w1 = Ret reached \<and>
        (mth = ''ServeHTTP'' \<longrightarrow> \<not> overridesServeHTTP H (gotype (heap w x)) \<longrightarrow>
         reached = (\<lparr>status = 200,
           respHeaders = hs(''Content-Type'' \<mapsto> ''application/json'', ''Etag'' \<mapsto> Etag (heap w1 x)),
           respBody = (case marshalIndent H (viewOf (heap w1 x)) of None \<Rightarrow> undefinedBody | Some t \<Rightarrow> t)\<rparr>, w1)))"
proof -
  obtain w1 where w1: "Add E (containerStop E n) c (Some x) w = Done None w1" "added r c x ps w w1"
    using Add_child [OF assms(1,2)] by blast
  let ?t = "traceIdFor fresh (reqHeaders req)"
  have canon: "canonicalHeader ''traceId'' = ''Traceid''" "canonicalHeader ''ETag'' = ''Etag''"
    "canonicalHeader ''Content-Type'' = ''Content-Type''"
    by code_simp+
  have "mapGet (cHandlers (cpart w1 r)) (path req) = Some (x, mth)"
    using w1(2) published_route [OF assms(3)] unfolding added_def assms(4) by simp
  then have "GetHttpHandler w1 r (path req) = Ret (Some (x, mth))"
    by (rule GetHttpHandler_hit) (simp add: assms(4) componentURI_not_empty)
  then have f: "httpHandlerFunc E H fresh (Some r) req w1 =
      Ret (callHandler E H (x, mth) (req\<lparr>traceValue := Some ?t\<rparr>) [''Traceid'' \<mapsto> ?t] w1)"
    by (simp add: httpHandlerFunc_def traceMiddleware_def headerSet_def canon Let_def)
  have d: "reaches Started ((heap w x)\<lparr>container := Some c\<rparr>) (heap w1 x)"
    and u: "publishesItself (heap w x) \<Longrightarrow> uri (heap w1 x) = componentURI ps (Name (heap w x))"
    and get: "mapGet (cComponents (cpart w1 c)) (Name (heap w x)) = Some \<lparr>cName = Name (heap w x), ccomp = Some x\<rparr>"
    using w1(2) unfolding added_def by simp_all
  have "callHandler E H (x, mth) (req\<lparr>traceValue := Some ?t\<rparr>) [''Traceid'' \<mapsto> ?t] w1 =
      (\<lparr>status = 200,
         respHeaders = [''Traceid'' \<mapsto> ?t, ''Content-Type'' \<mapsto> ''application/json'', ''Etag'' \<mapsto> Etag (heap w1 x)],
         respBody = (case marshalIndent H (viewOf (heap w1 x)) of None \<Rightarrow> undefinedBody | Some t \<Rightarrow> t)\<rparr>, w1)"
    if m: "mth = ''ServeHTTP''" and o: "\<not> overridesServeHTTP H (gotype (heap w x))"
  proof -
    have "publishesItself (heap w x)" using assms(3) m by (simp add: publishesItself_def plainMethod_def)
    then have "path req = uri (heap w1 x)" using u assms(4) m by (simp add: methodURI_def)
    moreover have "GetComponent w1 c (Name (heap w1 x)) = Inr x"
      using d get by (simp add: GetComponent_def reaches_def)
    moreover have "container (heap w1 x) = Some c" "gotype (heap w1 x) = gotype (heap w x)"
      using d by (simp_all add: reaches_def)
    ultimately show ?thesis
      using m o by (simp add: callHandler_def ServeHTTP_def MarshallToHttpResponseWriter_def headerSet_def canon
          viewOf_def Let_def)
  qed
  then show ?thesis using w1(1) f by (intro exI [of _ w1]) (simp add: Let_def)
qed

theorem added_component_answers_witness:
  "\<exists>w1 resp. Add plainEnv (containerStop plainEnv 3) 0 (Some 5) sampleTree = Done None w1 \<and>
    httpHandlerFunc plainEnv \<lparr>marshalIndent = (\<lambda>s. Some (sName s)), overridesServeHTTP = (\<lambda>t. False),
        userMethod = (\<lambda>x m r h w. (notFound h, w))\<rparr> ''t1'' (Some 0)
      \<lparr>path = ''/root/job'', reqHeaders = Map.empty, traceValue = None\<rparr> w1 = Ret (resp, w1) \<and>
    status resp = 200"
proof -
  have "plainMethod (heap sampleTree 5) ''ServeHTTP''"
    unfolding plainMethod_def by (simp, code_simp)
  moreover have "''/root/job'' = methodURI (componentURI [''root''] (Name (heap sampleTree 5))) ''ServeHTTP''"
    by (simp add: methodURI_def) code_simp
  moreover have "initsCleanly plainEnv (heap sampleTree 5)" by (simp add: initsCleanly_def)
  ultimately show ?thesis
    using added_component_answers [OF canAdd_sample, of plainEnv "''ServeHTTP''"
      "\<lparr>path = ''/root/job'', reqHeaders = Map.empty, traceValue = None\<rparr>" 3 "''t1''"
      "\<lparr>marshalIndent = (\<lambda>s. Some (sName s)), overridesServeHTTP = (\<lambda>t. False),
        userMethod = (\<lambda>x m r h w. (notFound h, w))\<rparr>"]
    by (fastforce simp: Let_def)
qed

text \<open>
  C28: what a \<^verbatim>\<open>Shutdown\<close> of the component leaves of its routes. In the root container they are gone, and
  every other route is as it was. In any other container they all stay: a request still runs the
  component's own handler, although the component has been torn down.
\<close>

theorem routes_after_shutdown:
  assumes "canAdd E r c x ps w" and "initsCleanly E (heap w x)" and "stopsCleanly E (heap w x)"
    and "mmuxServer x (tasks w) = None" and "plainMethod (heap w x) mth"
    and "path req = methodURI (componentURI ps (Name (heap w x))) mth"
  shows "\<exists>w1 w2. Add E (containerStop E n) c (Some x) w = Done None w1 \<and>
    SendSyncMessage E (containerStop E n) x ControlMsgType (controlLookup Shutdown) w1 = Done None w2 \<and>
    Stage (heap w2 x) = Teareddown \<and>
    (c = r \<longrightarrow> (\<forall>u. mapGet (cHandlers (cpart w2 r)) u =
       (if u \<in> (\<lambda>m. methodURI (componentURI ps (Name (heap w x))) m) ` set (httpMethods (heap w x)) then None
        else mapGet (cHandlers (cpart w r)) u))) \<and>
    (c \<noteq> r \<longrightarrow> (let traceID = traceIdFor fresh (reqHeaders req)
       in httpHandlerFunc E H fresh (Some r) req w2 =
            Ret (callHandler E H (x, mth) (req\<lparr>traceValue := Some traceID\<rparr>) [''Traceid'' \<mapsto> traceID] w2)))"
proof -
  obtain w1 where w1: "Add E (containerStop E n) c (Some x) w = Done None w1" "added r c x ps w w1"
    using Add_child [OF assms(1,2)] by blast
  let ?hs = "publishedAs ps x (heap w x)"
  have own: "ownHandlers w1 x = ?hs" using added_ownHandlers [OF assms(1) w1(2)] .
  have xc: "x \<noteq> c" and xr: "x \<noteq> r" using assms(1) by (simp_all add: canAdd_def)
  have c1: "asContainer (heap w1 c) \<noteq> None" using w1(2) by (simp add: added_def)
  have tbl: "mapGet (cHandlers (cpart w1 r)) u = addHandlers ?hs (mapGet (cHandlers (cpart w r))) u" for u
    using w1(2) unfolding added_def by simp
  obtain F where send: "SendSyncMessage E (containerStop E n) x ControlMsgType (controlLookup Shutdown) w1 =
      Done None (endMmux c x
        ((updPart c (\<lambda>k. removeName (Name (heap w1 x))
             (k\<lparr>cHandlers := map_option (dropHandlers ?hs) (cHandlers k)\<rparr>)) (upd x F w1))
           \<lparr>tornDown := tornDown w1 @ [x]\<rparr>))" and g: "gone (heap w1 x) (F (heap w1 x))"
    using shutdown_started [OF added_runningChild [OF assms(1) w1(2) assms(3,4)]] unfolding own by blast
  define w2 where "w2 = endMmux c x
        ((updPart c (\<lambda>k. removeName (Name (heap w1 x))
             (k\<lparr>cHandlers := map_option (dropHandlers ?hs) (cHandlers k)\<rparr>)) (upd x F w1))
           \<lparr>tornDown := tornDown w1 @ [x]\<rparr>)"
  have st: "Stage (heap w2 x) = Teareddown" using g xc by (simp add: w2_def gone_def)
  have handlers2: "cHandlers (cpart w2 r) =
      (if r = c then map_option (dropHandlers ?hs) (cHandlers (cpart w1 r)) else cHandlers (cpart w1 r))"
    using c1 xc xr by (auto simp: w2_def cpart_def removeName_def Let_def split: option.split)
  have 1: "mapGet (cHandlers (cpart w2 r)) u =
       (if u \<in> (\<lambda>m. methodURI (componentURI ps (Name (heap w x))) m) ` set (httpMethods (heap w x)) then None
        else mapGet (cHandlers (cpart w r)) u)" if "c = r" for u
  proof -
    have keys: "fst ` set ?hs = (\<lambda>m. methodURI (componentURI ps (Name (heap w x))) m) ` set (httpMethods (heap w x))"
      using assms(5) by (force simp: publishedAs_def plainMethod_def handlersOf_def)
    have "mapGet (cHandlers (cpart w2 r)) u = (if u \<in> fst ` set ?hs then None else mapGet (cHandlers (cpart w1 r)) u)"
      using that by (simp add: handlers2 mapGet_def dropHandlers_apply split: option.split)
    moreover have "addHandlers ?hs t u = t u" if "u \<notin> fst ` set ?hs" for t :: "string \<Rightarrow> (cid \<times> string) option"
      using that by (simp add: addHandlers_map_of map_add_def map_of_eq_None_iff split: option.split)
        (metis (no_types, lifting) image_eqI map_of_SomeD set_rev fst_conv)
    ultimately show ?thesis unfolding keys [symmetric] tbl by simp
  qed
  have 2: "httpHandlerFunc E H fresh (Some r) req w2 =
      Ret (callHandler E H (x, mth) (req\<lparr>traceValue := Some (traceIdFor fresh (reqHeaders req))\<rparr>)
             [''Traceid'' \<mapsto> traceIdFor fresh (reqHeaders req)] w2)" if "c \<noteq> r"
  proof -
    have canon: "canonicalHeader ''traceId'' = ''Traceid''" by code_simp
    have "mapGet (cHandlers (cpart w2 r)) (path req) = Some (x, mth)"
      using published_route [OF assms(5)] that unfolding assms(6) by (simp add: handlers2 tbl)
    then have "GetHttpHandler w2 r (path req) = Ret (Some (x, mth))"
      by (rule GetHttpHandler_hit) (simp add: assms(6) componentURI_not_empty)
    then show ?thesis by (simp add: httpHandlerFunc_def traceMiddleware_def headerSet_def canon Let_def)
  qed
  show ?thesis
    using w1(1) send st 1 2 unfolding w2_def [symmetric] Let_def
    by (intro exI [of _ w1] exI [of _ w2]) blast
qed

text \<open>An application next to the root container, to which a job is added.\<close>

definition sampleApps :: world where
  "sampleApps = sampleTree\<lparr>heap := (heap sampleTree)(2 := busyRoot\<lparr>self := 2, Name := ''app'', gotype := AppT\<rparr>)\<rparr>"

lemma sampleApps_sel [simp]:
  "heap sampleApps 0 = busyRoot" "heap sampleApps 2 = busyRoot\<lparr>self := 2, Name := ''app'', gotype := AppT\<rparr>"
  "heap sampleApps 5 = freshJob 5" "rootContainer sampleApps = Some 0" "tasks sampleApps = [MmuxTask 0 0]"
  "addons sampleApps = []"
  by (simp_all add: sampleApps_def)

lemma canAdd_app: "canAdd E 0 2 5 [''app''] sampleApps"
proof -
  have p: "containerPaths (upd 5 (setContainer 2) sampleApps) (Some 2) [] = Some [''app'']"
    by (subst containerPaths.simps, subst containerPaths.simps) (simp, code_simp)
  have v: "validateName sampleApps (Some 5) = None"
    by (simp add: validateName_def) code_simp
  show ?thesis using p v
    by (simp add: canAdd_def cpart_def emptyPart_def persistOff_def)
qed

theorem routes_after_shutdown_witness:
  "\<exists>w1 w2. Add plainEnv (containerStop plainEnv 3) 2 (Some 5) sampleApps = Done None w1 \<and>
    SendSyncMessage plainEnv (containerStop plainEnv 3) 5 ControlMsgType (controlLookup Shutdown) w1 = Done None w2 \<and>
    Stage (heap w2 5) = Teareddown \<and>
    httpHandlerFunc plainEnv \<lparr>marshalIndent = (\<lambda>s. None), overridesServeHTTP = (\<lambda>t. False),
        userMethod = (\<lambda>x m r h w. (\<lparr>status = 200, respHeaders = h, respBody = m\<rparr>, w))\<rparr> ''t1'' (Some 0)
      \<lparr>path = ''/app/job/reload'', reqHeaders = Map.empty, traceValue = None\<rparr> w2 =
      Ret (\<lparr>status = 200, respHeaders = [''Traceid'' \<mapsto> ''t1''], respBody = ''Reload''\<rparr>, w2)"
proof -
  let ?req = "\<lparr>path = ''/app/job/reload'', reqHeaders = Map.empty, traceValue = None\<rparr>"
  have m: "plainMethod (heap sampleApps 5) ''Reload''"
    unfolding plainMethod_def by (simp, code_simp)
  have u: "''/app/job/reload'' = methodURI (componentURI [''app''] (Name (heap sampleApps 5))) ''Reload''"
    by (simp add: methodURI_def) code_simp
  have i: "initsCleanly plainEnv (heap sampleApps 5)" "stopsCleanly plainEnv (heap sampleApps 5)"
    by (simp_all add: initsCleanly_def stopsCleanly_def)
  have t: "traceIdFor ''t1'' Map.empty = ''t1''" by (simp add: traceIdFor_def headerGet_def Let_def)
  have "mmuxServer 5 (tasks sampleApps) = None" by simp
  from routes_after_shutdown [OF canAdd_app i this m, of ?req 3 "''t1''" "\<lparr>marshalIndent = (\<lambda>s. None), overridesServeHTTP = (\<lambda>t. False),
        userMethod = (\<lambda>x m r h w. (\<lparr>status = 200, respHeaders = h, respBody = m\<rparr>, w))\<rparr>"] u
  show ?thesis by (auto simp: Let_def callHandler_def t)
qed

end
