(* ===== verification/Activation_Queue.thy ===== *)
theory Activation_Queue
  imports Lifecycle
begin

text \<open>
  \<^verbatim>\<open>Container.Add\<close> as it runs when several goroutines call it. The first caller makes the queue and the
  notification channel and starts the activation goroutine; every caller sends its component into the
  queue and receives one error from the notification channel. Here each access to a shared variable
  and each channel operation is a step of its own; \<open>addComponent\<close> is the same code run alone.
\<close>

section \<open>State\<close>

text \<open>
  Where a caller is in \<^verbatim>\<open>Add\<close>, and where an activation goroutine is in its loop. A channel is named
  after the caller that makes it; \<^verbatim>\<open>nil\<close> is \<open>None\<close>. A sender or receiver holds the channel it has
  evaluated.
\<close>

datatype callerPc =
    NotCalled | Checking | MakingQueue | MakingNotify | Spawning | Evaluating
  | Sending "nat option" | Receiving | Waiting "nat option" | Testing | Returned "kerror option"

datatype workerStage = AtRange | ToInit cid | ToEnter cid | ToStart cid | Report "kerror option"

datatype workerPc = NoWorker | Spawned "nat option" | Running "nat option" "nat option" workerStage

text \<open>
  \<open>queueVar\<close> and \<open>notifyVar\<close> are the two fields of the container, \<open>buffer\<close> the content of a queue of
  capacity one, \<open>errVar\<close> the variable \<^verbatim>\<open>err\<close> of a call of \<^verbatim>\<open>Add\<close>, which the goroutine it starts also
  writes. \<open>queued\<close> and \<open>taken\<close> are histories of what was sent to a queue and what was read from one.
\<close>

record queueState =
  process :: world
  queueVar :: "nat option"
  notifyVar :: "nat option"
  buffer :: "nat \<Rightarrow> cid option"
  caller :: "nat \<Rightarrow> callerPc"
  worker :: "nat \<Rightarrow> workerPc"
  errVar :: "nat \<Rightarrow> kerror option"
  queued :: "cid list"
  taken :: "cid list"

definition queueInit :: "world \<Rightarrow> queueState" where
  "queueInit w =
     \<lparr>process = w, queueVar = None, notifyVar = None, buffer = (\<lambda>_. None), caller = (\<lambda>_. NotCalled),
      worker = (\<lambda>_. NoWorker), errVar = (\<lambda>_. None), queued = [], taken = []\<rparr>"

definition setCaller :: "nat \<Rightarrow> callerPc \<Rightarrow> queueState \<Rightarrow> queueState" where
  "setCaller i pc s = s\<lparr>caller := (caller s)(i := pc)\<rparr>"

definition setWorker :: "nat \<Rightarrow> workerPc \<Rightarrow> queueState \<Rightarrow> queueState" where
  "setWorker j pc s = s\<lparr>worker := (worker s)(j := pc)\<rparr>"

lemma setCaller_sel [simp]:
  "process (setCaller i pc s) = process s" "queueVar (setCaller i pc s) = queueVar s"
  "notifyVar (setCaller i pc s) = notifyVar s" "buffer (setCaller i pc s) = buffer s"
  "caller (setCaller i pc s) = (caller s)(i := pc)" "worker (setCaller i pc s) = worker s"
  "errVar (setCaller i pc s) = errVar s" "queued (setCaller i pc s) = queued s" "taken (setCaller i pc s) = taken s"
  by (simp_all add: setCaller_def)

lemma setWorker_sel [simp]:
  "process (setWorker i pc s) = process s" "queueVar (setWorker i pc s) = queueVar s"
  "notifyVar (setWorker i pc s) = notifyVar s" "buffer (setWorker i pc s) = buffer s"
  "worker (setWorker i pc s) = (worker s)(i := pc)" "caller (setWorker i pc s) = caller s"
  "errVar (setWorker i pc s) = errVar s" "queued (setWorker i pc s) = queued s" "taken (setWorker i pc s) = taken s"
  by (simp_all add: setWorker_def)

lemma queueInit_sel [simp]:
  "process (queueInit w) = w" "queueVar (queueInit w) = None" "notifyVar (queueInit w) = None"
  "buffer (queueInit w) = (\<lambda>_. None)" "caller (queueInit w) = (\<lambda>_. NotCalled)" "worker (queueInit w) = (\<lambda>_. NoWorker)"
  "queued (queueInit w) = []" "taken (queueInit w) = []"
  by (simp_all add: queueInit_def)

section \<open>Steps\<close>

text \<open>The checks before the queue.\<close>

definition checkName :: "world \<Rightarrow> cid \<Rightarrow> cid option \<Rightarrow> callerPc" where
  "checkName w c arg =
     (case validateName w arg of
        Some err \<Rightarrow> Returned (Some err)
      | None \<Rightarrow>
          if \<not> Matches c (the arg) \<and> Name (heap w (the arg)) = Name (heap w c)
          then Returned (Some SameNameAsContainer) else Checking)"

text \<open>One step of a caller, if it can make one. A channel operation on \<^verbatim>\<open>nil\<close> never can.\<close>

definition callerMove :: "cid \<Rightarrow> cid option \<Rightarrow> nat \<Rightarrow> queueState \<Rightarrow> queueState option" where
  "callerMove c arg i s =
     (case caller s i of
        NotCalled \<Rightarrow> Some (setCaller i (checkName (process s) c arg) s)
      | Checking \<Rightarrow>
          Some (setCaller i (if queueVar s = None \<and> Stage (heap (process s) c) < Stopping
                             then MakingQueue else Evaluating) s)
      | MakingQueue \<Rightarrow>
          Some (setCaller i MakingNotify
                  (s\<lparr>queueVar := Some i, process := updPart c (\<lambda>k. k\<lparr>compActivationQueue := True\<rparr>) (process s)\<rparr>))
      | MakingNotify \<Rightarrow> Some (setCaller i Spawning (s\<lparr>notifyVar := Some i\<rparr>))
      | Spawning \<Rightarrow> Some (setCaller i Evaluating (setWorker i (Spawned (notifyVar s)) s))
      | Evaluating \<Rightarrow> Some (setCaller i (Sending (queueVar s)) s)
      | Sending (Some q) \<Rightarrow>
          if buffer s q \<noteq> None then None
          else Some (setCaller i Receiving
                       (s\<lparr>buffer := (buffer s)(q := Some (the arg)), queued := queued s @ [the arg]\<rparr>))
      | Receiving \<Rightarrow> Some (setCaller i (Waiting (notifyVar s)) s)
      | Testing \<Rightarrow> Some (setCaller i (Returned (errVar s i)) s)
      | _ \<Rightarrow> None)"

text \<open>
  One step of an activation: the point it goes on from and the value it gives \<^verbatim>\<open>err\<close>. The error of a
  taken name is another variable of that name.
\<close>

definition activationStep ::
    "env \<Rightarrow> (cid \<Rightarrow> world \<Rightarrow> kerror option run) \<Rightarrow> cid \<Rightarrow> workerStage \<Rightarrow> world \<Rightarrow> (workerStage \<times> kerror option) run" where
  "activationStep E stopContainer c p w =
     (case p of
        ToInit x \<Rightarrow>
          runBind (componentLifecycleFSM E stopContainer c background x w) (\<lambda>err w1.
            Done (if err \<noteq> None then Report err else ToEnter x, err) w1)
      | ToEnter x \<Rightarrow>
          runBind (toCanonical c x w) (\<lambda>cComm w1.
            (let (k, present) = enterComponent (Name (heap w1 x)) cComm (cpart w1 c)
             in if present \<noteq> None then Done (Report present, None) w1
                else if cComponents (cpart w1 c) = None then Crash w1
                else Done (ToStart x, None) (updPart c (\<lambda>_. k) w1)))
      | ToStart x \<Rightarrow>
          runBind (componentLifecycleFSM E stopContainer c background x w) (\<lambda>err w1.
            Done (Report err, err)
              (if err = None \<and> rootContainer w1 = Some c then registerAddon c x w1 else w1))
      | _ \<Rightarrow> Stuck)"

text \<open>
  One step of the activation goroutine started by caller \<open>j\<close>. The range expression is evaluated when
  the goroutine starts to run.
\<close>

definition workerMove ::
    "env \<Rightarrow> (cid \<Rightarrow> world \<Rightarrow> kerror option run) \<Rightarrow> cid \<Rightarrow> nat \<Rightarrow> queueState \<Rightarrow> queueState option" where
  "workerMove E stopContainer c j s =
     (case worker s j of
        NoWorker \<Rightarrow> None
      | Spawned n \<Rightarrow> Some (setWorker j (Running n (queueVar s) AtRange) s)
      | Running n q p \<Rightarrow>
          if p = AtRange
          then (case q of
                  None \<Rightarrow> None
                | Some ch \<Rightarrow>
                    map_option (\<lambda>x. setWorker j (Running n q (ToInit x))
                                      (s\<lparr>buffer := (buffer s)(ch := None), taken := taken s @ [x]\<rparr>))
                      (buffer s ch))
          else (case activationStep E stopContainer c p (process s) of
                  Done (p1, err) w \<Rightarrow>
                    Some (setWorker j (Running n q p1) (s\<lparr>process := w, errVar := (errVar s)(j := err)\<rparr>))
                | _ \<Rightarrow> None))"

text \<open>
  A step of the system: a caller, a goroutine, or both when the error is handed over on the
  unbuffered notification channel, to any of the callers that wait for one.
\<close>

inductive queueStep ::
    "env \<Rightarrow> (cid \<Rightarrow> world \<Rightarrow> kerror option run) \<Rightarrow> cid \<Rightarrow> (nat \<rightharpoonup> cid option) \<Rightarrow> queueState \<Rightarrow> queueState \<Rightarrow> bool"
  for E stopContainer c calls where
  call: "calls i = Some arg \<Longrightarrow> callerMove c arg i s = Some s1 \<Longrightarrow> queueStep E stopContainer c calls s s1"
| work: "workerMove E stopContainer c j s = Some s1 \<Longrightarrow> queueStep E stopContainer c calls s s1"
| handOver: "worker s j = Running (Some n) q (Report err) \<Longrightarrow> caller s i = Waiting (Some n) \<Longrightarrow>
    queueStep E stopContainer c calls s
      (setCaller i Testing (setWorker j (Running (Some n) q AtRange) (s\<lparr>errVar := (errVar s)(i := err)\<rparr>)))"

definition queueSteps ::
    "env \<Rightarrow> (cid \<Rightarrow> world \<Rightarrow> kerror option run) \<Rightarrow> cid \<Rightarrow> (nat \<rightharpoonup> cid option) \<Rightarrow> queueState \<Rightarrow> queueState \<Rightarrow> bool" where
  "queueSteps E stopContainer c calls = (queueStep E stopContainer c calls)\<^sup>*\<^sup>*"

text \<open>A schedule: who moves, move by move.\<close>

datatype move = Call nat | Work nat | Hand nat nat

definition perform ::
    "env \<Rightarrow> (cid \<Rightarrow> world \<Rightarrow> kerror option run) \<Rightarrow> cid \<Rightarrow> (nat \<rightharpoonup> cid option) \<Rightarrow> move \<Rightarrow> queueState \<Rightarrow> queueState option" where
  "perform E stopContainer c calls m s =
     (case m of
        Call i \<Rightarrow> (case calls i of None \<Rightarrow> None | Some arg \<Rightarrow> callerMove c arg i s)
      | Work j \<Rightarrow> workerMove E stopContainer c j s
      | Hand j i \<Rightarrow>
          (case worker s j of
             Running n q (Report err) \<Rightarrow>
               if n \<noteq> None \<and> caller s i = Waiting n
               then Some (setCaller i Testing (setWorker j (Running n q AtRange) (s\<lparr>errVar := (errVar s)(i := err)\<rparr>)))
               else None
           | _ \<Rightarrow> None))"

fun performs ::
    "env \<Rightarrow> (cid \<Rightarrow> world \<Rightarrow> kerror option run) \<Rightarrow> cid \<Rightarrow> (nat \<rightharpoonup> cid option) \<Rightarrow> move list \<Rightarrow> queueState \<Rightarrow> queueState option" where
  "performs E stopContainer c calls [] s = Some s"
| "performs E stopContainer c calls (m # ms) s =
     Option.bind (perform E stopContainer c calls m s) (performs E stopContainer c calls ms)"

lemma perform_step: "perform E halt c calls m s = Some s1 \<Longrightarrow> queueStep E halt c calls s s1"
  by (auto simp: perform_def intro: queueStep.intros
      split: move.splits option.splits workerPc.splits workerStage.splits if_splits)

lemma performs_steps: "performs E halt c calls ms s = Some s1 \<Longrightarrow> (queueStep E halt c calls ^^ length ms) s s1"
  by (induction ms arbitrary: s)
    (auto simp: Option.bind_eq_Some_conv simp del: relpowp.simps(2) intro: relpowp_Suc_I2 perform_step)

lemma performs_queueSteps: "performs E halt c calls ms s = Some s1 \<Longrightarrow> queueSteps E halt c calls s s1"
  unfolding queueSteps_def by (rule relpowp_imp_rtranclp [OF performs_steps])

section \<open>An activation, step by step\<close>

text \<open>What is left of an activation, from each point of the goroutine's loop.\<close>

definition remaining ::
    "env \<Rightarrow> (cid \<Rightarrow> world \<Rightarrow> kerror option run) \<Rightarrow> cid \<Rightarrow> workerStage \<Rightarrow> world \<Rightarrow> kerror option run" where
  "remaining E stopContainer c p w =
     (let start = (\<lambda>x w. runBind (componentLifecycleFSM E stopContainer c background x w) (\<lambda>err w1.
                     if err \<noteq> None then Done err w1
                     else Done None (if rootContainer w1 = Some c then registerAddon c x w1 else w1)));
          enter = (\<lambda>x w. runBind (toCanonical c x w) (\<lambda>cComm w1.
                     (let (k, present) = enterComponent (Name (heap w1 x)) cComm (cpart w1 c)
                      in if present \<noteq> None then Done present w1
                         else if cComponents (cpart w1 c) = None then Crash w1
                         else start x (updPart c (\<lambda>_. k) w1))))
      in case p of
           AtRange \<Rightarrow> Stuck
         | ToInit x \<Rightarrow> activateComponent E stopContainer c x w
         | ToEnter x \<Rightarrow> enter x w
         | ToStart x \<Rightarrow> start x w
         | Report err \<Rightarrow> Done err w)"

lemma remaining_step:
  assumes "\<forall>e. p \<noteq> Report e"
  shows "remaining E halt c p w = runBind (activationStep E halt c p w) (\<lambda>(p1, e) w1. remaining E halt c p1 w1)"
  using assms
proof (cases p)
  case (ToInit x)
  then show ?thesis
    by (cases "componentLifecycleFSM E halt c background x w")
      (simp_all add: remaining_def activationStep_def activateComponent_def Let_def del: not_None_eq)
next
  case (ToEnter x)
  then show ?thesis
    by (cases "toCanonical c x w") (auto simp: remaining_def activationStep_def Let_def split: prod.split)
next
  case (ToStart x)
  then show ?thesis
    by (cases "componentLifecycleFSM E halt c background x w") (auto simp: remaining_def activationStep_def Let_def)
qed (simp_all add: remaining_def activationStep_def)

lemma remaining_ends [simp]:
  "remaining E halt c AtRange w = Stuck" "remaining E halt c (Report e) w = Done e w"
  "remaining E halt c (ToInit x) w = activateComponent E halt c x w"
  by (simp_all add: remaining_def)

lemma activationStep_ends [simp]:
  "activationStep E halt c AtRange w = Stuck" "activationStep E halt c (Report e) w = Stuck"
  by (simp_all add: activationStep_def)

text \<open>How many steps an activation has left, at most.\<close>

fun stageRank :: "workerStage \<Rightarrow> nat" where
  "stageRank AtRange = 0"
| "stageRank (ToInit x) = 3"
| "stageRank (ToEnter x) = 2"
| "stageRank (ToStart x) = 1"
| "stageRank (Report e) = 0"

lemma activationStep_leaves:
  "activationStep E halt c p w = Done (p1, e) w1 \<Longrightarrow> p1 \<noteq> AtRange \<and> stageRank p1 < stageRank p"
  by (cases p) (auto simp: activationStep_def Let_def case_prod_beta split: if_splits)

lemma workerMove_simps [simp]:
  "worker s j = NoWorker \<Longrightarrow> workerMove E halt c j s = None"
  "worker s j = Spawned n \<Longrightarrow> workerMove E halt c j s = Some (setWorker j (Running n (queueVar s) AtRange) s)"
  "worker s j = Running n q (Report e) \<Longrightarrow> workerMove E halt c j s = None"
  "worker s j = Running n (Some ch) AtRange \<Longrightarrow> workerMove E halt c j s =
     map_option (\<lambda>x. setWorker j (Running n (Some ch) (ToInit x))
        (s\<lparr>buffer := (buffer s)(ch := None), taken := taken s @ [x]\<rparr>)) (buffer s ch)"
  by (simp_all add: workerMove_def)

text \<open>In the middle of an activation a goroutine touches the process and its variable \<^verbatim>\<open>err\<close> only.\<close>

lemma workerMove_activation:
  assumes "worker s j = Running n q p" and "p \<noteq> AtRange" and "workerMove E halt c j s = Some s1"
  obtains p1 e w1 where "s1 = setWorker j (Running n q p1) (s\<lparr>process := w1, errVar := (errVar s)(j := e)\<rparr>)"
    and "p1 \<noteq> AtRange" and "stageRank p1 < stageRank p" and "remaining E halt c p (process s) = remaining E halt c p1 w1"
proof -
  have "\<forall>e. p \<noteq> Report e" using assms by auto
  moreover obtain p1 e w1 where s: "activationStep E halt c p (process s) = Done (p1, e) w1"
    "s1 = setWorker j (Running n q p1) (s\<lparr>process := w1, errVar := (errVar s)(j := e)\<rparr>)"
    using assms by (auto simp: workerMove_def split: run.splits prod.splits)
  ultimately show thesis
    using that [OF s(2)] activationStep_leaves [OF s(1)] remaining_step [of p E halt c "process s"] s(1) by simp
qed

lemma workerMove_stuck:
  assumes "worker s j = Running n q p" and "p \<noteq> AtRange" and "workerMove E halt c j s = None"
  obtains e where "p = Report e" | "\<forall>e w. remaining E halt c p (process s) \<noteq> Done e w"
proof (cases "\<exists>e. p = Report e")
  case False
  have "\<forall>p1 e w1. activationStep E halt c p (process s) \<noteq> Done (p1, e) w1"
    using assms by (auto simp: workerMove_def)
  then have "\<forall>e w. remaining E halt c p (process s) \<noteq> Done e w"
    using remaining_step [of p E halt c "process s"] False by auto
  then show thesis using that by blast
qed (use that in blast)

end
