(* ===== verification/Concurrent_Add.thy ===== *)
theory Concurrent_Add
  imports Activation_Queue Activation
begin

text \<open>
  What \<^verbatim>\<open>Add\<close> guarantees when goroutines call it at the same time: alone it is \<open>addComponent\<close>; once the
  queue is there, components are activated one at a time in the order they were queued, and every call
  returns; but a reply may go to another caller than the one it is for, and two first calls may leave
  one of them waiting for ever.
\<close>

section \<open>One caller\<close>

definition opened :: "cid \<Rightarrow> world \<Rightarrow> world" where
  "opened c w = updPart c (\<lambda>k. k\<lparr>compActivationQueue := True\<rparr>) w"

lemma addComponent_unchecked: "checkName w c arg = Returned e \<Longrightarrow> addComponent E halt c arg w = Done e w"
  by (cases "validateName w arg") (auto simp: checkName_def addComponent_def split: if_split_asm)

lemma addComponent_checked:
  assumes "checkName w c arg = Checking" and "asContainer (heap w c) \<noteq> None" and "\<not> compActivationQueue (cpart w c)"
  shows "addComponent E halt c arg w =
    (if Stage (heap w c) < Stopping then activateComponent E halt c (the arg) (opened c w) else Stuck)"
  using assms by (cases "validateName w arg") (auto simp: checkName_def addComponent_def Let_def opened_def split: if_split_asm)

lemma checkName_cases: obtains e where "checkName w c arg = Returned e" | "checkName w c arg = Checking"
proof -
  have "(\<exists>e. checkName w c arg = Returned e) \<or> checkName w c arg = Checking"
    by (cases "validateName w arg") (simp_all add: checkName_def)
  then show thesis using that by blast
qed

text \<open>
  The states of a run in which \<open>i\<close> is the only caller: the goroutine it has started waits for a
  component, or activates the one it was sent.
\<close>

definition idleAt :: "nat \<Rightarrow> queueState \<Rightarrow> bool" where
  "idleAt i s \<longleftrightarrow> buffer s i = None \<and> worker s i \<in> {Spawned (Some i), Running (Some i) (Some i) AtRange}"

definition busyAt ::
    "env \<Rightarrow> (cid \<Rightarrow> world \<Rightarrow> kerror option run) \<Rightarrow> cid \<Rightarrow> nat \<Rightarrow> cid \<Rightarrow> world \<Rightarrow> queueState \<Rightarrow> bool" where
  "busyAt E halt c i x w s \<longleftrightarrow>
     (buffer s i = Some x \<and> process s = w \<and> worker s i \<in> {Spawned (Some i), Running (Some i) (Some i) AtRange}) \<or>
     (buffer s i = None \<and> (\<exists>p. worker s i = Running (Some i) (Some i) p \<and> p \<noteq> AtRange \<and>
        remaining E halt c p (process s) = activateComponent E halt c x w))"

definition alone ::
    "env \<Rightarrow> (cid \<Rightarrow> world \<Rightarrow> kerror option run) \<Rightarrow> cid \<Rightarrow> nat \<Rightarrow> cid option \<Rightarrow> world \<Rightarrow> queueState \<Rightarrow> bool" where
  "alone E halt c i arg w s \<longleftrightarrow>
     (\<forall>j. j \<noteq> i \<longrightarrow> worker s j = NoWorker \<and> caller s j = NotCalled) \<and>
     (let unmade = (queueVar s = None \<and> worker s i = NoWorker \<and> process s = w);
          opens = (checkName w c arg = Checking \<and> Stage (heap w c) < Stopping);
          made = (opens \<and> queueVar s = Some i \<and> notifyVar s = Some i \<and> idleAt i s \<and> process s = opened c w)
      in case caller s i of
           NotCalled \<Rightarrow> unmade \<and> buffer s i = None
         | Checking \<Rightarrow> unmade \<and> buffer s i = None \<and> checkName w c arg = Checking
         | MakingQueue \<Rightarrow> unmade \<and> buffer s i = None \<and> opens
         | MakingNotify \<Rightarrow> opens \<and> queueVar s = Some i \<and> worker s i = NoWorker \<and> buffer s i = None \<and> process s = opened c w
         | Spawning \<Rightarrow> opens \<and> queueVar s = Some i \<and> notifyVar s = Some i \<and> worker s i = NoWorker \<and>
             buffer s i = None \<and> process s = opened c w
         | Evaluating \<Rightarrow> made \<or> unmade \<and> checkName w c arg = Checking \<and> \<not> Stage (heap w c) < Stopping
         | Sending q \<Rightarrow> q = Some i \<and> made \<or> q = None \<and> unmade \<and> checkName w c arg = Checking \<and> \<not> Stage (heap w c) < Stopping
         | Receiving \<Rightarrow> opens \<and> notifyVar s = Some i \<and> queueVar s = Some i \<and> busyAt E halt c i (the arg) (opened c w) s
         | Waiting n \<Rightarrow> n = Some i \<and> opens \<and> queueVar s = Some i \<and> busyAt E halt c i (the arg) (opened c w) s
         | Testing \<Rightarrow> opens \<and> worker s i = Running (Some i) (Some i) AtRange \<and> buffer s i = None \<and>
             activateComponent E halt c (the arg) (opened c w) = Done (errVar s i) (process s)
         | Returned e \<Rightarrow> addComponent E halt c arg w = Done e (process s) \<and> buffer s i = None \<and>
             worker s i \<in> {NoWorker, Running (Some i) (Some i) AtRange})"

lemma alone_call:
  assumes "asContainer (heap w c) \<noteq> None" and "\<not> compActivationQueue (cpart w c)"
    and "alone E halt c i arg w s" and "callerMove c arg i s = Some s1"
  shows "alone E halt c i arg w s1"
proof (cases "caller s i")
  case NotCalled
  then show ?thesis
    using assms by (cases w c arg rule: checkName_cases)
      (auto simp: callerMove_def alone_def addComponent_unchecked)
next
  case (Sending q)
  then show ?thesis
    using assms by (cases q) (auto simp: callerMove_def alone_def Let_def idleAt_def busyAt_def split: if_splits)
next
  case Testing
  then show ?thesis
    using assms by (auto simp: callerMove_def alone_def Let_def addComponent_checked)
qed (use assms in \<open>auto simp: callerMove_def alone_def Let_def idleAt_def busyAt_def opened_def split: if_splits\<close>)

text \<open>The goroutine keeps waiting or activating, whatever the caller waits for.\<close>

lemma busyAt_work:
  assumes "busyAt E halt c i x w s" and "queueVar s = Some i" and "workerMove E halt c i s = Some s1"
  shows "busyAt E halt c i x w s1 \<and> caller s1 = caller s \<and> queueVar s1 = queueVar s \<and> notifyVar s1 = notifyVar s \<and>
    (\<forall>j. j \<noteq> i \<longrightarrow> worker s1 j = worker s j)"
proof (cases "buffer s i")
  case None
  then obtain p where p: "worker s i = Running (Some i) (Some i) p" "p \<noteq> AtRange"
    "remaining E halt c p (process s) = activateComponent E halt c x w"
    using assms(1) by (auto simp: busyAt_def)
  obtain p1 e w1 where "s1 = setWorker i (Running (Some i) (Some i) p1) (s\<lparr>process := w1, errVar := (errVar s)(i := e)\<rparr>)"
    "p1 \<noteq> AtRange" "remaining E halt c p (process s) = remaining E halt c p1 w1"
    using workerMove_activation [OF p(1,2) assms(3)] .
  then show ?thesis using p(3) None by (auto simp: busyAt_def)
next
  case (Some y)
  then show ?thesis using assms by (auto simp: busyAt_def)
qed

lemma idleAt_work:
  assumes "idleAt i s" and "queueVar s = Some i" and "workerMove E halt c i s = Some s1"
  shows "idleAt i s1 \<and> process s1 = process s \<and> caller s1 = caller s \<and> queueVar s1 = queueVar s \<and>
    notifyVar s1 = notifyVar s \<and> (\<forall>j. j \<noteq> i \<longrightarrow> worker s1 j = worker s j)"
  using assms by (auto simp: idleAt_def)

lemma alone_work:
  assumes "alone E halt c i arg w s" and "workerMove E halt c j s = Some s1"
  shows "alone E halt c i arg w s1"
proof -
  have w: "worker s j \<noteq> NoWorker" using assms(2) by auto
  then have "j = i" using assms(1) by (auto simp: alone_def)
  with assms(2) w have m: "workerMove E halt c i s = Some s1" and w: "worker s i \<noteq> NoWorker" by simp_all
  let ?op = "checkName w c arg = Checking \<and> Stage (heap w c) < Stopping"
  have "(idleAt i s \<and> process s = opened c w \<and> queueVar s = Some i \<and> notifyVar s = Some i \<and> ?op \<and>
      caller s i \<in> {Evaluating, Sending (Some i)}) \<or>
    (busyAt E halt c i (the arg) (opened c w) s \<and> queueVar s = Some i \<and> ?op \<and>
      (caller s i = Receiving \<and> notifyVar s = Some i \<or> caller s i = Waiting (Some i)))"
    using assms(1) m w by (cases "caller s i") (auto simp: alone_def Let_def)
  then consider
      (idle) "idleAt i s" "process s = opened c w" "queueVar s = Some i" "notifyVar s = Some i" ?op
        "caller s i \<in> {Evaluating, Sending (Some i)}"
    | (busy) "busyAt E halt c i (the arg) (opened c w) s" "queueVar s = Some i" ?op
        "caller s i = Receiving \<and> notifyVar s = Some i \<or> caller s i = Waiting (Some i)"
    by blast
  then show ?thesis
  proof cases
    case idle
    have "idleAt i s1" "process s1 = process s" "caller s1 = caller s" "queueVar s1 = queueVar s" "notifyVar s1 = notifyVar s"
      "\<forall>j. j \<noteq> i \<longrightarrow> worker s1 j = worker s j"
      using idleAt_work [OF idle(1,3) m] by simp_all
    moreover have "\<forall>j. j \<noteq> i \<longrightarrow> worker s j = NoWorker \<and> caller s j = NotCalled" using assms(1) by (simp add: alone_def)
    ultimately have "alone E halt c i arg w s1" if "caller s i = Evaluating \<or> caller s i = Sending (Some i)"
      using idle(2-5) that unfolding alone_def Let_def by (elim disjE) simp_all
    then show ?thesis using idle(6) by blast
  next
    case busy
    have "busyAt E halt c i (the arg) (opened c w) s1" "caller s1 = caller s" "queueVar s1 = queueVar s" "notifyVar s1 = notifyVar s"
      "\<forall>j. j \<noteq> i \<longrightarrow> worker s1 j = worker s j"
      using busyAt_work [OF busy(1,2) m] by simp_all
    moreover have "\<forall>j. j \<noteq> i \<longrightarrow> worker s j = NoWorker \<and> caller s j = NotCalled" using assms(1) by (simp add: alone_def)
    ultimately show ?thesis
      using busy(2-4) unfolding alone_def Let_def by (elim disjE conjE) simp_all
  qed
qed

lemma alone_step:
  assumes "asContainer (heap w c) \<noteq> None" and "\<not> compActivationQueue (cpart w c)"
    and "alone E halt c i arg w s" and "queueStep E halt c [i \<mapsto> arg] s s1"
  shows "alone E halt c i arg w s1"
  using assms(4)
proof cases
  case (call k a)
  then show ?thesis using alone_call [OF assms(1-3)] by (auto split: if_splits)
next
  case (work j)
  then show ?thesis using alone_work [OF assms(3)] by blast
next
  case (handOver j n q err k)
  have "worker s j \<noteq> NoWorker" "caller s k \<noteq> NotCalled" using handOver(2,3) by simp_all
  then have [simp]: "j = i" "k = i" using assms(3) by (auto simp: alone_def)
  have b: "busyAt E halt c i (the arg) (opened c w) s" "n = i"
    using assms(3) handOver(3) by (simp_all add: alone_def Let_def)
  have "buffer s i = None" "q = Some i" "activateComponent E halt c (the arg) (opened c w) = Done err (process s)"
    using b handOver(2) by (auto simp: busyAt_def)
  then show ?thesis
    using assms(3) handOver by (auto simp: alone_def Let_def)
qed

text \<open>Every step uses up some of what the call has left.\<close>

fun callerRank :: "callerPc \<Rightarrow> nat" where
  "callerRank NotCalled = 10"
| "callerRank Checking = 9"
| "callerRank MakingQueue = 8"
| "callerRank MakingNotify = 7"
| "callerRank Spawning = 6"
| "callerRank Evaluating = 5"
| "callerRank (Sending q) = 4"
| "callerRank Receiving = 3"
| "callerRank (Waiting n) = 2"
| "callerRank Testing = 1"
| "callerRank (Returned e) = 0"

fun workerRank :: "workerPc \<Rightarrow> nat" where
  "workerRank (Running n q p) = (if p = AtRange then 4 else stageRank p)"
| "workerRank pc = 5"

definition aloneRank :: "nat \<Rightarrow> queueState \<Rightarrow> nat" where
  "aloneRank i s = callerRank (caller s i) + (if callerRank (caller s i) \<le> 1 then 0 else workerRank (worker s i))"

lemma callerMove_rank:
  "callerMove c arg i s = Some s1 \<Longrightarrow> caller s i = Spawning \<longrightarrow> worker s i = NoWorker \<Longrightarrow> callerRank (caller s1 i) < callerRank (caller s i) \<and>
     workerRank (worker s1 i) \<le> workerRank (worker s i)"
  by (cases "caller s i"; cases "worker s i")
    (auto simp: callerMove_def checkName_def split: option.splits if_splits)

lemma stageRank_bound: "p \<noteq> AtRange \<Longrightarrow> stageRank p < 4"
  by (cases p) simp_all

lemma workerMove_rank:
  assumes "workerMove E halt c i s = Some s1"
  shows "workerRank (worker s1 i) < workerRank (worker s i) \<and> caller s1 = caller s"
proof (cases "worker s i")
  case (Running n q p)
  show ?thesis
  proof (cases "p = AtRange")
    case True
    then show ?thesis using assms Running by (auto simp: workerMove_def split: option.splits)
  next
    case False
    obtain p1 e w1 where "s1 = setWorker i (Running n q p1) (s\<lparr>process := w1, errVar := (errVar s)(i := e)\<rparr>)"
      "p1 \<noteq> AtRange" "stageRank p1 < stageRank p"
      using workerMove_activation [OF Running False assms] .
    then show ?thesis using Running False by simp
  qed
qed (use assms in auto)

lemma alone_rank:
  assumes "alone E halt c i arg w s" and "queueStep E halt c [i \<mapsto> arg] s s1"
  shows "aloneRank i s1 < aloneRank i s"
  using assms(2)
proof cases
  case (call k a)
  then have "callerMove c arg i s = Some s1" "caller s i = Spawning \<longrightarrow> worker s i = NoWorker"
    using assms(1) by (auto simp: alone_def Let_def split: if_splits)
  then show ?thesis using callerMove_rank by (fastforce simp: aloneRank_def)
next
  case (work j)
  have "worker s j \<noteq> NoWorker" using work by auto
  then have "j = i" using assms(1) by (auto simp: alone_def)
  then have m: "workerMove E halt c i s = Some s1" using work by simp
  have "\<not> callerRank (caller s i) \<le> 1"
    using assms(1) m by (cases "caller s i") (auto simp: alone_def Let_def)
  then show ?thesis using workerMove_rank [OF m] by (simp add: aloneRank_def)
next
  case (handOver j n q err k)
  then have "k = i" using assms(1) by (auto simp: alone_def)
  then show ?thesis using handOver by (simp add: aloneRank_def)
qed

text \<open>A call that can make no step has returned, or its activation does not return.\<close>

lemma alone_stuck:
  assumes "asContainer (heap w c) \<noteq> None" and "\<not> compActivationQueue (cpart w c)"
    and "alone E halt c i arg w s" and "\<And>s1. \<not> queueStep E halt c [i \<mapsto> arg] s s1"
    and "addComponent E halt c arg w = Done e w1"
  shows "caller s i = Returned e \<and> process s = w1"
proof -
  have nocall: "callerMove c arg i s = None" 
    using assms(4) by (metis fun_upd_same queueStep.call not_None_eq)
  have nowork: "workerMove E halt c i s = None"
    using assms(4) by (metis queueStep.work not_None_eq)
  show ?thesis
  proof (cases "caller s i")
    case (Sending q)
    then show ?thesis
      using assms(1-3,5) nocall by (auto simp: callerMove_def alone_def Let_def idleAt_def addComponent_checked split: if_splits)
  next
    case (Waiting n)
    then have s: "n = Some i" "checkName w c arg = Checking" "Stage (heap w c) < Stopping"
      "busyAt E halt c i (the arg) (opened c w) s"
      using assms(3) by (simp_all add: alone_def Let_def)
    obtain p where p: "worker s i = Running (Some i) (Some i) p" "p \<noteq> AtRange"
      "remaining E halt c p (process s) = activateComponent E halt c (the arg) (opened c w)"
      using s(4) nowork by (auto simp: busyAt_def)
    have "remaining E halt c p (process s) = Done e w1"
      using p(3) s(2,3) assms(5) by (simp add: addComponent_checked [OF _ assms(1,2)])
    then obtain f where "p = Report f" using workerMove_stuck [OF p(1,2) nowork] by blast
    then show ?thesis using queueStep.handOver [of s i i "Some i" f i E halt c "[i \<mapsto> arg]"] p(1) Waiting s(1) assms(4) by blast
  next
    case (Returned f)
    then show ?thesis using assms(3,5) by (auto simp: alone_def)
  qed (use nocall in \<open>simp_all add: callerMove_def\<close>)
qed

lemma alone_steps:
  assumes "asContainer (heap w c) \<noteq> None" and "\<not> compActivationQueue (cpart w c)"
    and "(queueStep E halt c [i \<mapsto> arg] ^^ n) (queueInit w) s"
  shows "alone E halt c i arg w s \<and> n + aloneRank i s \<le> 15"
  using assms(3)
proof (induction n arbitrary: s)
  case 0
  then show ?case by (auto simp: alone_def aloneRank_def)
next
  case (Suc n)
  then obtain s0 where "(queueStep E halt c [i \<mapsto> arg] ^^ n) (queueInit w) s0" "queueStep E halt c [i \<mapsto> arg] s0 s"
    by (blast elim: relpowp_Suc_E)
  then show ?case using Suc.IH [of s0] alone_step [OF assms(1,2)] alone_rank by fastforce
qed

text \<open>Some schedule takes a call to its end.\<close>

lemma alone_ends:
  assumes "asContainer (heap w c) \<noteq> None" and "\<not> compActivationQueue (cpart w c)"
  shows "\<exists>n s. (queueStep E halt c [i \<mapsto> arg] ^^ n) (queueInit w) s \<and> (\<nexists>s1. queueStep E halt c [i \<mapsto> arg] s s1)"
proof (rule ccontr)
  assume goes: "\<not> ?thesis"
  have "\<exists>s. (queueStep E halt c [i \<mapsto> arg] ^^ n) (queueInit w) s" for n
  proof (induction n)
    case (Suc n)
    then show ?case using goes by (meson relpowp_Suc_I)
  qed auto
  then obtain s where "(queueStep E halt c [i \<mapsto> arg] ^^ 16) (queueInit w) s" by blast
  then show False using alone_steps [OF assms] by fastforce
qed

text \<open>The sample container before anybody has called \<^verbatim>\<open>Add\<close> on it.\<close>

definition quietTree :: world where
  "quietTree = updPart 0 (\<lambda>k. k\<lparr>compActivationQueue := False\<rparr>) sampleTree"

lemma quietTree_sel [simp]:
  "heap quietTree x = (if x = 0 then busyRoot\<lparr>asContainer := Some (emptyPart\<lparr>cComponents := Some Map.empty,
     cHandlers := Some Map.empty\<rparr>)\<rparr> else freshJob x)" "rootContainer quietTree = Some 0"
  "addons quietTree = []" "tasks quietTree = [MmuxTask 0 0]"
  by (simp_all add: quietTree_def emptyPart_def)

lemma canAdd_quiet: "canAdd E 0 0 5 [''root''] quietTree"
proof -
  have "containerPaths (upd 5 (setContainer 0) sampleTree) (Some 0) [] = Some [''root'']"
    using canAdd_sample by (simp add: canAdd_def)
  then have "containerPaths (upd 5 (setContainer 0) quietTree) (Some 0) [] = Some [''root'']"
    by (rule containerPaths_transfer) (simp add: setContainer_def)
  moreover have "validateName sampleTree (Some 5) = None" using canAdd_sample by (simp add: canAdd_def)
  then have "validateName quietTree (Some 5) = None" by (simp add: validateName_def split: if_splits)
  ultimately show ?thesis by (simp add: canAdd_def cpart_def emptyPart_def persistOff_def stage_order)
qed

text \<open>
  C7: a caller that is alone gets what the sequential model of \<^verbatim>\<open>Add\<close> says. On a container without a
  queue, every run of one call, with the goroutine it starts, ends after at most fifteen steps; when
  the call has returned, it has the result and the process that \<open>addComponent\<close> gives; and if
  \<open>addComponent\<close> gives one, the run does not stop before.
\<close>

theorem Add_alone_is_addComponent:
  assumes "asContainer (heap w c) \<noteq> None" and "\<not> compActivationQueue (cpart w c)"
    and "(queueStep E halt c [i \<mapsto> arg] ^^ n) (queueInit w) s"
  shows "n \<le> 15 \<and>
    (\<forall>e. caller s i = Returned e \<longrightarrow> addComponent E halt c arg w = Done e (process s)) \<and>
    ((\<nexists>s1. queueStep E halt c [i \<mapsto> arg] s s1) \<longrightarrow>
       (\<forall>e w1. addComponent E halt c arg w = Done e w1 \<longrightarrow> caller s i = Returned e \<and> process s = w1))"
proof -
  have a: "alone E halt c i arg w s" "n \<le> 15" using alone_steps [OF assms] by auto
  then have "\<forall>e. caller s i = Returned e \<longrightarrow> addComponent E halt c arg w = Done e (process s)"
    by (auto simp: alone_def)
  then show ?thesis using a alone_stuck [OF assms(1,2) a(1)] by blast
qed

theorem Add_alone_is_addComponent_witness:
  "\<exists>n s w1. (queueStep plainEnv (containerStop plainEnv 3) 0 [7 \<mapsto> Some 5] ^^ n) (queueInit quietTree) s \<and> n \<le> 15 \<and>
    addComponent plainEnv (containerStop plainEnv 3) 0 (Some 5) quietTree = Done None w1 \<and>
    caller s 7 = Returned None \<and> process s = w1"
proof -
  have q: "asContainer (heap quietTree 0) \<noteq> None" "\<not> compActivationQueue (cpart quietTree 0)"
    by (simp_all add: cpart_def emptyPart_def)
  have "initsCleanly plainEnv (heap quietTree 5)" by (simp add: initsCleanly_def)
  then obtain w2 where "Add plainEnv (containerStop plainEnv 3) 0 (Some 5) quietTree = Done None w2"
    using Add_child [OF canAdd_quiet] by blast
  then obtain e w1 where "addComponent plainEnv (containerStop plainEnv 3) 0 (Some 5) quietTree = Done e w1" "e = None"
    by (auto simp: Add_def split: if_splits)
  then have a: "addComponent plainEnv (containerStop plainEnv 3) 0 (Some 5) quietTree = Done None w1" by simp
  obtain n s where s: "(queueStep plainEnv (containerStop plainEnv 3) 0 [7 \<mapsto> Some 5] ^^ n) (queueInit quietTree) s"
    "\<nexists>s1. queueStep plainEnv (containerStop plainEnv 3) 0 [7 \<mapsto> Some 5] s s1"
    using alone_ends [OF q] by blast
  show ?thesis using Add_alone_is_addComponent [OF q s(1)] s a by blast
qed

section \<open>Many callers\<close>

text \<open>A container whose queue is there and whose activation goroutine waits; \<open>o\<close> was the first caller.\<close>

definition queueIdle :: "nat \<Rightarrow> world \<Rightarrow> queueState" where
  "queueIdle own w =
     (queueInit w)\<lparr>queueVar := Some own, notifyVar := Some own, caller := (\<lambda>_. NotCalled)(own := Returned None),
       worker := (\<lambda>_. NoWorker)(own := Running (Some own) (Some own) AtRange)\<rparr>"

lemma queueIdle_sel [simp]:
  "process (queueIdle own w) = w" "queueVar (queueIdle own w) = Some own" "notifyVar (queueIdle own w) = Some own"
  "buffer (queueIdle own w) = (\<lambda>_. None)" "caller (queueIdle own w) = (\<lambda>_. NotCalled)(own := Returned None)"
  "worker (queueIdle own w) = (\<lambda>_. NoWorker)(own := Running (Some own) (Some own) AtRange)"
  "queued (queueIdle own w) = []" "taken (queueIdle own w) = []"
  by (simp_all add: queueIdle_def)

fun awaits :: "callerPc \<Rightarrow> bool" where
  "awaits Receiving = True"
| "awaits (Waiting n) = True"
| "awaits _ = False"

text \<open>Where a caller can be: it sends to the queue and receives from the channel that are there.\<close>

fun regular :: "nat \<Rightarrow> callerPc \<Rightarrow> bool" where
  "regular own MakingQueue = False"
| "regular own MakingNotify = False"
| "regular own Spawning = False"
| "regular own (Sending q) = (q = Some own)"
| "regular own (Waiting n) = (n = Some own)"
| "regular own _ = True"

definition inWork :: "workerPc \<Rightarrow> nat" where
  "inWork pc = (case pc of Running n q p \<Rightarrow> if p = AtRange then 0 else 1 | _ \<Rightarrow> 0)"

definition serving :: "nat \<Rightarrow> (nat \<rightharpoonup> cid option) \<Rightarrow> queueState \<Rightarrow> bool" where
  "serving own calls s \<longleftrightarrow>
     queueVar s = Some own \<and> notifyVar s = Some own \<and> (\<forall>j. j \<noteq> own \<longrightarrow> worker s j = NoWorker) \<and>
     (\<exists>p. worker s own = Running (Some own) (Some own) p) \<and> (\<forall>i. regular own (caller s i)) \<and>
     (\<forall>i. i \<notin> dom calls \<longrightarrow> \<not> awaits (caller s i)) \<and>
     finite {i. awaits (caller s i)} \<and>
     card {i. awaits (caller s i)} = (if buffer s own = None then 0 else 1) + inWork (worker s own) \<and>
     queued s = taken s @ (case buffer s own of None \<Rightarrow> [] | Some x \<Rightarrow> [x])"

lemma serving_idle: "serving own calls (queueIdle own w)"
proof -
  have "{i. awaits (((\<lambda>_. NotCalled)(own := Returned None)) i)} = {}" by auto
  then show ?thesis by (simp add: serving_def inWork_def)
qed

lemma awaits_set:
  "{k. awaits ((f(i := pc)) k)} = (if awaits pc then insert i {k. awaits (f k)} else {k. awaits (f k)} - {i})"
  by auto

lemma regular_call:
  assumes "callerMove c arg i s = Some s1" and "queueVar s = Some own" and "notifyVar s = Some own"
    and "regular own (caller s i)"
  obtains pc where "s1 = setCaller i pc s" and "regular own pc" and "awaits pc \<longleftrightarrow> awaits (caller s i)"
  | "caller s i = Sending (Some own)" and "buffer s own = None"
    and "s1 = setCaller i Receiving (s\<lparr>buffer := (buffer s)(own := Some (the arg)), queued := queued s @ [the arg]\<rparr>)"
proof (cases "caller s i = Sending (Some own)")
  case True
  then show ?thesis using assms that(2) by (auto simp: callerMove_def split: if_splits)
next
  case False
  then have "\<exists>pc. s1 = setCaller i pc s \<and> regular own pc \<and> (awaits pc \<longleftrightarrow> awaits (caller s i))"
    using assms by (cases "caller s i") (auto simp: callerMove_def checkName_def split: option.splits if_splits)
  then show ?thesis using that(1) by blast
qed

lemma serving_call:
  assumes "serving own calls s" and "calls i = Some arg" and "callerMove c arg i s = Some s1"
  shows "serving own calls s1"
proof -
  have "regular own (caller s i)" "queueVar s = Some own" "notifyVar s = Some own"
    using assms(1) by (simp_all add: serving_def)
  then consider pc where "s1 = setCaller i pc s" "regular own pc" "awaits pc \<longleftrightarrow> awaits (caller s i)"
    | "caller s i = Sending (Some own)" "buffer s own = None"
      "s1 = setCaller i Receiving (s\<lparr>buffer := (buffer s)(own := Some (the arg)), queued := queued s @ [the arg]\<rparr>)"
    using regular_call [OF assms(3)] by metis
  then show ?thesis
  proof cases
    case 1
    have "{k. awaits (caller s1 k)} = {k. awaits (caller s k)}" using 1 by auto
    then show ?thesis using assms(1,2) 1 unfolding serving_def by auto
  next
    case 2
    have "i \<notin> {k. awaits (caller s k)}" using 2(1) by simp
    moreover have "{k. awaits (caller s1 k)} = insert i {k. awaits (caller s k)}" using 2(3) by auto
    ultimately show ?thesis using assms(1,2) 2 unfolding serving_def by auto
  qed
qed

lemma serving_work:
  assumes "serving own calls s" and "workerMove E halt c j s = Some s1"
  shows "serving own calls s1"
proof -
  have "worker s j \<noteq> NoWorker" using assms(2) by auto
  then have m: "workerMove E halt c own s = Some s1" using assms unfolding serving_def by metis
  obtain p where p: "worker s own = Running (Some own) (Some own) p" using assms(1) by (auto simp: serving_def)
  show ?thesis
  proof (cases "p = AtRange")
    case True
    then show ?thesis using assms(1) m p by (auto simp: serving_def inWork_def)
  next
    case False
    obtain p1 e w1 where "s1 = setWorker own (Running (Some own) (Some own) p1) (s\<lparr>process := w1, errVar := (errVar s)(own := e)\<rparr>)"
      "p1 \<noteq> AtRange"
      using workerMove_activation [OF p False m] .
    then show ?thesis using assms(1) p False by (simp add: serving_def inWork_def)
  qed
qed

lemma serving_step:
  assumes "serving own calls s" and "queueStep E halt c calls s s1"
  shows "serving own calls s1"
  using assms(2)
proof cases
  case (call k a)
  then show ?thesis using serving_call [OF assms(1)] by blast
next
  case (work j)
  then show ?thesis using serving_work [OF assms(1)] by blast
next
  case (handOver j n q err k)
  have "worker s j \<noteq> NoWorker" using handOver(2) by simp
  then have "j = own" using assms(1) unfolding serving_def by metis
  then have j: "j = own" "n = own" "q = Some own" using assms(1) handOver(2) by (auto simp: serving_def)
  have k: "k \<in> {i. awaits (caller s i)}" using handOver(3) by simp
  have "{i. awaits (caller s1 i)} = {i. awaits (caller s i)} - {k}" using handOver(1) by auto
  then have "card {i. awaits (caller s1 i)} = card {i. awaits (caller s i)} - 1" "finite {i. awaits (caller s1 i)}"
    using k assms(1) by (simp_all add: serving_def)
  then show ?thesis
    using assms(1) handOver j by (auto simp: serving_def inWork_def)
qed

lemma serving_steps:
  assumes "queueSteps E halt c calls (queueIdle own w) s"
  shows "serving own calls s"
  using assms unfolding queueSteps_def
  by (induction rule: rtranclp_induct) (auto intro: serving_idle serving_step)

text \<open>Two calls of \<^verbatim>\<open>Add\<close>: the first component is taken out of the queue, the second is put into it.\<close>

definition twoCalls :: "nat \<rightharpoonup> cid option" where
  "twoCalls = [1 \<mapsto> Some 5, 2 \<mapsto> Some 6]"

definition twoMoves :: "move list" where
  "twoMoves = replicate 4 (Call 1) @ [Work 0] @ replicate 4 (Call 2)"

lemma checkName_job: "x \<noteq> 0 \<Longrightarrow> checkName sampleTree 0 (Some x) = Checking"
proof -
  assume "x \<noteq> 0"
  moreover have "\<not> list_ex (\<lambda>c. \<not> allowedChar c) ''job''" by code_simp
  ultimately show ?thesis by (simp add: checkName_def validateName_def)
qed

lemma twoMoves_run:
  "\<exists>s. performs plainEnv (containerStop plainEnv 3) 0 twoCalls twoMoves (queueIdle 0 sampleTree) = Some s \<and>
    queued s = [5, 6] \<and> taken s = [5] \<and> buffer s 0 = Some 6 \<and> caller s 1 = Receiving"
  by (simp add: twoMoves_def twoCalls_def numeral_eq_Suc perform_def callerMove_def checkName_job [unfolded numeral_eq_Suc])

text \<open>
  C4: "it is activated sequentially since its being read off the queue, thereby maintaining order". Once
  the queue of a container is there, then however the calls of \<^verbatim>\<open>Add\<close> interleave, only one goroutine
  activates components, it takes them in the order they were sent, and at most one is in the queue.
\<close>

theorem activated_in_order:
  assumes "queueSteps E halt c calls (queueIdle own w) s"
  shows "(\<forall>j. worker s j \<noteq> NoWorker \<longrightarrow> j = own) \<and>
    queued s = taken s @ (case buffer s own of None \<Rightarrow> [] | Some x \<Rightarrow> [x])"
  using serving_steps [OF assms] unfolding serving_def by blast

theorem activated_in_order_witness:
  "\<exists>s. queueSteps plainEnv (containerStop plainEnv 3) 0 twoCalls (queueIdle 0 sampleTree) s \<and>
    queued s = [5, 6] \<and> queued s = taken s @ [6]"
proof -
  obtain s where s: "performs plainEnv (containerStop plainEnv 3) 0 twoCalls twoMoves (queueIdle 0 sampleTree) = Some s"
    "queued s = [5, 6]" "buffer s 0 = Some 6"
    using twoMoves_run by blast
  then show ?thesis using activated_in_order [OF performs_queueSteps [OF s(1)]] performs_queueSteps [OF s(1)] by auto
qed

text \<open>What the calls and the activation have left.\<close>

fun callWeight :: "callerPc \<Rightarrow> nat" where
  "callWeight NotCalled = 11"
| "callWeight Checking = 10"
| "callWeight Evaluating = 9"
| "callWeight (Sending q) = 8"
| "callWeight Receiving = 3"
| "callWeight (Waiting n) = 2"
| "callWeight Testing = 1"
| "callWeight _ = 0"

definition queueRank :: "nat \<Rightarrow> (nat \<rightharpoonup> cid option) \<Rightarrow> queueState \<Rightarrow> nat" where
  "queueRank own calls s =
     sum (\<lambda>i. callWeight (caller s i)) (dom calls) + (if buffer s own = None then 0 else 4) +
     (case worker s own of Running n q p \<Rightarrow> stageRank p | _ \<Rightarrow> 0)"

lemma sum_upd:
  fixes r :: "'b \<Rightarrow> nat"
  assumes "finite A" and "i \<in> A"
  shows "sum (\<lambda>k. r ((f(i := v)) k)) A + r (f i) = sum (\<lambda>k. r (f k)) A + r v"
proof -
  have "sum (\<lambda>k. r ((f(i := v)) k)) (A - {i}) = sum (\<lambda>k. r (f k)) (A - {i})" by (intro sum.cong) auto
  then show ?thesis
    using sum.remove [OF assms, of "\<lambda>k. r ((f(i := v)) k)"] sum.remove [OF assms, of "\<lambda>k. r (f k)"] by simp
qed

lemma callerMove_weight:
  assumes "callerMove c arg i s = Some s1" and "queueVar s = Some own" and "regular own (caller s i)"
  obtains pc where "caller s1 = (caller s)(i := pc)" and "worker s1 = worker s"
    and "callWeight pc + (if buffer s1 own = None then 0 else 4) < callWeight (caller s i) + (if buffer s own = None then 0 else 4)"
  using assms by (cases "caller s i") (auto simp: callerMove_def checkName_def split: option.splits if_splits)

lemma queueRank_step:
  assumes "serving own calls s" and "finite (dom calls)" and "queueStep E halt c calls s s1"
  shows "queueRank own calls s1 < queueRank own calls s"
  using assms(3)
proof cases
  case (call i arg)
  have r: "queueVar s = Some own" "regular own (caller s i)" using assms(1) by (simp_all add: serving_def)
  obtain pc where pc: "caller s1 = (caller s)(i := pc)" "worker s1 = worker s"
    "callWeight pc + (if buffer s1 own = None then 0 else 4) < callWeight (caller s i) + (if buffer s own = None then 0 else 4)"
    using callerMove_weight [OF call(2) r] .
  have "i \<in> dom calls" using call(1) by auto
  then show ?thesis
    using sum_upd [OF assms(2), of i callWeight "caller s" pc] pc(3) unfolding queueRank_def pc(1,2) by linarith
next
  case (work j)
  have "worker s j \<noteq> NoWorker" using work by auto
  then have m: "workerMove E halt c own s = Some s1" using assms(1) work unfolding serving_def by metis
  obtain p where p: "worker s own = Running (Some own) (Some own) p" using assms(1) by (auto simp: serving_def)
  show ?thesis
  proof (cases "p = AtRange")
    case True
    then show ?thesis using m p by (auto simp: queueRank_def)
  next
    case False
    obtain p1 e w1 where "s1 = setWorker own (Running (Some own) (Some own) p1) (s\<lparr>process := w1, errVar := (errVar s)(own := e)\<rparr>)"
      "stageRank p1 < stageRank p"
      using workerMove_activation [OF p False m] .
    then show ?thesis using p by (simp add: queueRank_def)
  qed
next
  case (handOver j n q err k)
  have "worker s j \<noteq> NoWorker" using handOver(2) by simp
  then have j: "j = own" using assms(1) unfolding serving_def by metis
  have "k \<in> dom calls" using handOver(3) assms(1) unfolding serving_def by (metis awaits.simps(2))
  then show ?thesis
    using sum_upd [OF assms(2), of k callWeight "caller s" Testing] handOver j by (simp add: queueRank_def)
qed

lemma queueRank_steps:
  assumes "(queueStep E halt c calls ^^ n) (queueIdle own w) s" and "finite (dom calls)"
  shows "serving own calls s \<and> n + queueRank own calls s \<le> 11 * card (dom calls)"
  using assms(1)
proof (induction n arbitrary: s)
  case 0
  have "sum (\<lambda>i. callWeight (((\<lambda>_. NotCalled)(own := Returned None)) i)) (dom calls) \<le> card (dom calls) * 11"
    by (rule sum_bounded_above [of _ _ "11 :: nat", simplified]) simp
  then show ?case using 0 serving_idle by (auto simp: queueRank_def)
next
  case (Suc n)
  then obtain s0 where "(queueStep E halt c calls ^^ n) (queueIdle own w) s0" "queueStep E halt c calls s0 s"
    by (blast elim: relpowp_Suc_E)
  then show ?case using Suc.IH [of s0] serving_step queueRank_step [OF _ assms(2)] by fastforce
qed

text \<open>Where nothing can move, all calls have returned, or an activation does not return.\<close>

lemma serving_stuck:
  assumes "serving own calls s" and "\<And>s1. \<not> queueStep E halt c calls s s1"
    and "worker s own = Running (Some own) (Some own) p" and "p \<noteq> AtRange \<longrightarrow> (\<exists>e w. remaining E halt c p (process s) = Done e w)"
    and "calls i = Some arg"
  shows "\<exists>e. caller s i = Returned e"
proof -
  have nocall: "callerMove c a k s = None" if "calls k = Some a" for k a
    using assms(2) that by (metis queueStep.call not_None_eq)
  have nowork: "workerMove E halt c own s = None" using assms(2) by (metis queueStep.work not_None_eq)
  have idle: "p = AtRange"
  proof (rule ccontr)
    assume p: "p \<noteq> AtRange"
    then obtain f where f: "p = Report f" using workerMove_stuck [OF assms(3) p nowork] assms(4) by blast
    have "card {k. awaits (caller s k)} \<noteq> 0" using assms(1,3) p by (simp add: serving_def inWork_def)
    then obtain k where k: "awaits (caller s k)" by (metis Collect_empty_eq card.empty)
    then have "k \<in> dom calls" using assms(1) unfolding serving_def by blast
    then obtain a where a: "calls k = Some a" by blast
    have "caller s k \<noteq> Receiving" using nocall [OF a] by (auto simp: callerMove_def)
    then obtain n where "caller s k = Waiting n" using k by (cases "caller s k") auto
    moreover have "regular own (caller s k)" using assms(1) by (simp add: serving_def)
    ultimately have "caller s k = Waiting (Some own)" by simp
    then show False using assms(2) queueStep.handOver [of s own own "Some own" f k E halt c calls] assms(3) f by blast
  qed
  then have b: "buffer s own = None" using nowork assms(3) by simp
  then have "{k. awaits (caller s k)} = {}" using assms(1,3) idle by (auto simp: serving_def inWork_def)
  then have "\<not> awaits (caller s i)" by blast
  moreover have "regular own (caller s i)" using assms(1) by (simp add: serving_def)
  ultimately show ?thesis using nocall [OF assms(5)] b by (cases "caller s i") (auto simp: callerMove_def)
qed

text \<open>
  C15: no call of \<^verbatim>\<open>Add\<close> is left behind once the queue is there. Any number of calls that interleave in
  any way take at most eleven steps each, goroutine included, and when nothing moves any more every
  one of them has returned, unless an activation itself does not return.
\<close>

theorem every_Add_returns:
  assumes "finite (dom calls)" and "(queueStep E halt c calls ^^ n) (queueIdle own w) s"
  shows "n \<le> 11 * card (dom calls) \<and>
    ((\<nexists>s1. queueStep E halt c calls s s1) \<longrightarrow>
       (\<forall>i \<in> dom calls. \<exists>e. caller s i = Returned e) \<or>
       (\<exists>p. worker s own = Running (Some own) (Some own) p \<and> p \<noteq> AtRange \<and>
          (\<forall>e w1. remaining E halt c p (process s) \<noteq> Done e w1)))"
proof -
  have r: "serving own calls s" "n \<le> 11 * card (dom calls)" using queueRank_steps [OF assms(2,1)] by auto
  obtain p where "worker s own = Running (Some own) (Some own) p" using r(1) by (auto simp: serving_def)
  then show ?thesis using r serving_stuck [OF r(1)] by blast
qed

theorem every_Add_returns_witness:
  "\<exists>s. (queueStep plainEnv (containerStop plainEnv 3) 0 twoCalls ^^ 9) (queueIdle 0 sampleTree) s \<and>
    caller s 1 = Receiving \<and> 9 \<le> 11 * card (dom twoCalls)"
proof -
  obtain s where s: "performs plainEnv (containerStop plainEnv 3) 0 twoCalls twoMoves (queueIdle 0 sampleTree) = Some s"
    "caller s 1 = Receiving"
    using twoMoves_run by blast
  have "length twoMoves = 9" by (simp add: twoMoves_def)
  then have "(queueStep plainEnv (containerStop plainEnv 3) 0 twoCalls ^^ 9) (queueIdle 0 sampleTree) s"
    using performs_steps [OF s(1)] by simp
  moreover have "finite (dom twoCalls)" by (simp add: twoCalls_def)
  ultimately show ?thesis using every_Add_returns [of twoCalls 9] s(2) by blast
qed

end
