(* ===== verification/Add_Races.thy ===== *)
theory Add_Races
  imports Concurrent_Add
begin

text \<open>
  What goes wrong when calls of \<^verbatim>\<open>Add\<close> overlap: all callers receive from one notification channel, so a
  reply may reach the wrong caller; and the test for a missing queue and the making of one are not
  one step, so two first calls may make two queues.
\<close>

lemma activation_runs:
  assumes "worker s j = Running n q p" and "p \<noteq> AtRange" and "remaining E halt c p (process s) = Done e w"
  shows "\<exists>f. queueSteps E halt c calls s
    (setWorker j (Running n q (Report e)) (s\<lparr>process := w, errVar := (errVar s)(j := f)\<rparr>))"
  using assms
proof (induction "stageRank p" arbitrary: s p rule: less_induct)
  case less
  show ?case
  proof (cases "\<exists>f. p = Report f")
    case True
    then have "setWorker j (Running n q (Report e)) (s\<lparr>process := w, errVar := (errVar s)(j := errVar s j)\<rparr>) = s"
      using less.prems by (auto simp: setWorker_def fun_upd_idem)
    then show ?thesis unfolding queueSteps_def by (metis rtranclp.rtrancl_refl)
  next
    case False
    then obtain s1 where s1: "workerMove E halt c j s = Some s1"
      using workerMove_stuck [OF less.prems(1,2), of E halt c] less.prems(3) by blast
    obtain p1 e1 w1 where a: "s1 = setWorker j (Running n q p1) (s\<lparr>process := w1, errVar := (errVar s)(j := e1)\<rparr>)"
      "p1 \<noteq> AtRange" "stageRank p1 < stageRank p" "remaining E halt c p (process s) = remaining E halt c p1 w1"
      using workerMove_activation [OF less.prems(1,2) s1] .
    have "worker s1 j = Running n q p1" "remaining E halt c p1 (process s1) = Done e w" using a less.prems(3) by simp_all
    then obtain f where f: "queueSteps E halt c calls s1
        (setWorker j (Running n q (Report e)) (s1\<lparr>process := w, errVar := (errVar s1)(j := f)\<rparr>))"
      using less.hyps [OF a(3) _ a(2)] by blast
    have "setWorker j (Running n q (Report e)) (s1\<lparr>process := w, errVar := (errVar s1)(j := f)\<rparr>) =
        setWorker j (Running n q (Report e)) (s\<lparr>process := w, errVar := (errVar s)(j := f)\<rparr>)"
      using a(1) by (simp add: setWorker_def)
    then show ?thesis using f queueStep.work [OF s1] unfolding queueSteps_def by (metis converse_rtranclp_into_rtranclp)
  qed
qed

lemma queueSteps_trans: "queueSteps E halt c calls s s1 \<Longrightarrow> queueSteps E halt c calls s1 s2 \<Longrightarrow> queueSteps E halt c calls s s2"
  unfolding queueSteps_def by simp

section \<open>Two components, one of which fails\<close>

lemma one_fails:
  assumes "canAdd E r c x ps w" and "canAdd E r c y qs w" and "x \<noteq> y"
    and "initFails E (heap w x) err" and "initsCleanly E (heap w y)"
  shows "\<exists>w1 w2. activateComponent E halt c x (withQueue c w) = Done (Some err) w1 \<and>
    activateComponent E halt c y w1 = Done None w2 \<and> Stage (heap w2 y) = Started \<and> Stage (heap w2 x) = Tearingdown"
proof -
  let ?q = "withQueue c w"
  obtain d1 where d1: "componentLifecycleFSM E halt c background x ?q =
      Done (Some err) (addTask (MmuxTask c x) (upd x (\<lambda>_. d1) ?q))" "reaches Tearingdown (heap ?q x) d1"
    using initialize_fails [of ?q x E err halt c background] assms(1,4) heap_withQueue(1) [of x c w] by (auto simp: canAdd_def)
  let ?w1 = "addTask (MmuxTask c x) (upd x (\<lambda>_. d1) ?q)"
  have 1: "activateComponent E halt c x ?q = Done (Some err) ?w1" using d1(1) by (simp add: activateComponent_def)
  have q: "canAdd E r c y qs ?q" by (rule canAdd_withQueue(1) [OF assms(2)])
  have x: "x \<noteq> c" "x \<noteq> r" using assms(1) by (simp_all add: canAdd_def)
  have "containerPaths (upd y (setContainer c) ?q) (Some c) [] = Some qs" using q by (simp add: canAdd_def)
  then have "containerPaths (upd y (setContainer c) ?w1) (Some c) [] = Some qs"
    by (rule containerPaths_transfer) (use d1(2) assms(3) in \<open>auto simp: setContainer_def reaches_def\<close>)
  moreover have "validateName ?q (Some y) = None" using q by (simp add: canAdd_def)
  then have "validateName ?w1 (Some y) = None" using assms(3) by (simp add: validateName_def split: if_splits)
  moreover have "persistOff ?w1" using q d1(2) by (simp add: canAdd_def persistOff_upd_at reaches_def)
  ultimately have y: "canAdd E r c y qs ?w1" using q x assms(3) by (simp add: canAdd_def)
  have "heap ?w1 y = heap w y" using assms(2,3) heap_withQueue(1) [of y c w] by (simp add: canAdd_def)
  then obtain w2 where w2: "activateComponent E halt c y ?w1 = Done None w2" "added r c y qs ?w1 w2"
    using activateComponent_child [OF y] assms(5) canAdd_withQueue(2) [OF assms(2)] x(1) by auto
  have "Stage (heap w2 y) = Started" using w2(2) by (simp add: added_def reaches_def)
  moreover have "Stage (heap w2 x) = Tearingdown"
    using added_others(2) [OF w2(2), of x] d1(2) assms(3) by (simp add: reaches_def)
  ultimately show ?thesis using 1 w2(1) by blast
qed

text \<open>An \<^verbatim>\<open>Init\<close> that fails for one type of component, and a component of another type.\<close>

definition pickyEnv :: env where
  "pickyEnv = plainEnv\<lparr>initHook := \<lambda>ty fs. HookRet fs (if ty = ''Job'' then Some (UserError ''no'') else None)\<rparr>"

definition twoJobs :: "bool \<Rightarrow> world" where
  "twoJobs q = updPart 0 (\<lambda>k. k\<lparr>compActivationQueue := q\<rparr>) (upd 6 (\<lambda>d. d\<lparr>gotype := UserT ''Other''\<rparr>) sampleTree)"

lemma twoJobs_sel [simp]:
  "heap (twoJobs q) x = (if x = 0 then busyRoot\<lparr>asContainer := Some (emptyPart\<lparr>compActivationQueue := q,
       cComponents := Some Map.empty, cHandlers := Some Map.empty\<rparr>)\<rparr>
     else if x = 6 then (freshJob 6)\<lparr>gotype := UserT ''Other''\<rparr> else freshJob x)"
  "rootContainer (twoJobs q) = Some 0" "addons (twoJobs q) = []"
  by (simp_all add: twoJobs_def emptyPart_def)

lemma job_allowed: "\<not> list_ex (\<lambda>c. \<not> allowedChar c) ''job''"
  by code_simp

lemma canAdd_twoJobs: "x \<noteq> 0 \<Longrightarrow> canAdd E 0 0 x [''root''] (twoJobs q)"
proof -
  assume x: "x \<noteq> 0"
  have "containerPaths (upd x (setContainer 0) (twoJobs q)) (Some 0) [] = Some [toLower ''root'']"
    using x by (subst containerPaths.simps, subst containerPaths.simps) simp
  moreover have "toLower ''root'' = ''root''" by code_simp
  moreover have "validateName (twoJobs q) (Some x) = None" using x job_allowed by (simp add: validateName_def)
  ultimately show ?thesis using x by (auto simp: canAdd_def cpart_def emptyPart_def persistOff_def stage_order)
qed

lemma checkName_twoJobs: "x \<noteq> 0 \<Longrightarrow> checkName (twoJobs q) 0 (Some x) = Checking"
  using job_allowed by (simp add: checkName_def validateName_def)

lemma twoJobs_run:
  "\<exists>w1 w2. activateComponent pickyEnv halt 0 5 (withQueue 0 (twoJobs q)) = Done (Some (UserError ''no'')) w1 \<and>
    activateComponent pickyEnv halt 0 6 w1 = Done None w2 \<and> Stage (heap w2 6) = Started \<and> Stage (heap w2 5) = Tearingdown"
proof (rule one_fails [OF canAdd_twoJobs canAdd_twoJobs])
  show "initFails pickyEnv (heap (twoJobs q) 5) (UserError ''no'')" by (simp add: initFails_def pickyEnv_def)
  show "initsCleanly pickyEnv (heap (twoJobs q) 6)" by (simp add: initsCleanly_def pickyEnv_def)
qed simp_all

section \<open>Replies that are swapped\<close>

text \<open>Both callers are in the queue before the first activation ends.\<close>

definition overlap :: "nat \<Rightarrow> nat \<Rightarrow> nat \<Rightarrow> move list" where
  "overlap own i j = [Call i, Call i, Call i, Call i, Call j, Call j, Call j, Work own, Call j, Call i, Call j]"

lemma overlap_run:
  assumes "own \<noteq> i" and "own \<noteq> j" and "i \<noteq> j" and "calls i = Some (Some x)" and "calls j = Some (Some y)"
    and "checkName w c (Some x) = Checking" and "checkName w c (Some y) = Checking"
  shows "\<exists>s. performs E halt c calls (overlap own i j) (queueIdle own w) = Some s \<and> process s = w \<and>
    buffer s own = Some y \<and> caller s i = Waiting (Some own) \<and> caller s j = Waiting (Some own) \<and>
    worker s own = Running (Some own) (Some own) (ToInit x)"
  using assms by (simp add: overlap_def perform_def callerMove_def)

text \<open>
  C29: replies can be swapped. All callers wait on the same channel: of two calls of \<^verbatim>\<open>Add\<close> that overlap,
  each can return the result of the other. When one component fails to start and the other one does
  not, the caller of the failed one is told that all is well, and the other caller gets its error.
\<close>

theorem replies_can_be_swapped:
  assumes "own \<noteq> i" and "own \<noteq> j" and "i \<noteq> j" and "calls i = Some (Some x)" and "calls j = Some (Some y)"
    and "checkName w c (Some x) = Checking" and "checkName w c (Some y) = Checking"
    and "activateComponent E halt c x w = Done e1 w1" and "activateComponent E halt c y w1 = Done e2 w2"
  shows "\<exists>s. queueSteps E halt c calls (queueIdle own w) s \<and>
    caller s i = Returned e2 \<and> caller s j = Returned e1 \<and> process s = w2"
proof -
  let ?run = "Running (Some own) (Some own)"
  obtain s1 where s1: "queueSteps E halt c calls (queueIdle own w) s1" "process s1 = w" "buffer s1 own = Some y"
    "caller s1 i = Waiting (Some own)" "caller s1 j = Waiting (Some own)" "worker s1 own = ?run (ToInit x)"
    using overlap_run [OF assms(1-7), of E halt] performs_queueSteps by blast
  obtain f where s2: "queueSteps E halt c calls s1
      (setWorker own (?run (Report e1)) (s1\<lparr>process := w1, errVar := (errVar s1)(own := f)\<rparr>))" (is "queueSteps _ _ _ _ _ ?s2")
    using activation_runs [OF s1(6), of E halt c e1 w1 calls] assms(8) s1(2) by auto
  have "performs E halt c calls [Hand own j, Work own] ?s2 \<noteq> None"
    using assms(1-3) s1 by (simp add: perform_def)
  then obtain s3 where p3: "performs E halt c calls [Hand own j, Work own] ?s2 = Some s3" by blast
  then have s3: "process s3 = w1" "worker s3 own = ?run (ToInit y)" "caller s3 i = Waiting (Some own)"
    "caller s3 j = Testing" "errVar s3 j = e1"
    using assms(1-3) s1 by (auto simp: perform_def)
  obtain g where s4: "queueSteps E halt c calls s3
      (setWorker own (?run (Report e2)) (s3\<lparr>process := w2, errVar := (errVar s3)(own := g)\<rparr>))" (is "queueSteps _ _ _ _ _ ?s4")
    using activation_runs [OF s3(2), of E halt c e2 w2 calls] assms(9) s3(1) by auto
  have "performs E halt c calls [Hand own i, Call i, Call j] ?s4 \<noteq> None"
    using assms(1-5) s3 by (simp add: perform_def callerMove_def)
  then obtain s5 where p5: "performs E halt c calls [Hand own i, Call i, Call j] ?s4 = Some s5" by blast
  then have "process s5 = w2" "caller s5 i = Returned e2" "caller s5 j = Returned e1"
    using assms(1-5) s3 by (auto simp: perform_def callerMove_def)
  moreover have "queueSteps E halt c calls (queueIdle own w) s5"
    by (rule queueSteps_trans [OF queueSteps_trans [OF queueSteps_trans [OF queueSteps_trans [OF s1(1) s2]
        performs_queueSteps [OF p3]] s4] performs_queueSteps [OF p5]])
  ultimately show ?thesis by blast
qed

theorem replies_can_be_swapped_witness:
  "\<exists>s. queueSteps pickyEnv (containerStop pickyEnv 3) 0 twoCalls (queueIdle 0 (twoJobs True)) s \<and>
    caller s 1 = Returned None \<and> caller s 2 = Returned (Some (UserError ''no'')) \<and>
    Stage (heap (process s) 5) = Tearingdown \<and> Stage (heap (process s) 6) = Started"
proof -
  have "withQueue 0 (twoJobs True) = twoJobs True" by (simp add: withQueue_def cpart_def)
  then obtain w1 w2 where w: "activateComponent pickyEnv (containerStop pickyEnv 3) 0 5 (twoJobs True) = Done (Some (UserError ''no'')) w1"
    "activateComponent pickyEnv (containerStop pickyEnv 3) 0 6 w1 = Done None w2" "Stage (heap w2 6) = Started" "Stage (heap w2 5) = Tearingdown"
    using twoJobs_run [of "containerStop pickyEnv 3" True] by auto
  have "\<exists>s. queueSteps pickyEnv (containerStop pickyEnv 3) 0 twoCalls (queueIdle 0 (twoJobs True)) s \<and>
    caller s 1 = Returned None \<and> caller s 2 = Returned (Some (UserError ''no'')) \<and> process s = w2"
    by (rule replies_can_be_swapped [OF _ _ _ _ _ _ _ w(1,2)]) (simp_all add: twoCalls_def checkName_twoJobs)
  then show ?thesis using w(3,4) by blast
qed

section \<open>Two queues\<close>

text \<open>Both find no queue, both make one; the second overwrites the first in the container.\<close>

definition bothMake :: "nat \<Rightarrow> nat \<Rightarrow> move list" where
  "bothMake i j =
     [Call i, Call j, Call i, Call j, Call i, Call i, Call i, Call j, Call j, Call j, Work i, Work j,
      Call i, Call i, Work i, Call i]"

lemma opened_again: "opened c (opened c w) = opened c w"
  by (simp add: opened_def updPart_def upd_def option.map_comp comp_def)

lemma bothMake_run:
  assumes "i \<noteq> j" and "calls i = Some (Some x)" and "calls j = Some (Some y)"
    and "checkName w c (Some x) = Checking" and "checkName w c (Some y) = Checking" and "Stage (heap w c) < Stopping"
  shows "\<exists>s. performs E halt c calls (bothMake i j) (queueInit w) = Some s \<and> process s = opened c w \<and>
    buffer s = (\<lambda>_. None) \<and> caller s = (\<lambda>_. NotCalled)(i := Waiting (Some j), j := Evaluating) \<and>
    queueVar s = Some j \<and> notifyVar s = Some j \<and>
    worker s = (\<lambda>_. NoWorker)(i := Running (Some i) (Some j) (ToInit x), j := Running (Some j) (Some j) AtRange)"
  using assms opened_again [of c w]
  by (simp add: bothMake_def perform_def callerMove_def opened_def fun_upd_twist)

text \<open>
  C30: two first calls of \<^verbatim>\<open>Add\<close> can leave one of them waiting for ever. Both see that there is no queue
  and each makes a queue, a notification channel and a goroutine; the channels made later replace the
  first ones. The goroutine of the first caller activates its component and reports on the channel that
  nobody listens to; the caller waits on the other one, and nothing can move any more. Both components
  have been activated, but one \<^verbatim>\<open>Add\<close> never returns.
\<close>

theorem first_Adds_can_block:
  assumes "i \<noteq> j" and "checkName w c (Some x) = Checking" and "checkName w c (Some y) = Checking"
    and "Stage (heap w c) < Stopping"
    and "activateComponent E halt c x (opened c w) = Done e1 w1" and "activateComponent E halt c y w1 = Done e2 w2"
  shows "\<exists>s. queueSteps E halt c [i \<mapsto> Some x, j \<mapsto> Some y] (queueInit w) s \<and> process s = w2 \<and>
    caller s j = Returned e2 \<and> caller s i = Waiting (Some j) \<and>
    (\<nexists>s1. queueStep E halt c [i \<mapsto> Some x, j \<mapsto> Some y] s s1)"
proof -
  let ?calls = "[i \<mapsto> Some x, j \<mapsto> Some y]"
  obtain s1 where s1: "queueSteps E halt c ?calls (queueInit w) s1" "process s1 = opened c w" "buffer s1 = (\<lambda>_. None)"
    "caller s1 = (\<lambda>_. NotCalled)(i := Waiting (Some j), j := Evaluating)" "queueVar s1 = Some j" "notifyVar s1 = Some j"
    "worker s1 = (\<lambda>_. NoWorker)(i := Running (Some i) (Some j) (ToInit x), j := Running (Some j) (Some j) AtRange)"
    using bothMake_run [of i j ?calls x y w c E halt] assms(1-4) performs_queueSteps by fastforce
  have wi: "worker s1 i = Running (Some i) (Some j) (ToInit x)" using s1(7) assms(1) by simp
  obtain f where s2: "queueSteps E halt c ?calls s1
      (setWorker i (Running (Some i) (Some j) (Report e1)) (s1\<lparr>process := w1, errVar := (errVar s1)(i := f)\<rparr>))"
    (is "queueSteps _ _ _ _ _ ?s2")
    using activation_runs [OF wi, of E halt c e1 w1 ?calls] assms(5) s1(2) by auto
  have "performs E halt c ?calls [Call j, Call j, Work j, Call j] ?s2 \<noteq> None"
    using assms(1) s1(3-7) by (simp add: perform_def callerMove_def)
  then obtain s3 where p3: "performs E halt c ?calls [Call j, Call j, Work j, Call j] ?s2 = Some s3" by blast
  then have s3: "process s3 = w1" "buffer s3 = (\<lambda>_. None)" "caller s3 = (\<lambda>_. NotCalled)(i := Waiting (Some j), j := Waiting (Some j))"
    "worker s3 = (\<lambda>_. NoWorker)(i := Running (Some i) (Some j) (Report e1), j := Running (Some j) (Some j) (ToInit y))"
    using assms(1) s1(3-7) by (auto simp: perform_def callerMove_def fun_upd_twist)
  have wj: "worker s3 j = Running (Some j) (Some j) (ToInit y)" using s3(4) by simp
  obtain g where s4: "queueSteps E halt c ?calls s3
      (setWorker j (Running (Some j) (Some j) (Report e2)) (s3\<lparr>process := w2, errVar := (errVar s3)(j := g)\<rparr>))"
    (is "queueSteps _ _ _ _ _ ?s4")
    using activation_runs [OF wj, of E halt c e2 w2 ?calls] assms(6) s3(1) by auto
  have "performs E halt c ?calls [Hand j j, Call j] ?s4 \<noteq> None"
    using assms(1) s3 by (simp add: perform_def callerMove_def)
  then obtain s5 where p5: "performs E halt c ?calls [Hand j j, Call j] ?s4 = Some s5" by blast
  then have s5: "process s5 = w2" "buffer s5 = (\<lambda>_. None)" "caller s5 = (\<lambda>_. NotCalled)(i := Waiting (Some j), j := Returned e2)"
    "worker s5 = (\<lambda>_. NoWorker)(i := Running (Some i) (Some j) (Report e1), j := Running (Some j) (Some j) AtRange)"
    using assms(1) s3 by (auto simp: perform_def callerMove_def)
  have "queueSteps E halt c ?calls (queueInit w) s5"
    by (rule queueSteps_trans [OF queueSteps_trans [OF queueSteps_trans [OF queueSteps_trans [OF s1(1) s2]
        performs_queueSteps [OF p3]] s4] performs_queueSteps [OF p5]])
  moreover have "\<not> queueStep E halt c ?calls s5 t" for t
  proof
    assume "queueStep E halt c ?calls s5 t"
    then show False
    proof cases
      case (call k a)
      then show False using s5(3) assms(1) by (auto simp: callerMove_def split: if_splits)
    next
      case (work k)
      have "workerMove E halt c k s5 = None"
        using s5(2,4) by (cases "k = j"; cases "k = i") simp_all
      then show False using work by simp
    next
      case (handOver k n q err l)
      then show False using s5(3,4) assms(1) by (auto split: if_splits)
    qed
  qed
  ultimately show ?thesis using s5(1,3) assms(1) by (intro exI [of _ s5]) simp
qed

theorem first_Adds_can_block_witness:
  "\<exists>s. queueSteps pickyEnv (containerStop pickyEnv 3) 0 [1 \<mapsto> Some 5, 2 \<mapsto> Some 6] (queueInit (twoJobs False)) s \<and>
    Stage (heap (process s) 6) = Started \<and> caller s 2 = Returned None \<and> caller s 1 = Waiting (Some 2) \<and>
    (\<nexists>s1. queueStep pickyEnv (containerStop pickyEnv 3) 0 [1 \<mapsto> Some 5, 2 \<mapsto> Some 6] s s1)"
proof -
  have q: "withQueue 0 (twoJobs False) = opened 0 (twoJobs False)"
    by (simp add: withQueue_def opened_def cpart_def stage_order)
  obtain w1 w2 where w: "activateComponent pickyEnv (containerStop pickyEnv 3) 0 5 (opened 0 (twoJobs False)) = Done (Some (UserError ''no'')) w1"
    "activateComponent pickyEnv (containerStop pickyEnv 3) 0 6 w1 = Done None w2" "Stage (heap w2 6) = Started"
    using twoJobs_run [of "containerStop pickyEnv 3" False] unfolding q by auto
  have "\<exists>s. queueSteps pickyEnv (containerStop pickyEnv 3) 0 [1 \<mapsto> Some 5, 2 \<mapsto> Some 6] (queueInit (twoJobs False)) s \<and>
    process s = w2 \<and> caller s 2 = Returned None \<and> caller s 1 = Waiting (Some 2) \<and>
    (\<nexists>s1. queueStep pickyEnv (containerStop pickyEnv 3) 0 [1 \<mapsto> Some 5, 2 \<mapsto> Some 6] s s1)"
    by (rule first_Adds_can_block [OF _ _ _ _ w(1,2)]) (simp_all add: checkName_twoJobs stage_order)
  then show ?thesis using w(3) by blast
qed

end
