(* ===== verification/Component_Locks.thy ===== *)
theory Component_Locks
  imports Kinesis_Prelude
begin

text \<open>
  The locks of a component. \<^verbatim>\<open>getMutatingLock\<close> and \<^verbatim>\<open>getstateTransitionLock\<close> make their lock when it is
  asked for first; the compare-and-swap before it guards nothing, as its result is dropped. A critical
  section asks for the lock twice, to lock it and to unlock it. Here each access to the field and
  each lock operation is a step of its own, for any number of goroutines that write.
\<close>

section \<open>State and steps\<close>

text \<open>
  Where a goroutine is; the flag tells whether it has asked for the lock to unlock it. A lock is named
  after the goroutine that makes it. \<open>Fatal\<close> is the runtime error of unlocking what is not locked, or
  the failed type assertion.
\<close>

datatype lockPc =
    OutsideLock | AskLock bool | MakeLock bool | ReadLock bool | Acquire nat | Critical | Release nat | Fatal

record lockState =
  mutatingLock :: "nat option"
  holder :: "nat \<Rightarrow> nat option"
  lockPcs :: "nat \<Rightarrow> lockPc"

definition goLock :: "nat \<Rightarrow> lockPc \<Rightarrow> lockState \<Rightarrow> lockState" where
  "goLock i p s = s\<lparr>lockPcs := (lockPcs s)(i := p)\<rparr>"

lemma goLock_sel [simp]:
  "mutatingLock (goLock i p s) = mutatingLock s" "holder (goLock i p s) = holder s"
  "lockPcs (goLock i p s) = (lockPcs s)(i := p)"
  by (simp_all add: goLock_def)

text \<open>One step of \<^verbatim>\<open>getMutatingLock\<close>: the test, the making, the read of the field that is returned.\<close>

definition getMutatingLock :: "nat \<Rightarrow> lockState \<Rightarrow> lockState option" where
  "getMutatingLock i s =
     (case lockPcs s i of
        AskLock b \<Rightarrow> Some (goLock i (if mutatingLock s = None then MakeLock b else ReadLock b) s)
      | MakeLock b \<Rightarrow> Some (goLock i (ReadLock b) (s\<lparr>mutatingLock := Some i\<rparr>))
      | ReadLock b \<Rightarrow>
          Some (goLock i (case mutatingLock s of None \<Rightarrow> Fatal | Some l \<Rightarrow> if b then Release l else Acquire l) s)
      | _ \<Rightarrow> None)"

text \<open>
  \<^verbatim>\<open>d.getMutatingLock().Lock()\<close>, the section, \<^verbatim>\<open>d.getMutatingLock().Unlock()\<close>, each with a call of
  \<^verbatim>\<open>getMutatingLock\<close> of its own: so in \<^verbatim>\<open>Container.Add\<close>, and in \<^verbatim>\<open>componentLifecycleFSM\<close>, whose deferred
  function asks for the lock again after the section. (\<^verbatim>\<open>setContainer\<close> defers the \<^verbatim>\<open>Unlock\<close> itself and so
  asks for its lock the second time at the start of the section, not at its end.) Go lets anybody unlock.
\<close>

definition lockMove :: "nat \<Rightarrow> lockState \<Rightarrow> lockState option" where
  "lockMove i s =
     (case lockPcs s i of
        OutsideLock \<Rightarrow> Some (goLock i (AskLock False) s)
      | Acquire l \<Rightarrow>
          if holder s l \<noteq> None then None
          else Some (goLock i Critical (s\<lparr>holder := (holder s)(l := Some i)\<rparr>))
      | Critical \<Rightarrow> Some (goLock i (AskLock True) s)
      | Release l \<Rightarrow>
          Some (if holder s l = None then goLock i Fatal s
                else goLock i OutsideLock (s\<lparr>holder := (holder s)(l := None)\<rparr>))
      | _ \<Rightarrow> getMutatingLock i s)"

inductive lockStep :: "lockState \<Rightarrow> lockState \<Rightarrow> bool" where
  "lockMove i s = Some s1 \<Longrightarrow> lockStep s s1"

inductive_cases lockStepE: "lockStep s s1"

definition lockSteps :: "lockState \<Rightarrow> lockState \<Rightarrow> bool" where
  "lockSteps = lockStep\<^sup>*\<^sup>*"

definition noLock :: lockState where
  "noLock = \<lparr>mutatingLock = None, holder = (\<lambda>_. None), lockPcs = (\<lambda>_. OutsideLock)\<rparr>"

text \<open>A component whose lock was made by an earlier call, which is over.\<close>

definition lockMade :: "nat \<Rightarrow> lockState" where
  "lockMade l = noLock\<lparr>mutatingLock := Some l\<rparr>"

fun inSection :: "lockPc \<Rightarrow> bool" where
  "inSection Critical = True"
| "inSection (AskLock b) = b"
| "inSection (MakeLock b) = b"
| "inSection (ReadLock b) = b"
| "inSection (Release l) = True"
| "inSection _ = False"

section \<open>A lock that is there\<close>

fun keepsTo :: "nat \<Rightarrow> lockPc \<Rightarrow> bool" where
  "keepsTo l (MakeLock b) = False"
| "keepsTo l (Acquire k) = (k = l)"
| "keepsTo l (Release k) = (k = l)"
| "keepsTo l Fatal = False"
| "keepsTo l _ = True"

definition locked :: "nat \<Rightarrow> lockState \<Rightarrow> bool" where
  "locked l s \<longleftrightarrow>
     mutatingLock s = Some l \<and> (\<forall>i. keepsTo l (lockPcs s i)) \<and>
     (\<forall>i. inSection (lockPcs s i) \<longleftrightarrow> holder s l = Some i)"

lemma locked_step: "locked l s \<Longrightarrow> lockStep s s1 \<Longrightarrow> locked l s1"
proof (elim lockStepE)
  fix i assume l: "locked l s" and m: "lockMove i s = Some s1"
  have "keepsTo l (lockPcs s i)" "inSection (lockPcs s i) \<longleftrightarrow> holder s l = Some i" using l by (simp_all add: locked_def)
  then show "locked l s1"
    using l m by (cases "lockPcs s i") (auto simp: lockMove_def getMutatingLock_def locked_def split: if_splits)
qed

text \<open>
  C20: once a component's lock is there, it excludes: however goroutines interleave, at most one of them
  is between its \<^verbatim>\<open>Lock\<close> and its \<^verbatim>\<open>Unlock\<close>, all of them use the lock that is there, and none unlocks a
  lock that is not locked.
\<close>

theorem lock_excludes:
  assumes "lockSteps (lockMade l) s"
  shows "(\<forall>i j. inSection (lockPcs s i) \<longrightarrow> inSection (lockPcs s j) \<longrightarrow> i = j) \<and>
    (\<forall>i. lockPcs s i \<noteq> Fatal) \<and> mutatingLock s = Some l"
proof -
  have "locked l s"
    using assms unfolding lockSteps_def
  proof (induction rule: rtranclp_induct)
    case base
    then show ?case by (simp add: locked_def lockMade_def noLock_def)
  qed (rule locked_step)
  then have "keepsTo l (lockPcs s i) \<and> (inSection (lockPcs s i) \<longleftrightarrow> holder s l = Some i)" "mutatingLock s = Some l" for i
    by (simp_all add: locked_def)
  then show ?thesis by (metis keepsTo.simps(4) option.inject)
qed

section \<open>A lock that has to be made\<close>

fun lockRun :: "nat list \<Rightarrow> lockState \<Rightarrow> lockState option" where
  "lockRun [] s = Some s"
| "lockRun (i # is) s = Option.bind (lockMove i s) (lockRun is)"

lemma lockRun_steps: "lockRun is s = Some s1 \<Longrightarrow> lockSteps s s1"
proof (induction "is" arbitrary: s)
  case (Cons i "is")
  then obtain s0 where "lockMove i s = Some s0" "lockSteps s0 s1" by (auto simp: Option.bind_eq_Some_conv)
  then show ?case unfolding lockSteps_def by (meson converse_rtranclp_into_rtranclp lockStep.intros)
qed (simp add: lockSteps_def)

theorem lock_excludes_witness:
  "\<exists>s. lockSteps (lockMade 9) s \<and> lockPcs s 1 = Critical \<and> lockPcs s 2 = Acquire 9 \<and> \<not> inSection (lockPcs s 2)"
proof -
  have "\<exists>s. lockRun [1, 2, 1, 2, 1, 2, 1] (lockMade 9) = Some s \<and> lockPcs s 1 = Critical \<and> lockPcs s 2 = Acquire 9"
    by (simp add: lockMove_def getMutatingLock_def lockMade_def noLock_def)
  then obtain s where s: "lockSteps (lockMade 9) s" "lockPcs s 1 = Critical" "lockPcs s 2 = Acquire 9"
    using lockRun_steps by blast
  then have "\<not> inSection (lockPcs s 2)" using lock_excludes [OF s(1)] by fastforce
  then show ?thesis using s by blast
qed

text \<open>
  C31: the first two goroutines to ask for a lock can be in its section both at once. Both find no lock,
  each makes one and the second replaces the first. The first goroutine then unlocks the lock of the
  second: before the second has locked it that is a fatal error, which ends the process.
\<close>

theorem first_locks_race:
  assumes "i \<noteq> j"
  shows "(\<exists>s. lockSteps noLock s \<and> lockPcs s i = Critical \<and> lockPcs s j = Critical) \<and>
    (\<exists>s. lockSteps noLock s \<and> lockPcs s i = Fatal)"
proof
  have "\<exists>s. lockRun [i, j, i, j, i, i, i, j, j, j] noLock = Some s \<and> lockPcs s i = Critical \<and> lockPcs s j = Critical"
    using assms by (simp add: lockMove_def getMutatingLock_def noLock_def)
  then show "\<exists>s. lockSteps noLock s \<and> lockPcs s i = Critical \<and> lockPcs s j = Critical" using lockRun_steps by blast
  have "\<exists>s. lockRun [i, j, i, j, i, i, i, j, i, i, i, i] noLock = Some s \<and> lockPcs s i = Fatal"
    using assms by (simp add: lockMove_def getMutatingLock_def noLock_def)
  then show "\<exists>s. lockSteps noLock s \<and> lockPcs s i = Fatal" using lockRun_steps by blast
qed

theorem first_locks_race_witness:
  "(\<exists>s. lockSteps noLock s \<and> lockPcs s 1 = Critical \<and> lockPcs s 2 = Critical) \<and> (\<exists>s. lockSteps noLock s \<and> lockPcs s 1 = Fatal)"
  by (rule first_locks_race) simp

end
