(* ===== verification/Logging.thy ===== *)
theory Logging
  imports World
begin

text \<open>
  Loggers (logger.go, and the logger fields of component.go and container.go): the level the process
  logs at, the logger a component gets when it is added, and the logger a context carries. A zap logger
  is its level and the fields bound to it; what zap writes is not modelled.
\<close>

datatype logLevel = DebugLevel | InfoLevel

datatype goLogger = Zap logLevel "(string \<times> string) list" | NopLogger

text \<open>The process logger, and the configuration it is built from.\<close>

record zapConfig =
  Level :: logLevel
  Development :: bool
  DisableCaller :: bool
  DisableStacktrace :: bool
  Encoding :: string
  TimeKey :: string
  OutputPaths :: "string list"
  ErrorOutputPaths :: "string list"

definition loggerConfig :: "env \<Rightarrow> zapConfig" where
  "loggerConfig E =
     (let logLvl = toLower (getenv E ''KINESIS_LOG_LEVEL'')
      in \<lparr>Level = (if logLvl = ''debug'' then DebugLevel else InfoLevel), Development = False,
          DisableCaller = False, DisableStacktrace = False, Encoding = ''json'', TimeKey = ''timestamp'',
          OutputPaths = [''stderr''], ErrorOutputPaths = [''stderr'']\<rparr>)"

definition createLogger :: "env \<Rightarrow> goLogger" where
  "createLogger E = Zap (Level (loggerConfig E)) []"

fun withField :: "string \<times> string \<Rightarrow> goLogger \<Rightarrow> goLogger" where
  "withField f (Zap l fs) = Zap l (fs @ [f])"
| "withField f NopLogger = NopLogger"

text \<open>
  The value a context has under \<^verbatim>\<open>loggerKey\<close>, if it has one: a pointer, which may be \<^verbatim>\<open>nil\<close>. A nil
  pointer of the right type passes the type assertion.
\<close>

type_synonym loggerCtx = "goLogger option option"

definition ContextWithLogger :: "loggerCtx \<Rightarrow> goLogger option \<Rightarrow> loggerCtx" where
  "ContextWithLogger ctx l = Some l"

definition LoggerFromContext :: "goLogger option \<Rightarrow> loggerCtx \<Rightarrow> goLogger option" where
  "LoggerFromContext processLogger ctx =
     (case ctx of
        Some l \<Rightarrow> l
      | None \<Rightarrow> (case processLogger of Some l \<Rightarrow> Some l | None \<Rightarrow> Some NopLogger))"

text \<open>The loggers of the components, and what \<^verbatim>\<open>Add\<close> does to them before it queues the component.\<close>

type_synonym loggers = "cid \<rightharpoonup> goLogger"

definition GetLogger :: "goLogger option \<Rightarrow> loggers \<Rightarrow> cid \<Rightarrow> goLogger option" where
  "GetLogger processLogger ls x = (case ls x of None \<Rightarrow> processLogger | Some l \<Rightarrow> Some l)"

definition addLogger :: "goLogger option \<Rightarrow> world \<Rightarrow> cid \<Rightarrow> cid \<Rightarrow> loggers \<Rightarrow> loggers outcome" where
  "addLogger processLogger w c x ls =
     (let parentLogger = (case GetLogger processLogger ls c of None \<Rightarrow> processLogger | Some l \<Rightarrow> Some l)
      in case parentLogger of
           None \<Rightarrow> Panics
         | Some l \<Rightarrow> Ret (ls(x \<mapsto> withField (''component'', Name (heap w x)) l)))"

text \<open>A container that adds itself, and below it one component after the other, each in the one before.\<close>

fun addChain :: "goLogger option \<Rightarrow> world \<Rightarrow> cid \<Rightarrow> cid list \<Rightarrow> loggers \<Rightarrow> loggers outcome" where
  "addChain pl w c [] ls = Ret ls"
| "addChain pl w c (x # xs) ls = bindO (addLogger pl w c x ls) (addChain pl w x xs)"

lemma addChain_fields:
  assumes "ls c = Some (Zap l fs)" and "distinct (c # xs)"
  shows "\<exists>ls1. addChain pl w c xs ls = Ret ls1 \<and>
    ls1 (last (c # xs)) = Some (Zap l (fs @ map (\<lambda>x. (''component'', Name (heap w x))) xs))"
  using assms
proof (induction xs arbitrary: c ls fs)
  case (Cons x xs)
  let ?f = "(''component'', Name (heap w x))"
  have "addLogger pl w c x ls = Ret (ls(x \<mapsto> Zap l (fs @ [?f])))"
    using Cons.prems(1) by (simp add: addLogger_def GetLogger_def)
  moreover have "(ls(x \<mapsto> Zap l (fs @ [?f]))) x = Some (Zap l (fs @ [?f]))" "distinct (x # xs)"
    using Cons.prems(2) by simp_all
  from Cons.IH [where c = x and ls = "ls(x \<mapsto> Zap l (fs @ [?f]))", OF this] obtain ls1 where "addChain pl w x xs (ls(x \<mapsto> Zap l (fs @ [?f]))) = Ret ls1"
    "ls1 (last (x # xs)) = Some (Zap l ((fs @ [?f]) @ map (\<lambda>x. (''component'', Name (heap w x))) xs))"
    by blast
  ultimately show ?case by simp
qed simp

text \<open>
  The log lines of a component carry the key \<^verbatim>\<open>component\<close> once for each container above it and once for
  itself, outermost first, at the level of the process.
\<close>

theorem logger_carries_path:
  assumes "distinct (r # xs)" and "ls r = None"
  shows "\<exists>ls1. addChain (Some (createLogger E)) w r (r # xs) ls = Ret ls1 \<and>
    (\<exists>l. createLogger E = Zap l [] \<and>
       ls1 (last (r # xs)) = Some (Zap l (map (\<lambda>x. (''component'', Name (heap w x))) (r # xs))))"
proof -
  obtain l where l: "createLogger E = Zap l []" by (simp add: createLogger_def)
  let ?f = "(''component'', Name (heap w r))"
  have "addLogger (Some (createLogger E)) w r r ls = Ret (ls(r \<mapsto> Zap l [?f]))"
    using assms(2) l by (simp add: addLogger_def GetLogger_def)
  moreover have "(ls(r \<mapsto> Zap l [?f])) r = Some (Zap l [?f])" by simp
  from addChain_fields [where c = r and ls = "ls(r \<mapsto> Zap l [?f])", OF this assms(1)] obtain ls1
    where "addChain (Some (createLogger E)) w r xs (ls(r \<mapsto> Zap l [?f])) = Ret ls1"
    "ls1 (last (r # xs)) = Some (Zap l ([?f] @ map (\<lambda>x. (''component'', Name (heap w x))) xs))"
    by blast
  ultimately show ?thesis using l by simp
qed

text \<open>A context gives back the logger that was put into it, and otherwise there always is one.\<close>

lemma LoggerFromContext_simps [simp]:
  "LoggerFromContext pl (ContextWithLogger ctx (Some l)) = Some l"
  "LoggerFromContext pl None \<noteq> None"
  by (simp_all add: LoggerFromContext_def ContextWithLogger_def split: option.split)

end
