(* ===== verification/Send_Timing.thy ===== *)
theory Send_Timing
  imports Simple_Component "HOL-Library.Signed_Division"
begin

text \<open>
  The timing of \<^verbatim>\<open>SendSyncMessage\<close> (component.go): the poll for the multiplexer, which may be created
  while the sender waits, the timeout that is left afterwards, the send, and the choice among the reply,
  the timeout and the cap of 75 seconds. Durations are 64-bit signed nanoseconds, and divisions truncate.
\<close>

section \<open>Waiting for the multiplexer\<close>

type_synonym duration = "64 word"

definition retryUnits :: nat where "retryUnits = 100"

text \<open>Go divides signed integers with truncation towards zero.\<close>

definition retryWaitOf :: "duration \<Rightarrow> duration" where
  "retryWaitOf timeout = word_of_int (sint timeout sdiv int retryUnits)"

text \<open>
  The \<^verbatim>\<open>for\<close> loop: \<open>ready retries\<close> says whether the multiplexer is there at a poll. The result is
  whether it was found, the timeout afterwards, and the sleeps made.
\<close>

function pollMmux :: "(nat \<Rightarrow> bool) \<Rightarrow> duration \<Rightarrow> nat \<Rightarrow> duration \<Rightarrow> duration list \<Rightarrow> bool \<times> duration \<times> duration list" where
  "pollMmux ready retryWait retries timeout sleeps =
     (if retries \<le> retryUnits
      then if \<not> ready retries then pollMmux ready retryWait (Suc retries) timeout (sleeps @ [retryWait])
           else (True, timeout - of_nat retries * retryWait, sleeps)
      else (False, timeout, sleeps))"
  by pat_completeness auto
termination by (relation "measure (\<lambda>(_, _, retries, _, _). Suc retryUnits - retries)") auto

declare pollMmux.simps [simp del]

text \<open>
  The whole call, for a component in the given stage: refused, blocked for ever on a nil channel or on
  one that stays full, or an answer. The times are counted from the creation of the context, right
  before the send: \<open>sentAt\<close> is when the channel has room for the message, if ever, and \<open>answerAt\<close> when the
  reply would come, and what it is. The context's timeout runs during the send already, but nothing
  looks at it before the \<^verbatim>\<open>select\<close>; the cap of 75 seconds counts from there. A context whose timeout is
  not positive is done at once.
\<close>

definition secondsOf :: "int \<Rightarrow> int" where "secondsOf n = n * 10 ^ 9"

definition awaitReply :: "int \<Rightarrow> int \<Rightarrow> (int \<times> kerror option) option \<Rightarrow> kerror option" where
  "awaitReply remaining sentAt answerAt =
     (let cap = sentAt + secondsOf 75;
          limit = min (max 0 remaining) cap;
          onLimit = (if max 0 remaining \<le> cap then DeadlineExceeded else NotificationTimeout)
      in case answerAt of
           Some (t, err) \<Rightarrow> if t < limit then err else Some onLimit
         | None \<Rightarrow> Some onLimit)"

definition sendTimed ::
    "component \<Rightarrow> duration \<Rightarrow> (nat \<Rightarrow> bool) \<Rightarrow> int option \<Rightarrow> (int \<times> kerror option) option \<Rightarrow> kerror option outcome" where
  "sendTimed d timeout ready sentAt answerAt =
     (if Stopping \<le> Stage d then Ret (Some (CannotProcess (Name d) (Stage d)))
      else (let (found, remaining, sleeps) = pollMmux ready (retryWaitOf timeout) 0 timeout []
            in if \<not> found then Blocks
               else case sentAt of
                 None \<Rightarrow> Blocks
               | Some s \<Rightarrow> Ret (awaitReply (sint remaining) s answerAt)))"

section \<open>The poll finds the first moment the multiplexer is there\<close>

lemma pollMmux_waits:
  "k \<le> retryUnits + 1 \<Longrightarrow> retries \<le> k \<Longrightarrow> \<forall>r. retries \<le> r \<and> r < k \<longrightarrow> \<not> ready r \<Longrightarrow>
   pollMmux ready u retries t sl = pollMmux ready u k t (sl @ replicate (k - retries) u)"
proof (induction "k - retries" arbitrary: retries sl)
  case (Suc n)
  then have less: "retries < k" by simp
  have "pollMmux ready u retries t sl = pollMmux ready u (Suc retries) t (sl @ [u])"
    using Suc.prems less by (subst pollMmux.simps) simp
  also have "\<dots> = pollMmux ready u k t ((sl @ [u]) @ replicate (k - Suc retries) u)"
    using Suc.hyps(2) Suc.prems less by (intro Suc.hyps(1)) auto
  finally show ?case using less by (simp add: replicate_append_same Suc_diff_Suc flip: replicate_Suc)
qed simp

lemma pollMmux_found:
  assumes "k \<le> retryUnits" and "ready k" and "\<forall>r < k. \<not> ready r"
  shows "pollMmux ready u 0 t [] = (True, t - of_nat k * u, replicate k u)"
proof -
  have "pollMmux ready u 0 t [] = pollMmux ready u k t (replicate k u)"
    using pollMmux_waits [of k 0 ready u t "[]"] assms by simp
  also have "\<dots> = (True, t - of_nat k * u, replicate k u)"
    using assms by (subst pollMmux.simps) simp
  finally show ?thesis .
qed

lemma pollMmux_never:
  assumes "\<forall>r \<le> retryUnits. \<not> ready r"
  shows "pollMmux ready u 0 t [] = (False, t, replicate (retryUnits + 1) u)"
proof -
  let ?k = "retryUnits + 1"
  have "pollMmux ready u 0 t [] = pollMmux ready u ?k t (replicate ?k u)"
    using pollMmux_waits [of ?k 0 ready u t "[]"] assms by simp
  also have "\<dots> = (False, t, replicate ?k u)"
    by (subst pollMmux.simps) simp
  finally show ?thesis .
qed

text \<open>Without overflow: the sleeps and the remaining timeout add up to the timeout given.\<close>

lemma sint_of_int64: "- (2 ^ 63) \<le> z \<Longrightarrow> z < 2 ^ 63 \<Longrightarrow> sint (word_of_int z :: 64 word) = z"
  by (simp add: sint_sbintrunc' signed_take_bit_int_eq_self)

lemma sint_retryWaitOf: "sint (retryWaitOf t) = sint t sdiv 100"
proof -
  have "- (2 ^ 63) \<le> sint t" "sint t < 2 ^ 63"
    using sint_greater_eq [of t] sint_less [of t] by simp_all
  then have "- (2 ^ 63) \<le> sint t sdiv 100" "sint t sdiv 100 < 2 ^ 63"
    by (auto simp: signed_divide_int_def sgn_if abs_if)
  then show ?thesis
    by (simp add: retryWaitOf_def retryUnits_def sint_of_int64)
qed

lemma sint_remaining:
  assumes "0 \<le> sint t" and "k \<le> 100"
  shows "sint (t - of_nat k * retryWaitOf t) = sint t - int k * (sint t div 100)"
    and "int k * (sint t div 100) \<le> sint t"
proof -
  have u: "sint (retryWaitOf t) = sint t div 100"
    using assms(1) by (simp add: sint_retryWaitOf signed_divide_int_def sgn_if)
  have "int k * (sint t div 100) \<le> 100 * (sint t div 100)"
    using assms by (intro mult_right_mono) auto
  also have "\<dots> \<le> sint t" by simp
  finally show le: "int k * (sint t div 100) \<le> sint t" .
  have nn: "0 \<le> int k * (sint t div 100)" using assms(1) by (simp add: pos_imp_zdiv_nonneg_iff)
  have lt: "sint t < 2 ^ 63" using sint_less [of t] by simp
  have w: "t - of_nat k * retryWaitOf t = word_of_int (sint t - int k * (sint t div 100))"
    unfolding u [symmetric] by simp
  show "sint (t - of_nat k * retryWaitOf t) = sint t - int k * (sint t div 100)"
    unfolding w using le nn lt by (intro sint_of_int64) auto
qed

section \<open>Properties\<close>

text \<open>
  C25: when the multiplexer appears at the \<open>k\<close>-th poll, \<^verbatim>\<open>SendSyncMessage\<close> has slept \<open>k\<close> hundredths of
  the timeout and, once the channel has taken the message, waits for the reply for what is left: the two
  add up to the timeout it was given, and nothing overflows. On a channel that stays full it blocks,
  whatever the timeout.
\<close>

theorem send_budget:
  assumes "Stage d < Stopping" and "0 \<le> sint timeout" and "k \<le> retryUnits" and "ready k"
    and "\<forall>r < k. \<not> ready r"
  shows "sendTimed d timeout ready (Some s) answerAt =
      Ret (awaitReply (sint timeout - int k * (sint timeout div 100)) s answerAt) \<and>
    sendTimed d timeout ready None answerAt = Blocks \<and>
    snd (snd (pollMmux ready (retryWaitOf timeout) 0 timeout [])) = replicate k (retryWaitOf timeout) \<and>
    sint (retryWaitOf timeout) = sint timeout div 100 \<and>
    0 \<le> sint timeout - int k * (sint timeout div 100)"
proof -
  have "\<not> Stopping \<le> Stage d" using assms(1) by simp
  then show ?thesis
    using assms(2-3) pollMmux_found [OF assms(3-5)] sint_remaining [OF assms(2), of k]
    by (simp add: sendTimed_def retryUnits_def sint_retryWaitOf signed_divide_int_def sgn_if)
qed

theorem send_budget_witness:
  "sendTimed (newComponent 0 SimpleT ''a'' [] []) (word_of_int (secondsOf 5)) (\<lambda>r. 40 \<le> r)
     (Some 0) (Some (secondsOf 2, None)) = Ret None \<and>
   sendTimed (newComponent 0 SimpleT ''a'' [] []) (word_of_int (secondsOf 5)) (\<lambda>r. 40 \<le> r)
     (Some (secondsOf 4)) (Some (secondsOf 5, None)) = Ret (Some DeadlineExceeded)"
  using send_budget [of "newComponent 0 SimpleT ''a'' [] []" "word_of_int (secondsOf 5)" 40 "\<lambda>r. 40 \<le> r"
      0 "Some (secondsOf 2, None)"]
    send_budget [of "newComponent 0 SimpleT ''a'' [] []" "word_of_int (secondsOf 5)" 40 "\<lambda>r. 40 \<le> r"
      "secondsOf 4" "Some (secondsOf 5, None)"]
  by (simp add: stage_order secondsOf_def sint_of_int64 retryUnits_def awaitReply_def Let_def)

text \<open>
  C38: if no multiplexer is there in any of the 101 polls, \<^verbatim>\<open>SendSyncMessage\<close> goes on to send on the nil
  channel and blocks for ever; the timeout and the cap of 75 seconds are not reached, although it has
  slept 101 hundredths of the timeout already.
\<close>

theorem send_without_mmux_blocks:
  assumes "Stage d < Stopping" and "\<forall>r \<le> retryUnits. \<not> ready r"
  shows "sendTimed d timeout ready sentAt answerAt = Blocks \<and>
    length (snd (snd (pollMmux ready (retryWaitOf timeout) 0 timeout []))) = retryUnits + 1"
proof -
  have "\<not> Stopping \<le> Stage d" using assms(1) by simp
  then show ?thesis by (simp add: sendTimed_def pollMmux_never [OF assms(2)])
qed

theorem send_without_mmux_blocks_witness:
  "sendTimed (newComponent 0 SimpleT ''a'' [] []) (word_of_int (secondsOf 5)) (\<lambda>r. False) (Some 0) None = Blocks"
  using send_without_mmux_blocks [of "newComponent 0 SimpleT ''a'' [] []" "\<lambda>r. False"]
  by (simp add: stage_order)

end
