(* ===== verification/Spec2Isabelle.thy ===== *)
theory Spec2Isabelle
  imports Full_Life Load_Types Serving Add_Races Component_Locks Logging Send_Timing
begin

text \<open>
  Kinesis, a Go framework for micro-services, modelled from its sources.

  The program. A process holds components. Each runs through a life cycle of stages
  (\<^verbatim>\<open>Submitted\<close> ... \<^verbatim>\<open>Started\<close> ... \<^verbatim>\<open>Teareddown\<close>), is owned by a container, receives messages through a
  multiplexer goroutine of its own, and tells callbacks and subscribers of its changes. Containers
  are components that hold others; one of them, the root container, also holds the add-ons and the
  table of HTTP handlers. The add-ons are a file database, with which components are stored and
  loaded, and an HTTP server. A signal shuts everything down.

  How the parts work together. \<^verbatim>\<open>Container.Add\<close> checks the name, runs the state machine
  (\<^verbatim>\<open>componentLifecycleFSM\<close>) to initialize the component, enters it into the tables of the container,
  publishes its handlers in the root container, and runs the state machine again to start it. The
  state machine creates the goroutines: the multiplexer (\<^verbatim>\<open>startMmux\<close>), \<^verbatim>\<open>PreStart\<close>, \<^verbatim>\<open>Start\<close>. A
  control message (\<^verbatim>\<open>Shutdown\<close>, \<^verbatim>\<open>RestartAfter\<close>, \<^verbatim>\<open>Persist\<close>, ...) makes the multiplexer call the state
  machine; \<^verbatim>\<open>Container.Stop\<close> sends \<^verbatim>\<open>Shutdown\<close> to its components, last in first out; the handler of
  signals sends it to the top level containers.

  The model. Definitions carry the names of the code. A component is a record (\<open>component\<close>, for
  \<^verbatim>\<open>SimpleComponent\<close> with the fields of the struct it is embedded in, and the message that waits in the channel of its
  multiplexer, which holds one); its concrete type is a value of
  \<open>gotype\<close>, and methods a type may override are dispatched on it (\<open>virtualInit\<close>, \<open>virtualStop\<close>, ...).
  The process is a record \<open>world\<close>: the components at their addresses, the package variables of
  container.go, the goroutines that wait to run (\<open>tasks\<close>), the disk, and two histories, of the
  components torn down and of the sleeps. An operation maps a world to a \<open>run\<close>: it is done with a
  result, it panics, it ends the process, or it blocks for ever. Errors are values of \<open>kerror\<close>, one
  constructor per error the code makes. A goroutine's step between two points where it waits is one
  step; steps of different goroutines interleave in any order (\<open>Reachability\<close>). A sender that times out
  leaves its message in the channel with a closed reply channel; a sender that finds the channel full or nil
  is \<open>Stuck\<close>. The delay of a restart is slept in the first of its two calls of the state machine, with the
  lock held. Methods of applications (\<^verbatim>\<open>Init\<close>, \<^verbatim>\<open>PostInit\<close>, \<^verbatim>\<open>PreStart\<close>, \<^verbatim>\<open>Start\<close>, \<^verbatim>\<open>Stop\<close>, handlers) return, return an
  error or panic (\<^verbatim>\<open>IsRestartableWithDelay\<close> returns); callbacks may change callbacks, subscribers, handlers and application fields.

  Theories that model the code:
    \<open>Kinesis_Prelude\<close>: outcomes of Go calls, list operations by slices, tables in insertion order;
    \<open>Go_Text\<close>, \<open>Go_Json\<close>, \<open>Go_Json_Parser\<close>: what the code uses of strconv, strings and encoding/json;
    \<open>Lifecycle_Enums\<close>: stage, state, controlMsg (component.go, *_string.go, marshaljson.go);
    \<open>Kinesis_Types\<close>: errors, dynamic values, fields, change objects (changeobject.go);
    \<open>Simple_Component\<close>: \<^verbatim>\<open>SimpleComponent\<close> (component.go): setStage, callbacks, subscribers, ETags;
    \<open>Send_Timing\<close>: the timing of \<^verbatim>\<open>SendSyncMessage\<close> in 64-bit durations (component.go);
    \<open>Persist_Codec\<close>, \<open>Persist_Roundtrip\<close>: marshalType, unmarshalToType, encrypt, decrypt (persistence.go);
    \<open>Simple_File_Db\<close>: the file database on a disk of files and directories (addons/simplefileDb.go);
    \<open>World\<close>: the process; \<open>Container_Registry\<close>: names, tables, URIs, handlers (container.go);
    \<open>Component_Methods\<close>: persist, load, and Init, PostInit, Stop of the framework's own types
      (container.go, persistence.go, app.go, addons/httpServer.go);
    \<open>Lifecycle\<close>: the state machine, the multiplexer, messages, \<^verbatim>\<open>Container.Stop\<close>, \<^verbatim>\<open>Add\<close>;
    \<open>Activation_Queue\<close>: \<^verbatim>\<open>Add\<close> again, with its channels and its goroutine, one access at a time, for any
      number of callers;
    \<open>Start_Restart\<close>: the goroutines for \<^verbatim>\<open>Start\<close>, \<^verbatim>\<open>PreStart\<close> and restarts, and the server of \<^verbatim>\<open>HttpServer.Start\<close>;
    \<open>Component_Locks\<close>: the locks of a component, one access at a time (component.go);
    \<open>Logging\<close>: the loggers of the process, of contexts and of components (logger.go, container.go);
    \<open>Http_Server\<close>: dispatch, trace middleware, default handler (addons/httpServer.go, component.go);
    \<open>Process_Main\<close>: AttachComponent, the init functions, main (cmd/kinesis.go), the signal handler.

  Theories of results over them:
    \<open>Lifecycle_Relation\<close> is the interface the invariants use: a relation between worlds that the few
      primitive updates satisfy (a locale), for which every operation is proved once; \<open>Reachability\<close>
      has the transition relation and the locale for invariants along it; \<open>Safety\<close> and
      \<open>Whole_Program\<close> interpret both: stages follow the edges of the state machine, the state agrees
      with the stage, tables agree, nothing is torn down twice, add-ons are singletons.
    \<open>Activation\<close>: what \<^verbatim>\<open>Add\<close> does when \<^verbatim>\<open>Init\<close> succeeds or fails; \<open>Messages\<close>: optimistic concurrency by
      ETag, recovery from panics, Add followed by Shutdown; \<open>Restarting\<close>: the restart cycle and how it
      is disturbed; \<open>Shutdown\<close>: one component is taken down; \<open>Nested_Stop\<close>: \<^verbatim>\<open>Container.Stop\<close> on trees of
      containers, with persistence off or on; \<open>Container_Stop\<close>: its order and the cases in which
      it never returns; \<open>Process_Shutdown\<close>: the signal handler; \<open>Startup\<close>: from init to the exit.
    \<open>Concurrent_Add\<close>: a call of \<^verbatim>\<open>Add\<close> that is alone is the \<^verbatim>\<open>Add\<close> of \<open>Lifecycle\<close>, and calls that overlap are
      served in order and all return; \<open>Add_Races\<close>: their results may be swapped, and two first calls
      may leave one of them waiting.
    \<open>Serving\<close>: a request from the server to the handler of a component that was added, and what is left
      of its routes when it is shut down. \<open>Root_Addons\<close>, \<open>Http_Start\<close>: the program with the HTTP server.
    \<open>Load_Types\<close>: \<^verbatim>\<open>load\<close> keeps the types of the fields. \<open>Persisted_App\<close>, \<open>Executions\<close>: the program with
      the file database, process after process: the application counts its executions. \<open>Full_Life\<close>: the
      program in each of its four builds, from the start to the exit on a signal.

  Fuel. \<^verbatim>\<open>Container.Stop\<close> and the shutdown of its components call each other, and the loop may run for
  ever; \<open>containerStop\<close> takes one unit of fuel for each round of its loop and for each nested
  container, and is \<open>Stuck\<close> without. \<open>Fuel\<close> proves that more fuel never changes a result; any fuel
  larger than the number of components below a container is enough where these stop. What never returns is \<open>Stuck\<close> for
  every fuel. Other loops are structural or have a measure; the walk up the containers is a
  \<open>partial_function\<close>, as containers may form a cycle.

  Parameters (\<open>env\<close>, \<open>httpEnv\<close>). Code that is not in the repository: the hash of a component
  (hashstructure), identifiers (uuid), AES-GCM and scrypt, \<^verbatim>\<open>json.MarshalIndent\<close> of arbitrary types, the
  HTTP listener (what serving ends with), the methods of application types (a result, an error or a
  panic for each state of the fields). What is
  assumed of them is a premise of the theorem that needs it (that \<^verbatim>\<open>Open\<close> inverts \<^verbatim>\<open>Seal\<close>, that a
  method returns without an error).

  Not modelled. Outside \<open>Activation_Queue\<close> and \<open>Component_Locks\<close> a call that holds a lock is one step,
  and data races are left out. The log output: a call that writes a log line does nothing. The four seconds a callback is given; a callback always ends. Subscriber
  channels that are full; a notification is an entry of the trace. The router and listener of the HTTP
  server. \<^verbatim>\<open>RelationalDB\<close>, an interface that nothing implements. The profiler of cmd/kinesis.go. Go
  visits a map in any order; where the code does so (unsubscribing, message batches) the model takes
  the order of insertion or the one message the map holds. A run in which serving a
  message never ends is \<open>Stuck\<close> and not followed further, although the sender would time out. Of a callback:
  calls of \<^verbatim>\<open>SetAsNonRestEntity\<close> and \<^verbatim>\<open>SendSyncMessage\<close>, and writes to the fields of the framework. The results on the disk end with the start of a
  process: what the shutdown stores is not followed further.
\<close>

end
